(* ===== verification/Rust_Prelude.thy ===== *)
theory Rust_Prelude
  imports Main "HOL-Library.Word"
begin

text \<open>
  The part of the Rust language and of its standard library that every component of the workspace
  uses: results with a separate panic outcome, the \<^verbatim>\<open>?\<close> operator, slices with range checks,
  and two cursor disciplines that the encoders and the decoders share.

  \<^item> \<^verbatim>\<open>Result<T, E>\<close> is the type \<open>('a, 'e) result\<close>. A panic (an index or a range out of bounds, an
    arithmetic overflow in a build with overflow checks) is its third constructor, so that "returns
    an error" and "panics" are different values of the model. A call that never returns because it waits
    for a lock its own task holds is the value \<open>Panic Deadlock\<close>.
  \<^item> \<^verbatim>\<open>usize\<close> is \<open>nat\<close>: the crates target 64-bit platforms, slices hold less than \<open>2 ^ 63\<close> bytes and the
    lengths read from the wire are below \<open>2 ^ 56\<close> (a property of the varint decoder), so no
    \<^verbatim>\<open>usize\<close> sum of the decoders overflows. Other integers keep their width as words.
  \<^item> a \<open>writer\<close> is a piece of code that writes at \<^verbatim>\<open>buf[offset..]\<close> and advances \<^verbatim>\<open>offset\<close>; a
    \<open>reader\<close> is a piece of code that reads at \<^verbatim>\<open>buf[offset..]\<close> and advances \<^verbatim>\<open>offset\<close>.
    \<open>writes\<close> and \<open>reads\<close> say which bytes such a piece of code produces or consumes, and the rules
    collected in \<open>writes_intros\<close> and \<open>reads_intros\<close> compose them.
\<close>

unbundle bit_operations_syntax

named_theorems writes_intros "which bytes a writer produces"
named_theorems reads_intros "which bytes a reader consumes"

subsection \<open>Machine integers and results\<close>

type_synonym u8 = "8 word"
type_synonym u32 = "32 word"
type_synonym u64 = "64 word"

datatype panic =
    SliceIndexOutOfRange
  | ArithmeticOverflow
  | CapacityZero
  | RangeStartAfterEnd
  | UnwrapNone
  | UnwrapErr
  | AssertionFailed
  | Deadlock

datatype ('a, 'e) result = Ok 'a | Err 'e | Panic panic

primrec and_then :: "('a, 'e) result \<Rightarrow> ('a \<Rightarrow> ('b, 'e) result) \<Rightarrow> ('b, 'e) result" where
  "and_then (Ok x) f = f x"
| "and_then (Err e) f = Err e"
| "and_then (Panic p) f = Panic p"

primrec is_ok :: "('a, 'e) result \<Rightarrow> bool" where
  "is_ok (Ok x) = True"
| "is_ok (Err e) = False"
| "is_ok (Panic p) = False"

lemma and_then_cong [fundef_cong]:
  "m = m' \<Longrightarrow> (\<And>x. m' = Ok x \<Longrightarrow> f x = f' x) \<Longrightarrow> and_then m f = and_then m' f'"
  by (cases m') auto

lemma and_then_eq_Ok: "and_then m f = Ok y \<longleftrightarrow> (\<exists>x. m = Ok x \<and> f x = Ok y)"
  by (cases m) auto

lemma and_then_eq_Err: "and_then m f = Err e \<longleftrightarrow> m = Err e \<or> (\<exists>x. m = Ok x \<and> f x = Err e)"
  by (cases m) auto

lemma and_then_eq_Panic: "and_then m f = Panic p \<longleftrightarrow> m = Panic p \<or> (\<exists>x. m = Ok x \<and> f x = Panic p)"
  by (cases m) auto

lemma and_then_assoc: "and_then (and_then m f) g = and_then m (\<lambda>x. and_then (f x) g)"
  by (cases m) auto

lemma and_then_Ok_right [simp]: "and_then m Ok = m"
  by (cases m) auto

lemma is_ok_iff: "is_ok m \<longleftrightarrow> (\<exists>x. m = Ok x)"
  by (cases m) auto

subsection \<open>Slices\<close>

text \<open>\<^verbatim>\<open>&buf[a..]\<close> and \<^verbatim>\<open>&buf[a..b]\<close>: a range outside the slice panics.\<close>

definition slice_from :: "u8 list \<Rightarrow> nat \<Rightarrow> (u8 list, 'e) result" where
  "slice_from buf a = (if a \<le> length buf then Ok (drop a buf) else Panic SliceIndexOutOfRange)"

definition slice :: "u8 list \<Rightarrow> nat \<Rightarrow> nat \<Rightarrow> (u8 list, 'e) result" where
  "slice buf a b =
     (if a \<le> b \<and> b \<le> length buf then Ok (take (b - a) (drop a buf))
      else Panic SliceIndexOutOfRange)"

lemma slice_from_append [simp]: "slice_from (pre @ rest) (length pre) = Ok rest"
  by (simp add: slice_from_def)

lemma slice_append [simp]:
  "length bs = n \<Longrightarrow> slice (pre @ bs @ rest) (length pre) (length pre + n) = Ok bs"
  by (auto simp: slice_def)

lemma take_between:
  "a \<le> b \<Longrightarrow> b \<le> c \<Longrightarrow> take (c - a) (drop a xs) = take (b - a) (drop a xs) @ take (c - b) (drop b xs)"
  using take_add [of "b - a" "c - b" "drop a xs"] by simp

lemma drop_between: "a \<le> b \<Longrightarrow> drop a xs = drop a (take b xs) @ drop b xs"
  by (metis append_take_drop_id diff_add drop_drop drop_take)

lemma append_split_le:
  assumes "us @ vs = xs @ ys" and "length us \<le> length xs"
  shows "xs = us @ drop (length us) xs" and "vs = drop (length us) xs @ ys"
  using assms by (auto simp: append_eq_append_conv2)

lemma slice_eq_Ok: "slice buf a b = Ok x \<longleftrightarrow> a \<le> b \<and> b \<le> length buf \<and> x = take (b - a) (drop a buf)"
  by (auto simp: slice_def)

subsection \<open>Writing at an offset\<close>

type_synonym cursor = "u8 list \<times> nat"
type_synonym 'e writer = "cursor \<Rightarrow> (cursor, 'e) result"

text \<open>\<^verbatim>\<open>buf[offset..offset + bs.len()].copy_from_slice(bs); offset += bs.len();\<close>\<close>

fun put_slice :: "u8 list \<Rightarrow> 'e writer" where
  "put_slice bs (buf, off) =
     (if off + length bs \<le> length buf
      then Ok (take off buf @ bs @ drop (off + length bs) buf, off + length bs)
      else Panic SliceIndexOutOfRange)"

primrec wr_run :: "'e writer list \<Rightarrow> 'e writer" where
  "wr_run [] c = Ok c"
| "wr_run (w # ws) c = and_then (w c) (wr_run ws)"

definition wr_each :: "('a \<Rightarrow> 'e writer) \<Rightarrow> 'a list \<Rightarrow> 'e writer" where
  "wr_each w xs = wr_run (map w xs)"

definition writes :: "'e writer \<Rightarrow> u8 list \<Rightarrow> bool" where
  "writes w bs \<longleftrightarrow>
     (\<forall>buf off. off + length bs \<le> length buf \<longrightarrow>
        w (buf, off) = Ok (take off buf @ bs @ drop (off + length bs) buf, off + length bs))"

lemma writesI:
  "(\<And>buf off. off + length bs \<le> length buf \<Longrightarrow>
      w (buf, off) = Ok (take off buf @ bs @ drop (off + length bs) buf, off + length bs))
   \<Longrightarrow> writes w bs"
  by (simp add: writes_def)

lemma writesD:
  "writes w bs \<Longrightarrow> off + length bs \<le> length buf \<Longrightarrow>
     w (buf, off) = Ok (take off buf @ bs @ drop (off + length bs) buf, off + length bs)"
  by (simp add: writes_def)

lemma writes_put_slice [writes_intros]: "writes (put_slice bs) bs"
  by (simp add: writes_def)

lemma writes_run_Nil [writes_intros]: "writes (wr_run []) []"
  by (simp add: writes_def)

lemma writes_run_Cons [writes_intros]:
  assumes "writes w b1" and "writes (wr_run ws) b2"
  shows "writes (wr_run (w # ws)) (b1 @ b2)"
proof (rule writesI)
  fix buf :: "u8 list" and off :: nat
  assume le: "off + length (b1 @ b2) \<le> length buf"
  let ?buf1 = "take off buf @ b1 @ drop (off + length b1) buf"
  have 1: "w (buf, off) = Ok (?buf1, off + length b1)"
    using le by (intro writesD [OF assms(1)]) simp
  have 2: "wr_run ws (?buf1, off + length b1) =
      Ok (take (off + length b1) ?buf1 @ b2 @ drop (off + length b1 + length b2) ?buf1,
          off + length b1 + length b2)"
    using le by (intro writesD [OF assms(2)]) simp
  show "wr_run (w # ws) (buf, off) =
      Ok (take off buf @ (b1 @ b2) @ drop (off + length (b1 @ b2)) buf, off + length (b1 @ b2))"
    using le 1 2 by (simp add: ac_simps)
qed

lemma writes_run_one: "writes w bs \<Longrightarrow> writes (wr_run [w]) bs"
  using writes_run_Cons [OF _ writes_run_Nil, of w bs] by simp

lemma wr_run_append [simp]: "wr_run (vs @ ws) c = and_then (wr_run vs c) (wr_run ws)"
proof (induction vs arbitrary: c)
  case (Cons v vs)
  have "and_then (v c) (wr_run (vs @ ws)) = and_then (v c) (\<lambda>c'. and_then (wr_run vs c') (wr_run ws))"
    by (rule and_then_cong) (simp_all only: Cons.IH)
  then show ?case by (simp only: append_Cons wr_run.simps and_then_assoc)
qed simp

lemma writes_each [writes_intros]:
  "(\<And>x. x \<in> set xs \<Longrightarrow> writes (w x) (f x)) \<Longrightarrow> writes (wr_each w xs) (concat (map f xs))"
proof (induction xs)
  case Nil
  show ?case by (simp add: wr_each_def writes_def)
next
  case (Cons x xs)
  then have "writes (wr_run (w x # map w xs)) (f x @ concat (map f xs))"
    by (intro writes_run_Cons) (auto simp: wr_each_def)
  then show ?case by (simp only: wr_each_def list.map concat.simps)
qed

lemma writes_whole:
  "writes w bs \<Longrightarrow> length buf = length bs \<Longrightarrow> w (buf, 0) = Ok (bs, length bs)"
  using writesD [of w bs 0 buf] by simp

subsection \<open>Reading at an offset\<close>

type_synonym ('a, 'e) reader = "u8 list \<Rightarrow> nat \<Rightarrow> ('a \<times> nat, 'e) result"

definition rd_return :: "'a \<Rightarrow> ('a, 'e) reader" where
  "rd_return x buf off = Ok (x, off)"

definition rd_fail :: "'e \<Rightarrow> ('a, 'e) reader" where
  "rd_fail e buf off = Err e"

definition rd_bind :: "('a, 'e) reader \<Rightarrow> ('a \<Rightarrow> ('b, 'e) reader) \<Rightarrow> ('b, 'e) reader" where
  "rd_bind p f buf off = and_then (p buf off) (\<lambda>(x, off'). f x buf off')"

text \<open>A check that returns early without moving the cursor: \<^verbatim>\<open>check(&x)?;\<close>.\<close>

definition rd_check :: "('a, 'e) result \<Rightarrow> ('a, 'e) reader" where
  "rd_check r buf off = and_then r (\<lambda>x. Ok (x, off))"

text \<open>\<^verbatim>\<open>&buf[offset..offset + n]; offset += n;\<close>\<close>

definition read_slice :: "nat \<Rightarrow> (u8 list, 'e) reader" where
  "read_slice n buf off = and_then (slice buf off (off + n)) (\<lambda>bs. Ok (bs, off + n))"

lemma rd_bind_cong [fundef_cong]:
  "p buf off = p' buf off \<Longrightarrow>
   (\<And>x off'. p' buf off = Ok (x, off') \<Longrightarrow> f x buf off' = f' x buf off') \<Longrightarrow>
   rd_bind p f buf off = rd_bind p' f' buf off"
  by (cases "p' buf off") (auto simp: rd_bind_def)

definition reads :: "('a, 'e) reader \<Rightarrow> u8 list \<Rightarrow> 'a \<Rightarrow> bool" where
  "reads p bs x \<longleftrightarrow>
     (\<forall>pre rest. p (pre @ bs @ rest) (length pre) = Ok (x, length pre + length bs))"

lemma readsI:
  "(\<And>pre rest. p (pre @ bs @ rest) (length pre) = Ok (x, length pre + length bs)) \<Longrightarrow> reads p bs x"
  by (simp add: reads_def)

lemma readsD:
  "reads p bs x \<Longrightarrow> p (pre @ bs @ rest) (length pre) = Ok (x, length pre + length bs)"
  by (simp add: reads_def)

lemma reads_return [reads_intros]: "reads (rd_return x) [] x"
  by (simp add: reads_def rd_return_def)

lemma reads_check [reads_intros]: "r = Ok x \<Longrightarrow> reads (rd_check r) [] x"
  by (simp add: reads_def rd_check_def)

lemma reads_bind:
  assumes "reads p b1 x" and "reads (f x) b2 y"
  shows "reads (rd_bind p f) (b1 @ b2) y"
proof (rule readsI)
  fix pre rest :: "u8 list"
  have 1: "p (pre @ b1 @ (b2 @ rest)) (length pre) = Ok (x, length pre + length b1)"
    by (rule readsD [OF assms(1)])
  have 2: "f x ((pre @ b1) @ b2 @ rest) (length (pre @ b1)) = Ok (y, length (pre @ b1) + length b2)"
    by (rule readsD [OF assms(2)])
  show "rd_bind p f (pre @ (b1 @ b2) @ rest) (length pre) = Ok (y, length pre + length (b1 @ b2))"
    using 1 2 by (simp add: rd_bind_def add.assoc)
qed

lemma reads_bind_pure: "reads p [] x \<Longrightarrow> reads (f x) bs y \<Longrightarrow> reads (rd_bind p f) bs y"
  using reads_bind [of p "[]" x f bs y] by simp

lemma reads_bind_last: "reads p bs x \<Longrightarrow> reads (f x) [] y \<Longrightarrow> reads (rd_bind p f) bs y"
  using reads_bind [of p bs x f "[]" y] by simp

lemma reads_slice: "length bs = n \<Longrightarrow> reads (read_slice n) bs bs"
  by (simp add: reads_def read_slice_def)

text \<open>The rules for a read followed by the rest of the code: the value read is known, so no unknown
  is left in the goals.\<close>

lemma reads_bind_slice [reads_intros]:
  "length bs = n \<Longrightarrow> reads (f bs) b2 y \<Longrightarrow> reads (rd_bind (read_slice n) f) (bs @ b2) y"
  by (rule reads_bind [OF reads_slice])

lemma reads_bind_check [reads_intros]:
  "r = Ok x \<Longrightarrow> reads (f x) bs y \<Longrightarrow> reads (rd_bind (rd_check r) f) bs y"
  by (rule reads_bind_pure) (rule reads_check)

lemma reads_snoc_Nil: "reads p (bs @ []) x \<Longrightarrow> reads p bs x"
  by simp

lemma reads_whole: "reads p bs x \<Longrightarrow> p (bs @ rest) 0 = Ok (x, length bs)"
  using readsD [of p bs x "[]" rest] by simp

lemma rd_bind_eq_Ok:
  "rd_bind p f buf off = Ok (y, off'') \<longleftrightarrow>
     (\<exists>x off'. p buf off = Ok (x, off') \<and> f x buf off' = Ok (y, off''))"
  by (auto simp: rd_bind_def and_then_eq_Ok split: prod.splits)

lemma rd_return_eq_Ok [simp]: "rd_return x buf off = Ok (y, off') \<longleftrightarrow> y = x \<and> off' = off"
  by (auto simp: rd_return_def)

lemma rd_check_eq_Ok: "rd_check r buf off = Ok (y, off') \<longleftrightarrow> r = Ok y \<and> off' = off"
  by (auto simp: rd_check_def and_then_eq_Ok)

lemma rd_fail_neq_Ok [simp]: "rd_fail e buf off \<noteq> Ok r"
  by (simp add: rd_fail_def)

lemma read_slice_eq_Ok:
  "read_slice n buf off = Ok (x, off') \<longleftrightarrow>
     off + n \<le> length buf \<and> x = take n (drop off buf) \<and> off' = off + n"
  by (auto simp: read_slice_def and_then_eq_Ok slice_eq_Ok)

subsection \<open>Bytes that a reader refuses\<close>

definition refuses :: "('a, 'e) reader \<Rightarrow> u8 list \<Rightarrow> bool" where
  "refuses p bs \<longleftrightarrow> (\<forall>pre rest r. p (pre @ bs @ rest) (length pre) \<noteq> Ok r)"

lemma refuses_bind: "reads p bs x \<Longrightarrow> refuses (f x) cs \<Longrightarrow> refuses (rd_bind p f) (bs @ cs)"
  unfolding refuses_def
proof (intro allI)
  fix pre rest r
  assume "reads p bs x" and no: "\<forall>pre rest r. f x (pre @ cs @ rest) (length pre) \<noteq> Ok r"
  then have "p (pre @ bs @ (cs @ rest)) (length pre) = Ok (x, length pre + length bs)" by (intro readsD)
  moreover have "f x ((pre @ bs) @ cs @ rest) (length (pre @ bs)) \<noteq> Ok r" using no by blast
  ultimately show "rd_bind p f (pre @ (bs @ cs) @ rest) (length pre) \<noteq> Ok r"
    by (cases r) (simp add: rd_bind_eq_Ok)
qed

lemma refuses_bind_first: "refuses p bs \<Longrightarrow> refuses (rd_bind p f) (bs @ cs)"
  unfolding refuses_def by (auto simp: rd_bind_eq_Ok)

lemma refuses_check: "(\<And>y. r \<noteq> Ok y) \<Longrightarrow> refuses (rd_check r) bs"
  by (auto simp: refuses_def rd_check_eq_Ok)

lemma refuses_whole: "refuses p bs \<Longrightarrow> p (bs @ rest) 0 \<noteq> Ok r"
  unfolding refuses_def by (metis append_Nil list.size(3))

subsection \<open>Lists\<close>

lemma length_concat_const:
  "(\<And>x. x \<in> set xs \<Longrightarrow> length (f x) = n) \<Longrightarrow> length (concat (map f xs)) = n * length xs"
  by (induction xs) auto

lemma filter_map_snd_notin:
  "k \<notin> fst ` set al \<Longrightarrow> filter (\<lambda>(k', v). k' \<noteq> k) al = al"
  by (induction al) auto

end
