(* ===== verification/Workspace_Errors.thy ===== *)
theory Workspace_Errors
  imports Rust_Prelude
begin

text \<open>
  The error values of the workspace. Every crate returns
  \<^verbatim>\<open>Box<dyn std::error::Error + Send + Sync>\<close>, so an error of any crate can travel through any
  other one; \<open>error\<close> has one constructor for each kind that the code raises, with the source's
  fields, and one for each standard-library or third-party error that the code passes on with
  \<^verbatim>\<open>?\<close> (invalid UTF-8, a failed conversion, a closed channel, a failed stream read or write, an error of the Noise
  library).
\<close>

text \<open>\<^verbatim>\<open>desert/src/error.rs\<close>: \<^verbatim>\<open>DesertErrorKind\<close>.\<close>

datatype desert_error_kind =
    DstInsufficient (dst_required: nat) (dst_provided: nat)
  | SrcInsufficient (src_required: nat) (src_provided: nat)
  | VarintSrcInsufficient
  | VarintDstInsufficient

text \<open>\<^verbatim>\<open>cable/src/error.rs\<close>: \<^verbatim>\<open>CableErrorKind\<close>. A \<^verbatim>\<open>String\<close> field is the list of its UTF-8 bytes.\<close>

datatype cable_error_kind =
    DstTooSmall (too_small_provided: nat) (too_small_required: nat)
  | MessageEmpty
  | MessageWriteUnrecognizedType u64
  | MessageHashResponseEnd
  | MessageDataResponseEnd
  | MessageHashRequestEnd
  | MessageCancelRequestEnd
  | MessageChannelTimeRangeRequestEnd
  | MessageChannelStateRequestEnd
  | MessageChannelListRequestEnd
  | NoneError "u8 list"
  | PostWriteUnrecognizedType u64
  | PostHashingFailed
  | ChannelLengthIncorrect "u8 list" nat
  | TextLengthIncorrect "u8 list" nat
  | TopicLengthIncorrect "u8 list" nat
  | UsernameLengthIncorrect "u8 list" nat

text \<open>\<^verbatim>\<open>length_prefixed_stream/src/error.rs\<close>: the two kinds its decoder raises itself; \<^verbatim>\<open>Source\<close> wraps
  the error of another crate and is that error in the model.\<close>

datatype decode_error_kind =
    UnexpectedEndVarint
  | UnexpectedEndMessage

text \<open>\<^verbatim>\<open>handshake/src/error.rs\<close>: \<^verbatim>\<open>HandshakeError\<close>.\<close>

datatype handshake_error =
    IncompatibleServerVersion (received: u8) (expected: u8)

datatype error =
    DesertError desert_error_kind
  | CableError cable_error_kind
  | DecodeError decode_error_kind
  | HandshakeError handshake_error
  | FromUtf8Error
  | TryFromSliceError
  | TryFromIntError
  | SendError
  | IoError
  | NoiseError

type_synonym 'a res = "('a, error) result"

text \<open>\<^verbatim>\<open>CableErrorKind::raise\<close>, \<^verbatim>\<open>DesertErrorKind::raise\<close> and \<^verbatim>\<open>DecodeErrorKind::raise\<close>: box the kind
  and return it as the error.\<close>

definition raise_cable :: "cable_error_kind \<Rightarrow> 'a res" where
  "raise_cable k = Err (CableError k)"

definition raise_desert :: "desert_error_kind \<Rightarrow> 'a res" where
  "raise_desert k = Err (DesertError k)"

definition raise_decode :: "decode_error_kind \<Rightarrow> 'a res" where
  "raise_decode k = Err (DecodeError k)"

lemmas raise_defs = raise_cable_def raise_desert_def raise_decode_def

end
