(* ===== verification/Desert_Varint.thy ===== *)
theory Desert_Varint
  imports Workspace_Errors
begin

text \<open>
  \<^verbatim>\<open>desert/src/varint.rs\<close>: the variable-length integers of the wire format. \<open>varint_length\<close>,
  \<open>varint_encode\<close> and \<open>varint_decode\<close> are the three functions of the file, with the loops of
  \<^verbatim>\<open>encode\<close> and \<^verbatim>\<open>decode\<close> as recursive functions over the same variables. \<open>varint_bytes\<close> is the
  reference encoding: seven bits for each byte, low bits first, the top bit set on every byte but
  the last. The theorems: \<open>varint_encode\<close> writes exactly the reference bytes, \<open>varint_length\<close> is their
  number, and \<open>varint_decode\<close> inverts them on the values below \<open>2 ^ 56\<close> (it reads at most eight
  bytes, so larger values come back truncated).
\<close>

subsection \<open>Words of seven bits\<close>

lemma unat_drop_bit_7: "unat (drop_bit 7 (v :: u64)) = unat v div 128"
  by (simp add: drop_bit_eq_div unat_div)

lemma drop_bit_7_less: "127 < (v :: u64) \<Longrightarrow> unat (drop_bit 7 v) < unat v"
  unfolding unat_drop_bit_7 word_less_nat_alt by simp

lemma unat_and_127: "unat ((b :: u8) AND 127) = unat b mod 128"
proof -
  have "(127 :: u8) = mask 7" by (simp add: mask_eq_exp_minus_1)
  then have "b AND 127 = take_bit 7 b" by (simp add: take_bit_eq_mask)
  then show ?thesis by (simp add: take_bit_eq_mod unat_mod)
qed

lemma unat_ucast_u8: "unat (ucast (v :: u64) :: u8) = unat v mod 256"
  by (simp add: unsigned_ucast_eq take_bit_eq_mod)

lemma unat_u8_less: "unat (b :: u8) < 256"
proof -
  have "unat b < 2 ^ LENGTH(8)" by (rule unsigned_less)
  then show ?thesis by simp
qed

lemma unat_u64_less: "unat (v :: u64) < 2 ^ 64"
proof -
  have "unat v < 2 ^ LENGTH(64)" by (rule unsigned_less)
  then show ?thesis by simp
qed

lemma unat_of_nat_u64: "n < 2 ^ 64 \<Longrightarrow> unat (of_nat n :: u64) = n"
  by (simp add: unat_of_nat)

lemma bit_nat_iff_exp_le:
  assumes "n < 2 ^ Suc k"
  shows "bit (n :: nat) k \<longleftrightarrow> 2 ^ k \<le> n"
proof (cases "2 ^ k \<le> n")
  case True
  with assms have "n div 2 ^ k = 1" by (intro div_nat_eqI) auto
  with True show ?thesis by (simp add: bit_iff_odd)
qed (simp add: bit_iff_odd)

lemma bit_iff_exp_le:
  assumes "n < 64" and "unat (v :: u64) < 2 ^ Suc n"
  shows "bit v n \<longleftrightarrow> 2 ^ n \<le> unat v"
  using assms bit_nat_iff_exp_le [of "unat v" n] by (simp add: bit_unsigned_iff)

lemma and_128_eq_0: "(b :: u8) AND 128 = 0 \<longleftrightarrow> unat b < 128"
proof -
  have "b AND 128 = 0 \<longleftrightarrow> \<not> bit b 7"
    using and_exp_eq_0_iff_not_bit [of b 7] by simp
  also have "bit b 7 = bit (unat b) 7"
    by (simp add: bit_unsigned_iff)
  also have "\<not> bit (unat b) 7 \<longleftrightarrow> unat b < 128"
    using unat_u8_less [of b] bit_nat_iff_exp_le [of "unat b" 7] by (simp add: not_le)
  finally show ?thesis .
qed

lemma or_128_and_127: "((b :: u8) OR 128) AND 127 = b AND 127"
  by (simp add: bit.conj_disj_distrib2)

lemma or_128_and_128: "((b :: u8) OR 128) AND 128 = 128"
  by (simp add: bit.conj_disj_distrib2)

lemma ucast_low_7: "(ucast ((ucast (v :: u64) :: u8) AND 127) :: u64) = take_bit 7 v"
proof (rule word_unat_eq_iff [THEN iffD2])
  have "unat (take_bit 7 v) = unat v mod 128"
    by (simp add: take_bit_eq_mod unat_mod)
  moreover have "unat (ucast ((ucast v :: u8) AND 127) :: u64) = unat v mod 128"
    by (simp add: unsigned_ucast_eq unat_and_127 unat_ucast_u8 take_bit_eq_mod mod_mod_cancel)
  ultimately show "unat (ucast ((ucast v :: u8) AND 127) :: u64) = unat (take_bit 7 v)" by simp
qed

lemma take_bit_u64_id:
  assumes "unat (v :: u64) < 2 ^ k" and "k \<le> n"
  shows "take_bit n v = v"
proof (rule word_unat_eq_iff [THEN iffD2])
  have "(2::nat) ^ k \<le> 2 ^ n" using assms(2) by (intro power_increasing) auto
  with assms(1) have "unat v < 2 ^ n" by linarith
  then show "unat (take_bit n v) = unat v"
    by (simp only: unsigned_take_bit_eq take_bit_nat_eq_self)
qed

lemma take_bit_7_plus:
  "take_bit (7 + n) (v :: u64) = take_bit 7 v + 128 * take_bit n (drop_bit 7 v)"
proof -
  let ?hi = "push_bit 7 (take_bit n (drop_bit 7 v))"
  have "take_bit 7 v + ?hi = take_bit 7 v OR ?hi"
    by (rule disjunctive_add) (auto simp: bit_simps)
  also have "\<dots> = take_bit (7 + n) v"
    by (rule bit_eqI) (auto simp: bit_simps)
  finally have "take_bit (7 + n) v = take_bit 7 v + ?hi" by simp
  then show ?thesis by (simp add: push_bit_eq_mult mult.commute)
qed

subsection \<open>The functions of the file\<close>

text \<open>\<^verbatim>\<open>u64::leading_zeros\<close> of the standard library: the zero bits above the highest one bit.\<close>

primrec zeros_below :: "nat \<Rightarrow> u64 \<Rightarrow> nat" where
  "zeros_below 0 v = 0"
| "zeros_below (Suc n) v = (if bit v n then 0 else Suc (zeros_below n v))"

definition leading_zeros :: "u64 \<Rightarrow> nat" where
  "leading_zeros v = zeros_below 64 v"

definition varint_length :: "u64 \<Rightarrow> nat" where
  "varint_length value =
     (let msb = 64 - leading_zeros value
      in (max msb 1 + 6) div 7)"

fun varint_decode_loop :: "nat \<Rightarrow> u8 list \<Rightarrow> u64 \<Rightarrow> u64 \<Rightarrow> nat \<Rightarrow> (nat \<times> u64) res" where
  "varint_decode_loop 0 buf value m offset = Ok (offset, value)"
| "varint_decode_loop (Suc i) buf value m offset =
     (if offset \<ge> length buf then raise_desert VarintSrcInsufficient
      else let byte = buf ! offset;
               value' = value + m * ucast (byte AND 127);
               m' = m * 128
           in if byte AND 128 = 0 then Ok (offset + 1, value')
              else varint_decode_loop i buf value' m' (offset + 1))"

definition varint_decode :: "u8 list \<Rightarrow> (nat \<times> u64) res" where
  "varint_decode buf = varint_decode_loop 8 buf 0 1 0"

function varint_encode_loop :: "u64 \<Rightarrow> nat \<Rightarrow> u8 list \<Rightarrow> (u8 list) res" where
  "varint_encode_loop v offset buf =
     (if v > 127 then
        if offset < length buf
        then varint_encode_loop (drop_bit 7 v) (offset + 1) (buf[offset := ucast v OR 128])
        else Panic SliceIndexOutOfRange
      else
        if offset < length buf then Ok (buf[offset := ucast v])
        else Panic SliceIndexOutOfRange)"
  by pat_completeness auto
termination
  by (relation "measure (\<lambda>(v, offset, buf). unat v)") (auto simp: drop_bit_7_less)

declare varint_encode_loop.simps [simp del]

definition varint_encode :: "u64 \<Rightarrow> u8 list \<Rightarrow> (u8 list \<times> nat) res" where
  "varint_encode value buf =
     (let len = varint_length value
      in if length buf < len then raise_desert VarintDstInsufficient
         else and_then (varint_encode_loop value 0 buf) (\<lambda>buf'. Ok (buf', len)))"

subsection \<open>The reference encoding\<close>

function varint_bytes :: "u64 \<Rightarrow> u8 list" where
  "varint_bytes v =
     (if v > 127 then (ucast v OR 128) # varint_bytes (drop_bit 7 v) else [ucast v])"
  by pat_completeness auto
termination
  by (relation "measure unat") (auto simp: drop_bit_7_less)

declare varint_bytes.simps [simp del]

lemma varint_bytes_small [simp]: "v \<le> 127 \<Longrightarrow> varint_bytes v = [ucast v]"
  by (subst varint_bytes.simps) (auto dest: leD)

lemma varint_bytes_big:
  "v > 127 \<Longrightarrow> varint_bytes v = (ucast v OR 128) # varint_bytes (drop_bit 7 v)"
  by (subst varint_bytes.simps) simp

lemma varint_bytes_nonempty [simp]: "varint_bytes v \<noteq> []"
  by (subst varint_bytes.simps) simp

lemma length_varint_bytes_pos [simp]: "0 < length (varint_bytes v)"
  by simp

subsection \<open>Length\<close>

lemma zeros_below_bounds:
  "n \<le> 64 \<Longrightarrow> unat v < 2 ^ n \<Longrightarrow> v \<noteq> 0 \<Longrightarrow>
     zeros_below n v < n \<and> 2 ^ (n - zeros_below n v - 1) \<le> unat v \<and> unat v < 2 ^ (n - zeros_below n v)"
proof (induction n)
  case 0
  then show ?case by (simp add: unat_eq_zero)
next
  case (Suc n)
  have bit: "bit v n \<longleftrightarrow> 2 ^ n \<le> unat v"
    using Suc.prems by (intro bit_iff_exp_le) auto
  show ?case
  proof (cases "bit v n")
    case True
    with Suc.prems bit show ?thesis by simp
  next
    case False
    with bit Suc show ?thesis by (auto simp: Suc_diff_le)
  qed
qed

lemma zeros_below_zero [simp]: "zeros_below n 0 = n"
  by (induction n) auto

definition bit_length :: "u64 \<Rightarrow> nat" where
  "bit_length v = 64 - leading_zeros v"

lemma bit_length_bounds:
  assumes "v \<noteq> 0"
  shows "0 < bit_length v" and "2 ^ (bit_length v - 1) \<le> unat v" and "unat v < 2 ^ bit_length v"
  using zeros_below_bounds [of 64 v] assms unat_u64_less [of v]
  by (auto simp: bit_length_def leading_zeros_def)

lemma bit_length_unique:
  assumes "0 < k" and "2 ^ (k - 1) \<le> unat v" and "unat v < 2 ^ k"
  shows "bit_length v = k"
proof -
  have "v \<noteq> 0"
  proof
    assume "v = 0"
    with assms(2) show False by simp
  qed
  note b = bit_length_bounds [OF this]
  have "(2::nat) ^ (bit_length v - 1) < 2 ^ k" and "(2::nat) ^ (k - 1) < 2 ^ bit_length v"
    using b assms by linarith+
  then have "bit_length v - 1 < k" and "k - 1 < bit_length v" by simp_all
  with b(1) assms(1) show ?thesis by linarith
qed

lemma bit_length_drop_7:
  assumes "127 < v"
  shows "7 < bit_length v" and "bit_length (drop_bit 7 v) = bit_length v - 7"
proof -
  from assms have v: "v \<noteq> 0" and ge: "128 \<le> unat v" by (auto simp: word_less_nat_alt)
  note b = bit_length_bounds [OF v]
  have "(2::nat) ^ 7 < 2 ^ bit_length v" using ge b(3) by simp
  then show lt: "7 < bit_length v" by (simp only: power_strict_increasing_iff)
  obtain k where k: "bit_length v = k + 8" using lt by (metis add.commute less_iff_Suc_add add_Suc_right numeral_eq_Suc pred_numeral_simps(2) semiring_norm(26) semiring_norm(27) semiring_norm(28))
  show "bit_length (drop_bit 7 v) = bit_length v - 7"
  proof (rule bit_length_unique)
    show "0 < bit_length v - 7" using lt by simp
    show "2 ^ (bit_length v - 7 - 1) \<le> unat (drop_bit 7 v)"
      using b(2) k by (simp add: unat_drop_bit_7 power_add)
    show "unat (drop_bit 7 v) < 2 ^ (bit_length v - 7)"
      using b(3) k by (simp add: unat_drop_bit_7 power_add)
  qed
qed

lemma varint_length_eq: "varint_length v = length (varint_bytes v)"
proof (induction v rule: varint_bytes.induct)
  case (1 v)
  show ?case
  proof (cases "127 < v")
    case True
    note d = bit_length_drop_7 [OF True]
    from True 1 have "varint_length (drop_bit 7 v) = length (varint_bytes (drop_bit 7 v))" by simp
    moreover have "varint_length v = Suc (varint_length (drop_bit 7 v))"
      using d by (simp add: varint_length_def Let_def max_def flip: bit_length_def) arith
    ultimately show ?thesis using True by (simp add: varint_bytes_big)
  next
    case False
    show ?thesis
    proof (cases "v = 0")
      case True
      then show ?thesis by (simp add: varint_length_def leading_zeros_def)
    next
      case v: False
      from False have "unat v < 2 ^ 7" by (simp add: word_less_nat_alt)
      with bit_length_bounds [OF v] have "(2::nat) ^ (bit_length v - 1) < 2 ^ 7" by linarith
      then have "bit_length v - 1 < 7" by (rule power_less_imp_less_exp [rotated]) simp
      then have "bit_length v \<le> 7" by simp
      with bit_length_bounds(1) [OF v] False show ?thesis
        by (simp add: varint_length_def Let_def max_def not_less flip: bit_length_def) arith
    qed
  qed
qed

lemma length_varint_bytes_le: "unat v < 2 ^ (7 * k) \<Longrightarrow> 0 < k \<Longrightarrow> length (varint_bytes v) \<le> k"
proof (induction v arbitrary: k rule: varint_bytes.induct)
  case (1 v)
  show ?case
  proof (cases "127 < v")
    case True
    then have "128 \<le> unat v" by (simp add: word_less_nat_alt)
    with "1.prems" obtain j where j: "k = Suc (Suc j)"
      by (cases k; cases "k - 1") auto
    with "1.prems"(1) have "unat v < 2 ^ (7 * Suc j) * 128" by (simp add: power_add)
    then have "unat (drop_bit 7 v) < 2 ^ (7 * Suc j)"
      unfolding unat_drop_bit_7 by (rule less_mult_imp_div_less)
    with "1.IH" [OF True, of "Suc j"] True j show ?thesis by (simp add: varint_bytes_big)
  next
    case False
    with "1.prems" show ?thesis by (simp add: not_less Suc_leI)
  qed
qed

subsection \<open>Encoding\<close>

lemma varint_encode_loop_small:
  "v \<le> 127 \<Longrightarrow> varint_encode_loop v offset buf =
     (if offset < length buf then Ok (buf[offset := ucast v]) else Panic SliceIndexOutOfRange)"
  by (subst varint_encode_loop.simps) (auto dest: leD)

lemma varint_encode_loop_eq:
  "offset + length (varint_bytes v) \<le> length buf \<Longrightarrow>
     varint_encode_loop v offset buf =
       Ok (take offset buf @ varint_bytes v @ drop (offset + length (varint_bytes v)) buf)"
proof (induction v offset buf rule: varint_encode_loop.induct)
  case (1 v offset buf)
  let ?b = "ucast v OR 128 :: u8"
  show ?case
  proof (cases "127 < v")
    case True
    with "1.prems" have lt: "offset < length buf" by (simp add: varint_bytes_big)
    from True lt "1.prems" have "varint_encode_loop (drop_bit 7 v) (offset + 1) (buf[offset := ?b]) =
        Ok (take (offset + 1) (buf[offset := ?b]) @ varint_bytes (drop_bit 7 v) @
            drop (offset + 1 + length (varint_bytes (drop_bit 7 v))) (buf[offset := ?b]))"
      by (intro "1.IH") (simp_all add: varint_bytes_big)
    with True lt show ?thesis
      by (simp add: varint_encode_loop.simps [of v] varint_bytes_big take_Suc_conv_app_nth take_update_cancel)
  next
    case False
    with "1.prems" show ?thesis
      by (simp add: varint_encode_loop_small not_less upd_conv_take_nth_drop)
  qed
qed

lemma varint_encode_eq:
  "varint_encode v buf =
     (if length buf < length (varint_bytes v) then raise_desert VarintDstInsufficient
      else Ok (varint_bytes v @ drop (length (varint_bytes v)) buf, length (varint_bytes v)))"
  using varint_encode_loop_eq [of 0 v buf]
  by (simp add: varint_encode_def varint_length_eq Let_def)

subsection \<open>Decoding\<close>

lemma varint_decode_loop_bytes:
  "varint_decode_loop i (pre @ varint_bytes v @ rest) val m (length pre) =
     Ok (length pre + min i (length (varint_bytes v)), val + m * take_bit (7 * i) v)"
proof (induction i arbitrary: pre v val m)
  case 0
  then show ?case by simp
next
  case (Suc i)
  show ?case
  proof (cases "127 < v")
    case True
    let ?b = "ucast v OR 128 :: u8" and ?pre = "pre @ [ucast v OR 128]"
    have "varint_decode_loop (Suc i) (pre @ varint_bytes v @ rest) val m (length pre) =
        varint_decode_loop i (?pre @ varint_bytes (drop_bit 7 v) @ rest)
          (val + m * take_bit 7 v) (m * 128) (length ?pre)"
      using True
      by (simp add: varint_bytes_big nth_append or_128_and_127 or_128_and_128 ucast_low_7)
    also have "\<dots> = Ok (length ?pre + min i (length (varint_bytes (drop_bit 7 v))),
        val + m * take_bit 7 v + m * 128 * take_bit (7 * i) (drop_bit 7 v))"
      by (rule Suc.IH)
    finally show ?thesis
      using True take_bit_7_plus [of "7 * i" v] by (simp add: varint_bytes_big algebra_simps)
  next
    case False
    then have "v \<le> 127" by simp
    then have lt: "unat v < 128" by (simp add: word_le_nat_alt)
    then have "(ucast v :: u8) AND 128 = 0" by (simp add: and_128_eq_0 unat_ucast_u8)
    moreover have "take_bit 7 v = v" and "take_bit (7 + 7 * i) v = v"
      using lt by (auto intro!: take_bit_u64_id [where k = 7])
    ultimately show ?thesis
      using \<open>v \<le> 127\<close> by (simp add: ucast_low_7)
  qed
qed

lemma varint_decode_bytes:
  "varint_decode (varint_bytes v @ rest) = Ok (min 8 (length (varint_bytes v)), take_bit 56 v)"
  using varint_decode_loop_bytes [of 8 "[]" v rest 0 1] by (simp add: varint_decode_def)

text \<open>
  The accumulator of the loop never wraps: after \<open>k\<close> bytes the value is below \<open>2 ^ (7 * k)\<close> and the
  multiplier is \<open>2 ^ (7 * k)\<close>, with \<open>k \<le> 8\<close>. So a build with overflow checks and one without agree.
\<close>

lemma varint_accumulate:
  assumes "unat (val :: u64) < 2 ^ k" and "k + 7 \<le> 64"
  shows "unat (val + 2 ^ k * ucast ((b :: u8) AND 127)) = unat val + 2 ^ k * (unat b mod 128)"
    and "unat (val + 2 ^ k * ucast ((b :: u8) AND 127)) < 2 ^ (k + 7)"
proof -
  have k: "(2::nat) ^ k * 128 = 2 ^ (k + 7)" by (simp add: power_add)
  have "unat b mod 128 \<le> 127" by simp
  then have "2 ^ k * (unat b mod 128) \<le> 2 ^ k * 127" by (rule mult_le_mono2)
  with assms(1) k have lt: "unat val + 2 ^ k * (unat b mod 128) < 2 ^ (k + 7)" by linarith
  have "(2::nat) ^ (k + 7) \<le> 2 ^ 64" using assms(2) by (intro power_increasing) auto
  with lt have lt64: "unat val + 2 ^ k * (unat b mod 128) < 2 ^ 64" by linarith
  have "(ucast (b AND 127) :: u64) = of_nat (unat b mod 128)"
    by (metis of_nat_unat unat_and_127)
  then have "val + 2 ^ k * ucast (b AND 127) = (of_nat (unat val + 2 ^ k * (unat b mod 128)) :: u64)"
    by simp
  then show eq: "unat (val + 2 ^ k * ucast (b AND 127)) = unat val + 2 ^ k * (unat b mod 128)"
    using lt64 by (simp only: unat_of_nat_u64)
  with lt show "unat (val + 2 ^ k * ucast (b AND 127)) < 2 ^ (k + 7)" by simp
qed

lemma varint_decode_loop_offset:
  "varint_decode_loop i buf val m off = Ok (s, v) \<Longrightarrow> off \<le> s \<and> (0 < i \<longrightarrow> off < s)"
proof (induction i arbitrary: val m off)
  case (Suc i)
  then show ?case by (fastforce simp: Let_def raise_defs split: if_splits)
qed simp

lemma varint_decode_loop_bounds:
  assumes "varint_decode_loop i buf val (2 ^ (7 * j)) off = Ok (s, v)"
    and "unat val < 2 ^ (7 * j)" and "i + j \<le> 9" and "off \<le> length buf"
  shows "off \<le> s \<and> s \<le> off + i \<and> s \<le> length buf \<and> (0 < i \<longrightarrow> off < s) \<and> unat v < 2 ^ (7 * (j + (s - off)))"
  using assms
proof (induction i arbitrary: val j off)
  case 0
  then show ?case by simp
next
  case (Suc i)
  let ?val = "val + 2 ^ (7 * j) * ucast ((buf ! off) AND 127)"
  from Suc.prems(1) have lt: "off < length buf" by (auto simp: raise_defs split: if_splits)
  have acc: "unat ?val < 2 ^ (7 * Suc j)"
    using varint_accumulate(2) [of val "7 * j" "buf ! off"] Suc.prems(2,3) by (simp add: add.commute)
  have m: "(2::u64) ^ (7 * j) * 128 = 2 ^ (7 * Suc j)" by (simp add: power_add)
  show ?case
  proof (cases "buf ! off AND 128 = 0")
    case True
    with Suc.prems(1) lt have "s = off + 1" and "v = ?val" by (auto simp: Let_def)
    with acc lt show ?thesis by simp
  next
    case False
    with Suc.prems(1) lt have "varint_decode_loop i buf ?val (2 ^ (7 * Suc j)) (off + 1) = Ok (s, v)"
      by (simp add: Let_def m)
    from Suc.IH [OF this acc] Suc.prems(3) lt
    have "off + 1 \<le> s \<and> s \<le> off + 1 + i \<and> s \<le> length buf \<and> unat v < 2 ^ (7 * (Suc j + (s - (off + 1))))"
      by (simp only: Suc_leI)
    moreover from this have "Suc j + (s - (off + 1)) = j + (s - off)" by linarith
    ultimately have r: "off < s \<and> s \<le> off + 1 + i \<and> s \<le> length buf \<and> unat v < 2 ^ (7 * (j + (s - off)))"
      by (metis Suc_eq_plus1 Suc_le_lessD)
    then have "off \<le> s \<and> s \<le> off + Suc i" by simp
    with r show ?thesis by blast
  qed
qed

lemma varint_decode_bounds:
  assumes "varint_decode buf = Ok (s, v)"
  shows "0 < s" and "s \<le> 8" and "s \<le> length buf" and "unat v < 2 ^ (7 * s)" and "unat v < 2 ^ 56"
proof -
  have *: "0 \<le> s \<and> s \<le> 0 + 8 \<and> s \<le> length buf \<and> (0 < (8::nat) \<longrightarrow> 0 < s) \<and> unat v < 2 ^ (7 * (0 + (s - 0)))"
    by (rule varint_decode_loop_bounds [of 8 buf 0 0 0])
      (use assms in \<open>simp_all add: varint_decode_def\<close>)
  then show "0 < s" and s8: "s \<le> 8" and "s \<le> length buf" and lt: "unat v < 2 ^ (7 * s)" by auto
  have "(2::nat) ^ (7 * s) \<le> 2 ^ 56" using s8 by (intro power_increasing) auto
  with lt show "unat v < 2 ^ 56" by linarith
qed

text \<open>The decoder looks at no byte behind the ones it consumes.\<close>

lemma varint_decode_loop_local:
  "varint_decode_loop i buf val m off = Ok (s, v) \<Longrightarrow> s \<le> n \<Longrightarrow> take n buf = take n buf' \<Longrightarrow>
     s \<le> length buf' \<Longrightarrow> varint_decode_loop i buf' val m off = Ok (s, v)"
proof (induction i arbitrary: val m off)
  case 0
  then show ?case by simp
next
  case (Suc i)
  from Suc.prems(1) have lt: "off < length buf" by (auto simp: raise_defs split: if_splits)
  have off: "off < s" using varint_decode_loop_offset [OF Suc.prems(1)] by simp
  with Suc.prems have "off < n" and lt': "off < length buf'" by auto
  then have "buf ! off = buf' ! off"
    using Suc.prems(3) by (metis nth_take)
  with Suc lt lt' show ?case by (auto simp: Let_def split: if_splits)
qed

lemma varint_decode_local:
  assumes "varint_decode buf = Ok (s, v)" and "take s buf' = take s buf" and "s \<le> length buf'"
  shows "varint_decode buf' = Ok (s, v)"
  using varint_decode_loop_local [of 8 buf 0 1 0 s v s buf'] assms by (simp add: varint_decode_def)

lemma varint_decode_append: "varint_decode buf = Ok r \<Longrightarrow> varint_decode (buf @ rest) = Ok r"
  using varint_decode_local [of buf "fst r" "snd r" "buf @ rest"] varint_decode_bounds(3) [of buf "fst r" "snd r"]
  by simp

lemma varint_decode_no_panic: "varint_decode buf \<noteq> Panic p"
proof -
  have "varint_decode_loop i buf val m off \<noteq> Panic p" for i val m off
    by (induction i arbitrary: val m off) (auto simp: Let_def raise_defs)
  then show ?thesis by (simp add: varint_decode_def)
qed

lemma varint_decode_Nil [simp]: "varint_decode [] = raise_desert VarintSrcInsufficient"
  by (simp add: varint_decode_def numeral_eq_Suc)

lemma varint_decode_bytes_56:
  "unat v < 2 ^ 56 \<Longrightarrow> varint_decode (varint_bytes v @ rest) = Ok (length (varint_bytes v), v)"
  using varint_decode_bytes [of v rest] length_varint_bytes_le [of v 8] take_bit_u64_id [of v 56 56]
  by simp

subsection \<open>Varints at a cursor\<close>

text \<open>\<^verbatim>\<open>offset += varint::encode(v, &mut buf[offset..])?;\<close>\<close>

fun put_varint :: "u64 \<Rightarrow> error writer" where
  "put_varint v (buf, off) =
     and_then (slice_from buf off) (\<lambda>tail.
     and_then (varint_encode v tail) (\<lambda>(tail', n).
     Ok (take off buf @ tail', off + n)))"

text \<open>\<^verbatim>\<open>let (s, v) = varint::decode(&buf[offset..])?; offset += s;\<close>\<close>

definition read_varint :: "(u64, error) reader" where
  "read_varint buf off =
     and_then (slice_from buf off) (\<lambda>tail.
     and_then (varint_decode tail) (\<lambda>(s, v). Ok (v, off + s)))"

lemma writes_put_varint [writes_intros]: "writes (put_varint v) (varint_bytes v)"
  by (rule writesI) (auto simp: slice_from_def varint_encode_eq add.commute)

lemma reads_varint: "unat v < 2 ^ 56 \<Longrightarrow> reads read_varint (varint_bytes v) v"
  by (simp add: reads_def read_varint_def varint_decode_bytes_56)

lemma reads_bind_varint [reads_intros]:
  "unat v < 2 ^ 56 \<Longrightarrow> reads (f v) b2 y \<Longrightarrow> reads (rd_bind read_varint f) (varint_bytes v @ b2) y"
  by (rule reads_bind [OF reads_varint])

lemma read_varint_eq_Ok:
  "read_varint buf off = Ok (v, off') \<longleftrightarrow>
     off \<le> length buf \<and> off \<le> off' \<and> varint_decode (drop off buf) = Ok (off' - off, v)"
  by (auto simp: read_varint_def and_then_eq_Ok slice_from_def)

lemma read_varint_progress:
  "read_varint buf off = Ok (v, off') \<Longrightarrow> off < off' \<and> off' \<le> length buf \<and> unat v < 2 ^ 56"
  using varint_decode_bounds [of "drop off buf" "off' - off" v] by (auto simp: read_varint_eq_Ok)

subsection \<open>Properties\<close>

text \<open>C19. A varint round trip for every \<^verbatim>\<open>u64\<close> and every destination: \<^verbatim>\<open>encode\<close> fails exactly when the destination
  is shorter than \<^verbatim>\<open>length\<close>; otherwise it writes \<^verbatim>\<open>length\<close> bytes, keeps the rest of the destination, and
  \<^verbatim>\<open>decode\<close> returns the low 56 bits of the value after at most eight bytes, so the value itself exactly
  when it is below \<open>2 ^ 56\<close>.\<close>

theorem varint_encode_decode:
  "(length dst < varint_length v \<longrightarrow> varint_encode v dst = raise_desert VarintDstInsufficient) \<and>
   (varint_length v \<le> length dst \<longrightarrow>
      (\<exists>bs. length bs = varint_length v \<and>
         varint_encode v dst = Ok (bs @ drop (varint_length v) dst, varint_length v) \<and>
         (\<forall>rest. varint_decode (bs @ rest) = Ok (min 8 (varint_length v), take_bit 56 v)) \<and>
         (take_bit 56 v = v \<longleftrightarrow> unat v < 2 ^ 56)))"
proof -
  have "take_bit 56 v = v \<longleftrightarrow> unat v < 2 ^ 56"
    by (metis take_bit_u64_id order_refl take_bit_nat_less_exp unsigned_take_bit_eq)
  then show ?thesis
    by (auto simp: varint_encode_eq varint_length_eq varint_decode_bytes)
qed

theorem varint_encode_decode_witness:
  "varint_encode 300 [7] = raise_desert VarintDstInsufficient \<and>
   (\<exists>bs. length bs = 2 \<and> varint_encode 300 [0, 0, 9] = Ok (bs @ [9], 2) \<and>
      varint_decode (bs @ [5]) = Ok (2, take_bit 56 300))"
proof -
  have "varint_length (300 :: u64) = 2" by (simp add: varint_length_eq varint_bytes.simps)
  then show ?thesis
    using varint_encode_decode [of "[0, 0, 9]" 300] varint_encode_decode [of "[7]" 300] by auto
qed

text \<open>C27. \<^verbatim>\<open>decode\<close> is total and safe on arbitrary bytes: it never panics, its only error is that the source
  is too short, it consumes between one and eight bytes of the source, the value fits in seven bits per
  consumed byte (so no arithmetic of the loop overflows), and bytes behind the consumed ones do not
  matter.\<close>

theorem varint_decode_safe:
  "case varint_decode buf of
     Ok (s, v) \<Rightarrow> 0 < s \<and> s \<le> 8 \<and> s \<le> length buf \<and> unat v < 2 ^ (7 * s) \<and>
       (\<forall>rest. varint_decode (take s buf @ rest) = Ok (s, v))
   | Err e \<Rightarrow> e = DesertError VarintSrcInsufficient \<and> length buf < 8
   | Panic p \<Rightarrow> False"
proof (cases "varint_decode buf")
  case (Ok r)
  obtain s v where r: "r = (s, v)" by (cases r)
  note b = varint_decode_bounds [OF Ok [unfolded r]]
  have "varint_decode (take s buf @ rest) = Ok (s, v)" for rest
    by (rule varint_decode_local [OF Ok [unfolded r]]) (use b(3) in simp_all)
  with Ok r b show ?thesis by simp
next
  case (Err e)
  have "varint_decode_loop i buf val m off = Err e \<Longrightarrow> e = DesertError VarintSrcInsufficient \<and> length buf < off + i"
    for i val m off
    by (induction i arbitrary: val m off) (fastforce simp: Let_def raise_defs split: if_splits)+
  from this [of 8 0 1 0] Err show ?thesis by (auto simp: varint_decode_def)
next
  case (Panic p)
  then show ?thesis using varint_decode_no_panic by blast
qed

end
