(* ===== verification/Rust_Utf8.thy ===== *)
theory Rust_Utf8
  imports Workspace_Errors
begin

text \<open>
  What the workspace uses of \<^verbatim>\<open>String\<close>. A Rust string is a sequence of bytes that is valid UTF-8,
  and the code looks at it in four ways: \<^verbatim>\<open>String::from_utf8(bytes)?\<close>, \<^verbatim>\<open>s.as_bytes()\<close>, \<^verbatim>\<open>s.len()\<close>
  (bytes) and \<^verbatim>\<open>s.chars().count()\<close> (code points). The model keeps the bytes: a \<open>rstring\<close> is a
  byte list, \<open>utf8_chars\<close> gives the number of code points of a valid one and \<open>None\<close> for an invalid
  one (the table of well-formed byte sequences of the Unicode standard, which is the one the standard
  library checks: no overlong forms, no surrogates, nothing above U+10FFFF).
\<close>

type_synonym rstring = "u8 list"

definition utf8_cont :: "u8 \<Rightarrow> bool" where
  "utf8_cont b \<longleftrightarrow> 128 \<le> b \<and> b \<le> 191"

fun utf8_chars :: "u8 list \<Rightarrow> nat option" where
  "utf8_chars [] = Some 0"
| "utf8_chars (a # bs) =
     (if a < 128 then map_option Suc (utf8_chars bs)
      else case bs of
        [] \<Rightarrow> None
      | b # cs \<Rightarrow>
          if 194 \<le> a \<and> a \<le> 223 then
            if utf8_cont b then map_option Suc (utf8_chars cs) else None
          else case cs of
            [] \<Rightarrow> None
          | c # ds \<Rightarrow>
              if 224 \<le> a \<and> a \<le> 239 then
                if (if a = 224 then 160 else 128) \<le> b \<and> b \<le> (if a = 237 then 159 else 191) \<and> utf8_cont c
                then map_option Suc (utf8_chars ds) else None
              else case ds of
                [] \<Rightarrow> None
              | d # es \<Rightarrow>
                  if 240 \<le> a \<and> a \<le> 244 \<and> (if a = 240 then 144 else 128) \<le> b \<and>
                     b \<le> (if a = 244 then 143 else 191) \<and> utf8_cont c \<and> utf8_cont d
                  then map_option Suc (utf8_chars es) else None)"

definition utf8_valid :: "u8 list \<Rightarrow> bool" where
  "utf8_valid bs \<longleftrightarrow> utf8_chars bs \<noteq> None"

text \<open>\<^verbatim>\<open>s.chars().count()\<close>, of a valid string.\<close>

definition chars_count :: "rstring \<Rightarrow> nat" where
  "chars_count s = (case utf8_chars s of None \<Rightarrow> 0 | Some n \<Rightarrow> n)"

definition string_from_utf8 :: "u8 list \<Rightarrow> rstring res" where
  "string_from_utf8 bs = (if utf8_valid bs then Ok bs else Err FromUtf8Error)"

lemma string_from_utf8_eq_Ok: "string_from_utf8 bs = Ok s \<longleftrightarrow> utf8_valid bs \<and> s = bs"
  by (auto simp: string_from_utf8_def)

lemma string_from_utf8_valid [simp]: "utf8_valid bs \<Longrightarrow> string_from_utf8 bs = Ok bs"
  by (simp add: string_from_utf8_def)

lemma utf8_valid_Nil [simp]: "utf8_valid []"
  by (simp add: utf8_valid_def)

text \<open>A code point takes one to four bytes, so the two measures of a string bound each other.\<close>

lemma utf8_chars_step:
  assumes "utf8_chars (a # bs) = Some n"
  obtains m ys where "n = Suc m" and "utf8_chars ys = Some m" and "length ys \<le> length bs" and "length bs \<le> length ys + 3"
proof -
  have suc: "(\<exists>m. n = Suc m \<and> utf8_chars ys = Some m)" if "(if P then map_option Suc (utf8_chars ys) else None) = Some n" for P ys
    using that by (cases P) auto
  show thesis
  proof (cases "a < 128")
    case True
    with assms have "\<exists>m. n = Suc m \<and> utf8_chars bs = Some m" by auto
    then show thesis using that [of _ bs] by auto
  next
    case False
    then obtain b cs where bs: "bs = b # cs" using assms by (cases bs) simp_all
    show thesis
    proof (cases "194 \<le> a \<and> a \<le> 223")
      case True
      from assms have "\<exists>m. n = Suc m \<and> utf8_chars cs = Some m"
        by (simp only: bs utf8_chars.simps list.case False True if_True if_False simp_thms suc)
      then show thesis using that [of _ cs] by (auto simp: bs)
    next
      case F2: False
      then obtain c ds where cs: "cs = c # ds" using assms False by (cases cs) (simp_all only: bs utf8_chars.simps list.case if_False option.simps)
      show thesis
      proof (cases "224 \<le> a \<and> a \<le> 239")
        case True
        from assms have "\<exists>m. n = Suc m \<and> utf8_chars ds = Some m"
          by (simp only: bs cs utf8_chars.simps list.case False F2 True if_True if_False simp_thms suc)
        then show thesis using that [of _ ds] by (auto simp: bs cs)
      next
        case F3: False
        then obtain d es where ds: "ds = d # es" using assms False F2
          by (cases ds) (simp_all only: bs cs utf8_chars.simps list.case if_False option.simps)
        from assms have "\<exists>m. n = Suc m \<and> utf8_chars es = Some m"
          by (simp only: bs cs ds utf8_chars.simps list.case False F2 F3 if_False simp_thms suc)
        then show thesis using that [of _ es] by (auto simp: bs cs ds)
      qed
    qed
  qed
qed

lemma utf8_chars_bounds: "utf8_chars bs = Some n \<Longrightarrow> n \<le> length bs \<and> length bs \<le> 4 * n"
proof (induction "length bs" arbitrary: bs n rule: less_induct)
  case less
  show ?case
  proof (cases bs)
    case (Cons a bs')
    with less.prems obtain m ys where "n = Suc m" "utf8_chars ys = Some m" "length ys \<le> length bs'" "length bs' \<le> length ys + 3"
      using utf8_chars_step [of a bs' n] by blast
    with less.hyps [of ys m] Cons show ?thesis by simp
  qed (use less.prems in simp)
qed

lemma chars_count_le_length: "chars_count s \<le> length s"
  using utf8_chars_bounds by (auto simp: chars_count_def split: option.split)

lemma length_le_chars_count: "utf8_valid s \<Longrightarrow> length s \<le> 4 * chars_count s"
  using utf8_chars_bounds by (auto simp: chars_count_def utf8_valid_def)

lemma chars_count_0_iff: "utf8_valid s \<Longrightarrow> chars_count s = 0 \<longleftrightarrow> s = []"
  using length_le_chars_count [of s] chars_count_le_length [of s] by fastforce

text \<open>ASCII bytes count one for one.\<close>

lemma utf8_chars_ascii: "(\<And>b. b \<in> set bs \<Longrightarrow> b < 128) \<Longrightarrow> utf8_chars bs = Some (length bs)"
  by (induction bs) auto

end
