(* ===== verification/Cable_Types.thy ===== *)
theory Cable_Types
  imports Desert_Varint Rust_Utf8
begin

text \<open>
  \<^verbatim>\<open>cable/src/lib.rs\<close>, \<^verbatim>\<open>cable/src/constants.rs\<close> and \<^verbatim>\<open>cable/src/validation.rs\<close>: the type names of the
  protocol, the numeric type identifiers, the query options and user information records, and the
  length checks that the decoders and the manager share. A fixed-size array \<^verbatim>\<open>[u8; n]\<close> is a byte list
  of length \<open>n\<close>; the well-formedness predicates of the components state the length.
\<close>

subsection \<open>Type names\<close>

type_synonym channel = rstring
type_synonym circuit_id = "u8 list"
type_synonym hash = "u8 list"
type_synonym payload = "u8 list"
type_synonym req_id = "u8 list"
type_synonym post_text = rstring
type_synonym timestamp = u64
type_synonym topic = rstring
type_synonym nickname = rstring
type_synonym public_key = "u8 list"

subsection \<open>Constants\<close>

definition TEXT_POST :: u64 where "TEXT_POST = 0"
definition DELETE_POST :: u64 where "DELETE_POST = 1"
definition INFO_POST :: u64 where "INFO_POST = 2"
definition TOPIC_POST :: u64 where "TOPIC_POST = 3"
definition JOIN_POST :: u64 where "JOIN_POST = 4"
definition LEAVE_POST :: u64 where "LEAVE_POST = 5"

definition HASH_RESPONSE :: u64 where "HASH_RESPONSE = 0"
definition POST_RESPONSE :: u64 where "POST_RESPONSE = 1"
definition CHANNEL_LIST_RESPONSE :: u64 where "CHANNEL_LIST_RESPONSE = 7"

definition POST_REQUEST :: u64 where "POST_REQUEST = 2"
definition CANCEL_REQUEST :: u64 where "CANCEL_REQUEST = 3"
definition CHANNEL_TIME_RANGE_REQUEST :: u64 where "CHANNEL_TIME_RANGE_REQUEST = 4"
definition CHANNEL_STATE_REQUEST :: u64 where "CHANNEL_STATE_REQUEST = 5"
definition CHANNEL_LIST_REQUEST :: u64 where "CHANNEL_LIST_REQUEST = 6"

definition NO_CIRCUIT :: circuit_id where "NO_CIRCUIT = [0, 0, 0, 0]"

lemmas post_type_defs =
  TEXT_POST_def DELETE_POST_def INFO_POST_def TOPIC_POST_def JOIN_POST_def LEAVE_POST_def

lemmas msg_type_defs =
  HASH_RESPONSE_def POST_RESPONSE_def CHANNEL_LIST_RESPONSE_def POST_REQUEST_def
  CANCEL_REQUEST_def CHANNEL_TIME_RANGE_REQUEST_def CHANNEL_STATE_REQUEST_def
  CHANNEL_LIST_REQUEST_def

subsection \<open>Channel options and user information\<close>

record channel_options =
  opt_channel :: channel
  opt_time_start :: timestamp
  opt_time_end :: timestamp
  opt_limit :: u64

definition channel_options_new :: "channel \<Rightarrow> u64 \<Rightarrow> u64 \<Rightarrow> u64 \<Rightarrow> channel_options" where
  "channel_options_new ch time_start time_end limit =
     \<lparr>opt_channel = ch, opt_time_start = time_start, opt_time_end = time_end, opt_limit = limit\<rparr>"

record user_info =
  ui_key :: rstring
  ui_val :: rstring

definition user_info_new :: "rstring \<Rightarrow> rstring \<Rightarrow> user_info" where
  "user_info_new k v = \<lparr>ui_key = k, ui_val = v\<rparr>"

text \<open>The string literal \<^verbatim>\<open>"name"\<close>.\<close>

definition name_key :: rstring where
  "name_key = [110, 97, 109, 101]"

definition user_info_name :: "rstring \<Rightarrow> user_info res" where
  "user_info_name name =
     (let name_len = chars_count name
      in if \<not> (1 \<le> name_len \<and> name_len \<le> 32)
         then raise_cable (UsernameLengthIncorrect name name_len)
         else Ok (user_info_new name_key name))"

subsection \<open>Validation\<close>

definition validate_channel :: "channel \<Rightarrow> unit res" where
  "validate_channel ch =
     (let channel_len = chars_count ch
      in if \<not> (1 \<le> channel_len \<and> channel_len \<le> 64)
         then raise_cable (ChannelLengthIncorrect ch channel_len)
         else Ok ())"

definition validate_text :: "post_text \<Rightarrow> unit res" where
  "validate_text t =
     (let text_len = length t
      in if text_len > 4096 then raise_cable (TextLengthIncorrect t text_len) else Ok ())"

definition validate_topic :: "topic \<Rightarrow> unit res" where
  "validate_topic t =
     (let topic_len = chars_count t
      in if topic_len > 521 then raise_cable (TopicLengthIncorrect t topic_len) else Ok ())"

lemma validate_channel_eq_Ok [simp]:
  "validate_channel ch = Ok () \<longleftrightarrow> 1 \<le> chars_count ch \<and> chars_count ch \<le> 64"
  by (auto simp: validate_channel_def raise_defs Let_def)

lemma validate_text_eq_Ok [simp]: "validate_text t = Ok () \<longleftrightarrow> length t \<le> 4096"
  by (auto simp: validate_text_def raise_defs Let_def)

lemma validate_topic_eq_Ok [simp]: "validate_topic t = Ok () \<longleftrightarrow> chars_count t \<le> 521"
  by (auto simp: validate_topic_def raise_defs Let_def)

lemma user_info_name_eq_Ok:
  "user_info_name name = Ok u \<longleftrightarrow>
     1 \<le> chars_count name \<and> chars_count name \<le> 32 \<and> u = user_info_new name_key name"
  by (auto simp: user_info_name_def raise_defs Let_def)

lemma name_key_valid [simp]: "utf8_valid name_key" "name_key \<noteq> []"
  by (simp_all add: name_key_def utf8_valid_def)

subsection \<open>Strings and hash lists on the wire\<close>

text \<open>The length of a string as a varint, then its bytes: how the encoders write every string.\<close>

definition string_bytes :: "rstring \<Rightarrow> u8 list" where
  "string_bytes s = varint_bytes (of_nat (length s)) @ s"

definition put_string :: "rstring \<Rightarrow> error writer" where
  "put_string s = wr_run [put_varint (of_nat (length s)), put_slice s]"

text \<open>\<^verbatim>\<open>let (s, len) = varint::decode(&buf[offset..])?; offset += s;\<close>
  \<^verbatim>\<open>let x = String::from_utf8(buf[offset..offset + len as usize].to_vec())?; offset += len as usize;\<close>\<close>

definition read_string :: "(rstring, error) reader" where
  "read_string =
     rd_bind read_varint (\<lambda>len.
     rd_bind (read_slice (unat len)) (\<lambda>bs.
     rd_check (string_from_utf8 bs)))"

text \<open>\<^verbatim>\<open>if offset + hash.len() > buf.len() { return DstTooSmall }\<close>, then the copy.\<close>

fun put_hash :: "hash \<Rightarrow> error writer" where
  "put_hash h (buf, off) =
     (if off + length h > length buf
      then raise_cable (DstTooSmall (length buf) (off + length h))
      else put_slice h (buf, off))"

text \<open>\<^verbatim>\<open>for _ in 0..num_hashes { ... hashes.push(hash) }\<close>\<close>

primrec read_hashes :: "nat \<Rightarrow> (hash list, error) reader" where
  "read_hashes 0 = rd_return []"
| "read_hashes (Suc n) =
     (\<lambda>buf off.
        if off + 32 > length buf then raise_cable MessageHashResponseEnd
        else rd_bind (read_slice 32) (\<lambda>h. rd_bind (read_hashes n) (\<lambda>hs. rd_return (h # hs))) buf off)"

lemma writes_put_string [writes_intros]: "writes (put_string s) (string_bytes s)"
  unfolding put_string_def string_bytes_def
  by (intro writes_run_Cons writes_put_varint writes_run_one writes_put_slice)

lemma length_string_bytes: "length (string_bytes s) = varint_length (of_nat (length s)) + length s"
  by (simp add: string_bytes_def varint_length_eq)

lemma unat_of_nat_56: "n < 2 ^ 56 \<Longrightarrow> unat (of_nat n :: u64) = n"
  by (rule unat_of_nat_u64) simp

lemma reads_string:
  assumes "utf8_valid s" and "length s < 2 ^ 56"
  shows "reads read_string (string_bytes s) s"
proof (rule reads_snoc_Nil)
  show "reads read_string (string_bytes s @ []) s"
    unfolding read_string_def string_bytes_def append_assoc
    by (intro reads_intros) (use assms in \<open>simp_all add: unat_of_nat_56\<close>)
qed

lemma reads_bind_string [reads_intros]:
  "utf8_valid s \<Longrightarrow> length s < 2 ^ 56 \<Longrightarrow> reads (f s) b2 y \<Longrightarrow>
     reads (rd_bind read_string f) (string_bytes s @ b2) y"
  by (rule reads_bind [OF reads_string])

lemma read_string_eq_Ok:
  assumes "read_string buf off = Ok (s, off')"
  shows "utf8_valid s \<and> length s < 2 ^ 56 \<and> off < off' \<and> off' \<le> length buf"
  using assms read_varint_progress
  by (fastforce simp: read_string_def rd_bind_eq_Ok rd_check_eq_Ok read_slice_eq_Ok string_from_utf8_eq_Ok)

lemma writes_put_hash [writes_intros]: "writes (put_hash h) h"
  by (simp add: writes_def)

lemma writes_put_hashes [writes_intros]: "writes (wr_each put_hash hs) (concat hs)"
  using writes_each [of hs put_hash "\<lambda>h. h"] writes_put_hash by simp

lemma reads_hashes:
  "\<forall>h \<in> set hs. length h = 32 \<Longrightarrow> n = length hs \<Longrightarrow> reads (read_hashes n) (concat hs) hs"
proof (induction hs arbitrary: n)
  case Nil
  then show ?case by (simp add: reads_return)
next
  case (Cons h hs)
  have "reads (rd_bind (read_slice 32) (\<lambda>h. rd_bind (read_hashes (length hs)) (\<lambda>hs. rd_return (h # hs))))
      (h @ concat hs @ []) (h # hs)"
    by (intro reads_bind_slice reads_bind [OF Cons.IH] reads_return) (use Cons.prems in auto)
  with Cons.prems show ?case by (simp add: reads_def)
qed

lemma reads_bind_hashes [reads_intros]:
  "\<forall>h \<in> set hs. length h = 32 \<Longrightarrow> n = length hs \<Longrightarrow> reads (f hs) b2 y \<Longrightarrow>
     reads (rd_bind (read_hashes n) f) (concat hs @ b2) y"
  by (rule reads_bind [OF reads_hashes])

lemma read_hashes_eq_Ok:
  "read_hashes n buf off = Ok (hs, off') \<Longrightarrow>
     length hs = n \<and> (\<forall>h \<in> set hs. length h = 32) \<and> off' = off + 32 * n \<and> (off \<le> length buf \<longrightarrow> off' \<le> length buf)"
proof (induction n arbitrary: hs off)
  case (Suc n)
  then show ?case
    by (fastforce simp: rd_bind_eq_Ok read_slice_eq_Ok raise_defs split: if_splits)
qed simp

end
