(* ===== verification/Desert_Codec.thy ===== *)
theory Desert_Codec
  imports Desert_Varint
begin

text \<open>
  \<^verbatim>\<open>desert/src/lib.rs\<close>: the traits \<^verbatim>\<open>ToBytes\<close>, \<^verbatim>\<open>FromBytes\<close> and \<^verbatim>\<open>CountBytes\<close> and their
  implementations for the built-in integers, \<^verbatim>\<open>bool\<close>, pairs, fixed-size arrays and \<^verbatim>\<open>Vec<T>\<close>.

  The methods of the three traits for one type are the fields of a record \<open>'a codec\<close>; a generic
  implementation is a function from the record of the element type. The big-endian and little-endian
  traits have the same text with other method names: they are the same generic functions applied to the
  records \<open>be_codec\<close> and \<open>le_codec\<close>. The contract that the callers rely on is the locale \<open>codec\<close>, and
  \<open>sized_codec\<close> where \<^verbatim>\<open>count_from_bytes\<close> also agrees. Arrays and vectors are proved to keep the
  contract inside the locale, once for all element types.
\<close>

subsection \<open>The traits\<close>

record 'a codec =
  count_bytes :: "'a \<Rightarrow> nat"
  to_bytes :: "'a \<Rightarrow> (u8 list) res"
  write_bytes :: "'a \<Rightarrow> u8 list \<Rightarrow> (u8 list \<times> nat) res"
  from_bytes :: "u8 list \<Rightarrow> (nat \<times> 'a) res"
  count_from_bytes :: "u8 list \<Rightarrow> nat res"

text \<open>\<^verbatim>\<open>offset += x.write_bytes(&mut dst[offset..])?;\<close>, \<^verbatim>\<open>let (size, x) = T::from_bytes(&src[offset..])?;
  offset += size;\<close> and \<^verbatim>\<open>offset += T::count_from_bytes(&buf[offset..])?;\<close>\<close>

fun put_item :: "'a codec \<Rightarrow> 'a \<Rightarrow> error writer" where
  "put_item C x (buf, off) =
     and_then (slice_from buf off) (\<lambda>tail.
     and_then (write_bytes C x tail) (\<lambda>(tail', n). Ok (take off buf @ tail', off + n)))"

definition read_item :: "'a codec \<Rightarrow> ('a, error) reader" where
  "read_item C buf off =
     and_then (slice_from buf off) (\<lambda>tail.
     and_then (from_bytes C tail) (\<lambda>(s, x). Ok (x, off + s)))"

definition count_item :: "'a codec \<Rightarrow> (unit, error) reader" where
  "count_item C buf off =
     and_then (slice_from buf off) (\<lambda>tail.
     and_then (count_from_bytes C tail) (\<lambda>n. Ok ((), off + n)))"

text \<open>The default method \<^verbatim>\<open>ToBytes::write_bytes\<close>.\<close>

definition default_write_bytes :: "('a \<Rightarrow> (u8 list) res) \<Rightarrow> 'a \<Rightarrow> u8 list \<Rightarrow> (u8 list \<times> nat) res" where
  "default_write_bytes to_b x dst =
     and_then (to_b x) (\<lambda>bytes.
       if length dst < length bytes
       then raise_desert (DstInsufficient (length bytes) (length dst))
       else Ok (bytes @ drop (length bytes) dst, length bytes))"

subsection \<open>Built-in integers\<close>

definition to_le_bytes :: "'a :: len word \<Rightarrow> u8 list" where
  "to_le_bytes v = map (\<lambda>i. ucast (drop_bit (8 * i) v)) [0..<LENGTH('a) div 8]"

definition to_be_bytes :: "'a :: len word \<Rightarrow> u8 list" where
  "to_be_bytes v = rev (to_le_bytes v)"

definition from_le_bytes :: "u8 list \<Rightarrow> 'a :: len word" where
  "from_le_bytes bs = foldr (\<lambda>b v. ucast b + 256 * v) bs 0"

definition from_be_bytes :: "u8 list \<Rightarrow> 'a :: len word" where
  "from_be_bytes bs = from_le_bytes (rev bs)"

definition builtin_codec :: "nat \<Rightarrow> ('a :: len word \<Rightarrow> u8 list) \<Rightarrow> (u8 list \<Rightarrow> 'a word) \<Rightarrow> 'a word codec" where
  "builtin_codec n enc dec =
     \<lparr>count_bytes = (\<lambda>_. n),
      to_bytes = (\<lambda>v. Ok (enc v)),
      write_bytes = (\<lambda>v dst.
        if length dst < length (enc v)
        then raise_desert (DstInsufficient (length (enc v)) (length dst))
        else Ok (enc v @ drop (length (enc v)) dst, length (enc v))),
      from_bytes = (\<lambda>src.
        if length src < n then raise_desert (SrcInsufficient n (length src))
        else Ok (n, dec (take n src))),
      count_from_bytes = (\<lambda>_. Ok n)\<rparr>"

definition be_codec :: "'a :: len word codec" where
  "be_codec = builtin_codec (LENGTH('a) div 8) to_be_bytes from_be_bytes"

definition le_codec :: "'a :: len word codec" where
  "le_codec = builtin_codec (LENGTH('a) div 8) to_le_bytes from_le_bytes"

subsection \<open>Booleans\<close>

definition bool_codec :: "bool codec" where
  "bool_codec =
     \<lparr>count_bytes = (\<lambda>_. 1),
      to_bytes = (\<lambda>b. Ok [if b then 1 else 0]),
      write_bytes = (\<lambda>b dst.
        if dst = [] then raise_desert (DstInsufficient 1 (length dst))
        else Ok (dst[0 := (if b then 1 else 0)], 1)),
      from_bytes = (\<lambda>src.
        if src = [] then raise_desert (SrcInsufficient 1 (length src)) else Ok (1, src ! 0 \<noteq> 0)),
      count_from_bytes = (\<lambda>_. Ok 1)\<rparr>"

subsection \<open>Pairs\<close>

definition pair_write_bytes :: "'a codec \<Rightarrow> 'b codec \<Rightarrow> 'a \<times> 'b \<Rightarrow> u8 list \<Rightarrow> (u8 list \<times> nat) res" where
  "pair_write_bytes A B x dst =
     (let len = count_bytes A (fst x) + count_bytes B (snd x) + 0
      in if length dst < len then raise_desert (DstInsufficient len (length dst))
         else wr_run [put_item A (fst x), put_item B (snd x)] (dst, 0))"

definition pair_codec :: "'a codec \<Rightarrow> 'b codec \<Rightarrow> ('a \<times> 'b) codec" where
  "pair_codec A B =
     \<lparr>count_bytes = (\<lambda>x. count_bytes A (fst x) + count_bytes B (snd x) + 0),
      to_bytes = (\<lambda>x.
        and_then (pair_write_bytes A B x (replicate (count_bytes A (fst x) + count_bytes B (snd x) + 0) 0))
          (\<lambda>(buf, _). Ok buf)),
      write_bytes = pair_write_bytes A B,
      from_bytes = (\<lambda>src.
        and_then (rd_bind (read_item A) (\<lambda>a. rd_bind (read_item B) (\<lambda>b. rd_return (a, b))) src 0)
          (\<lambda>(x, off). Ok (off, x))),
      count_from_bytes = (\<lambda>buf.
        and_then (rd_bind (count_item A) (\<lambda>_. count_item B) buf 0) (\<lambda>(_, off). Ok off))\<rparr>"

subsection \<open>Arrays\<close>

definition array_count_bytes :: "'a codec \<Rightarrow> nat \<Rightarrow> 'a list \<Rightarrow> nat" where
  "array_count_bytes C n xs = fold (\<lambda>x size. size + count_bytes C x) (take n xs) 0"

definition array_write_bytes :: "'a codec \<Rightarrow> nat \<Rightarrow> 'a list \<Rightarrow> u8 list \<Rightarrow> (u8 list \<times> nat) res" where
  "array_write_bytes C n xs dst =
     (let len = fold (\<lambda>x len. len + count_bytes C x) (take n xs) 0
      in if length dst < len then raise_desert (DstInsufficient len (length dst))
         else wr_each (put_item C) (take n xs) (dst, 0))"

primrec read_items :: "'a codec \<Rightarrow> nat \<Rightarrow> ('a list, error) reader" where
  "read_items C 0 = rd_return []"
| "read_items C (Suc n) = rd_bind (read_item C) (\<lambda>x. rd_bind (read_items C n) (\<lambda>xs. rd_return (x # xs)))"

primrec count_items :: "'a codec \<Rightarrow> nat \<Rightarrow> (unit, error) reader" where
  "count_items C 0 = rd_return ()"
| "count_items C (Suc n) = rd_bind (count_item C) (\<lambda>_. count_items C n)"

definition array_codec :: "'a codec \<Rightarrow> nat \<Rightarrow> 'a list codec" where
  "array_codec C n =
     \<lparr>count_bytes = array_count_bytes C n,
      to_bytes = (\<lambda>xs.
        and_then (array_write_bytes C n xs (replicate (array_count_bytes C n xs) 0)) (\<lambda>(buf, _). Ok buf)),
      write_bytes = array_write_bytes C n,
      from_bytes = (\<lambda>src. and_then (read_items C n src 0) (\<lambda>(xs, off). Ok (off, xs))),
      count_from_bytes = (\<lambda>buf. and_then (count_items C n buf 0) (\<lambda>(_, off). Ok off))\<rparr>"

subsection \<open>Vectors\<close>

definition vec_count_bytes :: "'a codec \<Rightarrow> 'a list \<Rightarrow> nat" where
  "vec_count_bytes C xs =
     (let len = fold (\<lambda>x len. len + count_bytes C x) xs 0 in len + varint_length (of_nat len))"

definition vec_write_bytes :: "'a codec \<Rightarrow> 'a list \<Rightarrow> u8 list \<Rightarrow> (u8 list \<times> nat) res" where
  "vec_write_bytes C xs dst =
     (let len = fold (\<lambda>x len. len + count_bytes C x) xs 0;
          hlen = varint_length (of_nat len)
      in if length dst < len + hlen then raise_desert (DstInsufficient (len + hlen) (length dst))
         else and_then (varint_encode (of_nat len) dst) (wr_each (put_item C) xs))"

definition vec_to_bytes :: "'a codec \<Rightarrow> 'a list \<Rightarrow> (u8 list) res" where
  "vec_to_bytes C xs =
     and_then (vec_write_bytes C xs (replicate (vec_count_bytes C xs) 0)) (\<lambda>(buf, _). Ok buf)"

text \<open>The loop \<^verbatim>\<open>while offset < end\<close> does not end when an element takes no bytes; not returning is \<open>None\<close>.\<close>

partial_function (option) vec_from_loop ::
  "'a codec \<Rightarrow> u8 list \<Rightarrow> nat \<Rightarrow> nat \<Rightarrow> 'a list \<Rightarrow> (nat \<times> 'a list) res option" where
  "vec_from_loop C src end_off off v =
     (if off < end_off
      then case read_item C src off of
             Ok (x, off') \<Rightarrow> vec_from_loop C src end_off off' (v @ [x])
           | Err e \<Rightarrow> Some (Err e)
           | Panic p \<Rightarrow> Some (Panic p)
      else Some (Ok (end_off, v)))"

definition vec_from_bytes :: "'a codec \<Rightarrow> u8 list \<Rightarrow> (nat \<times> 'a list) res option" where
  "vec_from_bytes C src =
     (case varint_decode src of
        Ok (off, len) \<Rightarrow> vec_from_loop C src (off + unat len) off []
      | Err e \<Rightarrow> Some (Err e)
      | Panic p \<Rightarrow> Some (Panic p))"

partial_function (option) vec_count_loop :: "'a codec \<Rightarrow> u8 list \<Rightarrow> nat \<Rightarrow> nat \<Rightarrow> nat res option" where
  "vec_count_loop C buf end_off off =
     (if off < end_off
      then case count_item C buf off of
             Ok (_, off') \<Rightarrow> vec_count_loop C buf end_off off'
           | Err e \<Rightarrow> Some (Err e)
           | Panic p \<Rightarrow> Some (Panic p)
      else Some (Ok off))"

definition vec_count_from_bytes :: "'a codec \<Rightarrow> u8 list \<Rightarrow> nat res option" where
  "vec_count_from_bytes C buf =
     (case varint_decode buf of
        Ok (off, len) \<Rightarrow> vec_count_loop C buf (off + unat len) off
      | Err e \<Rightarrow> Some (Err e)
      | Panic p \<Rightarrow> Some (Panic p))"

subsection \<open>The contract\<close>

text \<open>The encoding of a vector: the number of the bytes that follow, then the elements.\<close>

definition vec_enc :: "('a \<Rightarrow> u8 list) \<Rightarrow> 'a list \<Rightarrow> u8 list" where
  "vec_enc enc xs = varint_bytes (of_nat (length (concat (map enc xs)))) @ concat (map enc xs)"

locale codec =
  fixes C :: "'a codec" and valid :: "'a \<Rightarrow> bool" and enc :: "'a \<Rightarrow> u8 list"
  assumes count_bytes: "valid x \<Longrightarrow> count_bytes C x = length (enc x)"
    and to_bytes: "valid x \<Longrightarrow> to_bytes C x = Ok (enc x)"
    and write_bytes: "valid x \<Longrightarrow> length (enc x) \<le> length dst \<Longrightarrow>
      write_bytes C x dst = Ok (enc x @ drop (length (enc x)) dst, length (enc x))"
    and from_bytes: "valid x \<Longrightarrow> from_bytes C (enc x @ rest) = Ok (length (enc x), x)"
begin

lemma writes_item: "valid x \<Longrightarrow> writes (put_item C x) (enc x)"
  by (rule writesI) (simp add: slice_from_def write_bytes add.commute)

lemma reads_item: "valid x \<Longrightarrow> reads (read_item C) (enc x) x"
  by (simp add: reads_def read_item_def from_bytes)

lemma enc_inj: "valid x \<Longrightarrow> valid y \<Longrightarrow> enc x = enc y \<Longrightarrow> x = y"
  using from_bytes [of x "[]"] from_bytes [of y "[]"] by simp

lemma enc_prefix_free: "valid x \<Longrightarrow> valid y \<Longrightarrow> enc x @ xs = enc y @ ys \<Longrightarrow> x = y \<and> xs = ys"
  using from_bytes [of x xs] from_bytes [of y ys] by simp

lemma fold_count:
  "list_all valid xs \<Longrightarrow> fold (\<lambda>x n. n + count_bytes C x) xs k = k + length (concat (map enc xs))"
  by (induction xs arbitrary: k) (auto simp: count_bytes)

lemma writes_items: "list_all valid xs \<Longrightarrow> writes (wr_each (put_item C) xs) (concat (map enc xs))"
  by (rule writes_each) (auto simp: list_all_iff writes_item)

lemma reads_items:
  "list_all valid xs \<Longrightarrow> reads (read_items C (length xs)) (concat (map enc xs)) xs"
proof (induction xs)
  case (Cons x xs)
  then show ?case
    by (auto intro!: reads_bind [OF reads_item] reads_bind_last [OF Cons.IH] reads_return)
qed (simp add: reads_return)

lemma array_write:
  assumes "list_all valid xs" and "length xs = n" and "length (concat (map enc xs)) \<le> length dst"
  shows "array_write_bytes C n xs dst =
     Ok (concat (map enc xs) @ drop (length (concat (map enc xs))) dst, length (concat (map enc xs)))"
  using assms writesD [OF writes_items [OF assms(1)], of 0 dst]
  by (simp add: array_write_bytes_def fold_count Let_def)

text \<open>An array of lawful elements is lawful.\<close>

lemma array_codec:
  "Desert_Codec.codec (array_codec C n) (\<lambda>xs. length xs = n \<and> list_all valid xs) (\<lambda>xs. concat (map enc xs))"
proof (unfold_locales, goal_cases)
  case (1 xs)
  then show ?case by (simp add: array_codec_def array_count_bytes_def fold_count)
next
  case (2 xs)
  then show ?case
    using array_write [of xs n "replicate (array_count_bytes C n xs) 0"]
    by (simp add: array_codec_def array_count_bytes_def fold_count)
next
  case (3 xs dst)
  then show ?case using array_write [of xs n dst] by (simp add: array_codec_def)
next
  case (4 xs rest)
  then show ?case using reads_whole [OF reads_items, of xs rest] by (simp add: array_codec_def)
qed

lemma vec_count: "list_all valid xs \<Longrightarrow> vec_count_bytes C xs = length (vec_enc enc xs)"
  by (simp add: vec_count_bytes_def fold_count vec_enc_def varint_length_eq Let_def)

lemma vec_write:
  assumes "list_all valid xs" and "length (vec_enc enc xs) \<le> length dst"
  shows "vec_write_bytes C xs dst =
     Ok (vec_enc enc xs @ drop (length (vec_enc enc xs)) dst, length (vec_enc enc xs))"
proof -
  let ?b = "concat (map enc xs)"
  let ?h = "varint_bytes (of_nat (length ?b))"
  have "length ?h + length ?b \<le> length dst" using assms(2) by (simp add: vec_enc_def)
  then have "wr_each (put_item C) xs (?h @ drop (length ?h) dst, length ?h) =
      Ok (?h @ ?b @ drop (length ?h + length ?b) dst, length ?h + length ?b)"
    using writesD [OF writes_items [OF assms(1)], of "length ?h" "?h @ drop (length ?h) dst"]
    by (simp add: add.commute)
  with assms show ?thesis
    by (simp add: vec_write_bytes_def fold_count vec_enc_def varint_length_eq varint_encode_eq Let_def add.commute)
qed

lemma vec_to: "list_all valid xs \<Longrightarrow> vec_to_bytes C xs = Ok (vec_enc enc xs)"
  using vec_write [of xs "replicate (vec_count_bytes C xs) 0"] by (simp add: vec_to_bytes_def vec_count)

lemma vec_from_loop_items:
  assumes "list_all valid xs" and "list_all (\<lambda>x. enc x \<noteq> []) xs"
  shows "vec_from_loop C (pre @ concat (map enc xs) @ rest)
           (length pre + length (concat (map enc xs))) (length pre) v =
         Some (Ok (length pre + length (concat (map enc xs)), v @ xs))"
  using assms
proof (induction xs arbitrary: pre v)
  case Nil
  then show ?case by (simp add: vec_from_loop.simps)
next
  case (Cons x xs)
  have 1: "read_item C (pre @ enc x @ (concat (map enc xs) @ rest)) (length pre) =
      Ok (x, length pre + length (enc x))"
    using Cons.prems by (intro readsD reads_item) simp
  show ?case
    using Cons.IH [of "pre @ enc x" "v @ [x]"] Cons.prems 1
    by (subst vec_from_loop.simps) (simp add: add.assoc)
qed

text \<open>Decoding a vector terminates and inverts its encoding when no element is empty and the body stays
  below \<open>2 ^ 56\<close> bytes.\<close>

lemma vec_roundtrip:
  assumes "list_all valid xs" and "list_all (\<lambda>x. enc x \<noteq> []) xs" and "length (concat (map enc xs)) < 2 ^ 56"
  shows "vec_from_bytes C (vec_enc enc xs @ rest) = Some (Ok (length (vec_enc enc xs), xs))"
proof -
  let ?b = "concat (map enc xs)"
  have "unat (of_nat (length ?b) :: u64) = length ?b" using assms(3) by (intro unat_of_nat_u64) simp
  then show ?thesis
    using assms vec_from_loop_items [OF assms(1,2), of "varint_bytes (of_nat (length ?b))" rest "[]"]
      varint_decode_bytes_56 [of "of_nat (length ?b)" "?b @ rest"]
    by (simp add: vec_from_bytes_def vec_enc_def)
qed

end

text \<open>Where \<^verbatim>\<open>count_from_bytes\<close> tells how many bytes the next value takes.\<close>

locale sized_codec = codec +
  assumes count_from_bytes: "valid x \<Longrightarrow> count_from_bytes C (enc x @ rest) = Ok (length (enc x))"
begin

lemma count_item: "valid x \<Longrightarrow> reads (count_item C) (enc x) ()"
  by (simp add: reads_def count_item_def count_from_bytes)

lemma count_items:
  "list_all valid xs \<Longrightarrow> reads (count_items C (length xs)) (concat (map enc xs)) ()"
  by (induction xs) (auto simp: reads_return intro: reads_bind [OF count_item])

lemma array_sized:
  "Desert_Codec.sized_codec (array_codec C n) (\<lambda>xs. length xs = n \<and> list_all valid xs) (\<lambda>xs. concat (map enc xs))"
  by (intro sized_codec.intro sized_codec_axioms.intro array_codec)
    (use reads_whole [OF count_items] in \<open>auto simp: array_codec_def\<close>)

end

subsection \<open>The built-in types keep the contract\<close>

lemma word_split_byte:
  "ucast (ucast w :: u8) + 256 * take_bit m (drop_bit 8 w) = take_bit (8 + m) (w :: 'a :: len word)"
proof -
  have "256 * take_bit m (drop_bit 8 w) = push_bit 8 (take_bit m (drop_bit 8 w))"
    by (simp add: push_bit_eq_mult mult.commute)
  moreover have "(ucast (ucast w :: u8) :: 'a word) = take_bit 8 w"
    by (rule bit_word_eqI) (auto simp: bit_simps)
  moreover have "take_bit 8 w + push_bit 8 (take_bit m (drop_bit 8 w)) =
      take_bit 8 w OR push_bit 8 (take_bit m (drop_bit 8 w))"
    by (rule disjunctive_add_eq_or, rule bit_word_eqI) (auto simp: bit_simps)
  moreover have "take_bit 8 w OR push_bit 8 (take_bit m (drop_bit 8 w)) = take_bit (8 + m) w"
    by (rule bit_word_eqI) (auto simp: bit_simps)
  ultimately show ?thesis by simp
qed

lemma from_le_bytes_upto:
  "from_le_bytes (map (\<lambda>i. ucast (drop_bit (8 * i) v)) [k..<k + n]) =
     take_bit (8 * n) (drop_bit (8 * k) (v :: 'a :: len word))"
proof (induction n arbitrary: k)
  case 0
  then show ?case by (simp add: from_le_bytes_def)
next
  case (Suc n)
  have "[k..<k + Suc n] = k # [Suc k..<Suc k + n]" by (simp add: upt_conv_Cons)
  then show ?case
    using Suc.IH [of "Suc k"] word_split_byte [of "drop_bit (8 * k) v" "8 * n"]
    by (simp add: from_le_bytes_def drop_bit_drop_bit add.commute del: upt_Suc)
qed

lemma from_le_bytes_to_le_bytes:
  assumes "8 dvd LENGTH('a :: len)"
  shows "from_le_bytes (to_le_bytes v) = (v :: 'a word)"
  using from_le_bytes_upto [of v 0 "LENGTH('a) div 8"] assms by (simp add: to_le_bytes_def)

lemma length_to_le_bytes: "length (to_le_bytes (v :: 'a :: len word)) = LENGTH('a) div 8"
  by (simp add: to_le_bytes_def)

lemma le_codec_sized:
  "8 dvd LENGTH('a :: len) \<Longrightarrow> sized_codec (le_codec :: 'a word codec) (\<lambda>_. True) to_le_bytes"
  by unfold_locales
    (simp_all add: le_codec_def builtin_codec_def length_to_le_bytes from_le_bytes_to_le_bytes)

lemma be_codec_sized:
  "8 dvd LENGTH('a :: len) \<Longrightarrow> sized_codec (be_codec :: 'a word codec) (\<lambda>_. True) to_be_bytes"
  by unfold_locales
    (simp_all add: be_codec_def builtin_codec_def to_be_bytes_def from_be_bytes_def length_to_le_bytes
      from_le_bytes_to_le_bytes)

interpretation u8: sized_codec "be_codec :: u8 codec" "\<lambda>_. True" to_be_bytes
  by (rule be_codec_sized) simp

interpretation u64: sized_codec "be_codec :: u64 codec" "\<lambda>_. True" to_be_bytes
  by (rule be_codec_sized) simp

interpretation u32: sized_codec "be_codec :: u32 codec" "\<lambda>_. True" to_be_bytes
  by (rule be_codec_sized) simp

interpretation u32_le: sized_codec "le_codec :: u32 codec" "\<lambda>_. True" to_le_bytes
  by (rule le_codec_sized) simp

interpretation bool: sized_codec bool_codec "\<lambda>_. True" "\<lambda>b. [if b then 1 else 0]"
  by unfold_locales (auto simp: bool_codec_def list_update_append1 neq_Nil_conv Suc_le_eq)

subsection \<open>Byte arrays\<close>

text \<open>\<^verbatim>\<open>[u8; n]\<close>: the circuit and request identifiers of a message are written through this instance.\<close>

lemma to_be_bytes_u8: "to_be_bytes (b :: u8) = [b]"
  by (simp add: to_be_bytes_def to_le_bytes_def)

lemma concat_to_be_bytes_u8: "concat (map to_be_bytes (bs :: u8 list)) = bs"
  by (induction bs) (simp_all add: to_be_bytes_u8)

interpretation u8_array: sized_codec "array_codec (be_codec :: u8 codec) n" "\<lambda>bs. length bs = n" "\<lambda>bs. bs" for n
  using u8.array_sized [of n] by (simp add: concat_to_be_bytes_u8 list_all_iff)

lemma writes_put_array [writes_intros]:
  "length bs = n \<Longrightarrow> writes (put_item (array_codec be_codec n) bs) bs"
  by (rule u8_array.writes_item)

subsection \<open>Pairs keep the contract\<close>

lemma pair_codec_codec:
  assumes A: "codec A vA eA" and B: "codec B vB eB"
  shows "codec (pair_codec A B) (\<lambda>(a, b). vA a \<and> vB b) (\<lambda>(a, b). eA a @ eB b)"
proof -
  have count: "count_bytes A a + count_bytes B b = length (eA a @ eB b)" if "vA a" "vB b" for a b
    using that by (simp add: codec.count_bytes [OF A] codec.count_bytes [OF B])
  have wr: "pair_write_bytes A B (a, b) dst =
      Ok ((eA a @ eB b) @ drop (length (eA a @ eB b)) dst, length (eA a @ eB b))"
    if "vA a" "vB b" "length (eA a @ eB b) \<le> length dst" for a b dst
  proof -
    have "writes (wr_run [put_item A a, put_item B b]) (eA a @ eB b)"
      using that by (intro writes_run_Cons writes_run_one codec.writes_item [OF A] codec.writes_item [OF B])
    from writesD [OF this, of 0 dst] that show ?thesis
      using count [OF that(1,2)] by (simp add: pair_write_bytes_def Let_def)
  qed
  have rd: "reads (rd_bind (read_item A) (\<lambda>a. rd_bind (read_item B) (\<lambda>b. rd_return (a, b)))) (eA a @ eB b) (a, b)"
    if "vA a" "vB b" for a b
    using that by (intro reads_bind [OF codec.reads_item [OF A]] reads_bind_last [OF codec.reads_item [OF B]] reads_return)
  show ?thesis
    by (unfold_locales, auto simp: pair_codec_def count wr reads_whole [OF rd, simplified append_assoc])
qed

interpretation u32_pair: codec "pair_codec (be_codec :: u32 codec) (be_codec :: u32 codec)"
  "\<lambda>(a, b). True \<and> True" "\<lambda>(a, b). to_be_bytes a @ to_be_bytes b"
  by (rule pair_codec_codec) (rule u32.codec_axioms)+

subsection \<open>Properties\<close>

text \<open>C39. \<^verbatim>\<open>Vec<u64>\<close>: encoding succeeds, and decoding the encoding, whatever follows it, terminates, consumes
  exactly it and returns the vector.\<close>

theorem vec_u64_roundtrip:
  assumes "length xs < 2 ^ 53"
  shows "\<exists>buf. vec_to_bytes be_codec (xs :: u64 list) = Ok buf \<and> length buf = vec_count_bytes be_codec xs \<and>
     (\<forall>rest. vec_from_bytes be_codec (buf @ rest) = Some (Ok (length buf, xs)))"
proof -
  have len: "length (to_be_bytes v) = 8" for v :: u64 by (simp add: to_be_bytes_def length_to_le_bytes)
  then have "length (concat (map to_be_bytes xs)) = 8 * length xs" by (intro length_concat_const)
  moreover have "to_be_bytes v \<noteq> []" for v :: u64 using len [of v] by auto
  ultimately show ?thesis
    using assms u64.vec_roundtrip [of xs] u64.vec_to [of xs] u64.vec_count [of xs] by (auto simp: list_all_iff)
qed

theorem vec_u64_roundtrip_witness:
  "\<exists>buf. vec_to_bytes be_codec [1, 2 :: u64] = Ok buf \<and> length buf = vec_count_bytes be_codec [1, 2 :: u64] \<and>
     (\<forall>rest. vec_from_bytes be_codec (buf @ rest) = Some (Ok (length buf, [1, 2 :: u64])))"
  by (rule vec_u64_roundtrip) simp

end
