(* ===== verification/Cable_Post.thy ===== *)
theory Cable_Post
  imports Cable_Types Desert_Codec
begin

text \<open>
  \<^verbatim>\<open>cable/src/post.rs\<close>: the post types, their constructors and accessors, hashing, signing and
  verification over the cryptographic library, and the binary encoding.

  The encoder of the code counts the bytes (\<open>post_count_bytes\<close>), allocates a zeroed buffer of that
  size and writes field after field at a moving offset (\<open>post_write_bytes\<close>); the decoder reads field
  after field with early returns (\<open>post_from_bytes\<close>). \<open>post_bytes\<close> is the specification of the format.
  The theorems: the encoder produces exactly the format and fills its buffer exactly; decoding an
  encoded post gives the post back and consumes exactly its bytes; every post that the decoder
  returns is well formed.

  The functions of \<^verbatim>\<open>sodiumoxide\<close> (BLAKE2b hashing and Ed25519 signatures) are not part of the
  repository: they are the fields of the record \<open>crypto\<close>, a parameter of the operations that call them.
\<close>

subsection \<open>Data\<close>

record post_header =
  ph_public_key :: public_key
  ph_signature :: "u8 list"
  ph_links :: "hash list"
  ph_post_type :: u64
  ph_timestamp :: u64

datatype post_body =
    Text channel post_text
  | Delete "hash list"
  | Info "user_info list"
  | Topic channel topic
  | Join channel
  | Leave channel
  | UnrecognizedPost u64

record post =
  p_header :: post_header
  p_body :: post_body

record crypto =
  generichash_hash :: "u8 list \<Rightarrow> u8 list option"
  secret_key_from_slice :: "u8 list \<Rightarrow> u8 list option"
  sign_detached :: "u8 list \<Rightarrow> u8 list \<Rightarrow> u8 list"
  public_key_from_slice :: "u8 list \<Rightarrow> u8 list option"
  signature_from_bytes :: "u8 list \<Rightarrow> u8 list option"
  verify_detached :: "u8 list \<Rightarrow> u8 list \<Rightarrow> u8 list \<Rightarrow> bool"

subsection \<open>Constructors\<close>

definition post_header_new :: "public_key \<Rightarrow> u8 list \<Rightarrow> hash list \<Rightarrow> u64 \<Rightarrow> u64 \<Rightarrow> post_header" where
  "post_header_new pk sig links ptype ts =
     \<lparr>ph_public_key = pk, ph_signature = sig, ph_links = links, ph_post_type = ptype, ph_timestamp = ts\<rparr>"

definition post_new :: "post_header \<Rightarrow> post_body \<Rightarrow> post" where
  "post_new header body = \<lparr>p_header = header, p_body = body\<rparr>"

definition post_text :: "public_key \<Rightarrow> hash list \<Rightarrow> u64 \<Rightarrow> channel \<Rightarrow> post_text \<Rightarrow> post" where
  "post_text pk links ts ch txt =
     post_new (post_header_new pk (replicate 64 0) links TEXT_POST ts) (Text ch txt)"

definition post_delete :: "public_key \<Rightarrow> hash list \<Rightarrow> u64 \<Rightarrow> hash list \<Rightarrow> post" where
  "post_delete pk links ts hashes =
     post_new (post_header_new pk (replicate 64 0) links DELETE_POST ts) (Delete hashes)"

definition post_info :: "public_key \<Rightarrow> hash list \<Rightarrow> u64 \<Rightarrow> user_info list \<Rightarrow> post" where
  "post_info pk links ts info =
     post_new (post_header_new pk (replicate 64 0) links INFO_POST ts) (Info info)"

definition post_topic :: "public_key \<Rightarrow> hash list \<Rightarrow> u64 \<Rightarrow> channel \<Rightarrow> topic \<Rightarrow> post" where
  "post_topic pk links ts ch tp =
     post_new (post_header_new pk (replicate 64 0) links TOPIC_POST ts) (Topic ch tp)"

definition post_join :: "public_key \<Rightarrow> hash list \<Rightarrow> u64 \<Rightarrow> channel \<Rightarrow> post" where
  "post_join pk links ts ch =
     post_new (post_header_new pk (replicate 64 0) links JOIN_POST ts) (Join ch)"

definition post_leave :: "public_key \<Rightarrow> hash list \<Rightarrow> u64 \<Rightarrow> channel \<Rightarrow> post" where
  "post_leave pk links ts ch =
     post_new (post_header_new pk (replicate 64 0) links LEAVE_POST ts) (Leave ch)"

subsection \<open>Accessors\<close>

fun get_channel :: "post \<Rightarrow> channel option" where
  "get_channel p =
     (case p_body p of
        Text ch _ \<Rightarrow> Some ch
      | Delete _ \<Rightarrow> None
      | Info _ \<Rightarrow> None
      | Topic ch _ \<Rightarrow> Some ch
      | Join ch \<Rightarrow> Some ch
      | Leave ch \<Rightarrow> Some ch
      | UnrecognizedPost _ \<Rightarrow> None)"

definition get_public_key :: "post \<Rightarrow> public_key" where
  "get_public_key p = ph_public_key (p_header p)"

definition get_timestamp :: "post \<Rightarrow> u64" where
  "get_timestamp p = ph_timestamp (p_header p)"

definition is_signed :: "post \<Rightarrow> bool" where
  "is_signed p \<longleftrightarrow> list_ex (\<lambda>b. b \<noteq> 0) (ph_signature (p_header p))"

fun body_post_type :: "post_body \<Rightarrow> u64" where
  "body_post_type (Text _ _) = TEXT_POST"
| "body_post_type (Delete _) = DELETE_POST"
| "body_post_type (Info _) = INFO_POST"
| "body_post_type (Topic _ _) = TOPIC_POST"
| "body_post_type (Join _) = JOIN_POST"
| "body_post_type (Leave _) = LEAVE_POST"
| "body_post_type (UnrecognizedPost t) = t"

definition post_type :: "post \<Rightarrow> u64" where
  "post_type p = body_post_type (p_body p)"

subsection \<open>Encoding\<close>

fun body_count_bytes :: "post_body \<Rightarrow> nat" where
  "body_count_bytes (Text ch txt) =
     varint_length (of_nat (length ch)) + length ch + varint_length (of_nat (length txt)) + length txt"
| "body_count_bytes (Delete hashes) = varint_length (of_nat (length hashes)) + length hashes * 32"
| "body_count_bytes (Info info) =
     fold (\<lambda>u sum. sum + varint_length (of_nat (length (ui_key u))) + length (ui_key u)
                       + varint_length (of_nat (length (ui_val u))) + length (ui_val u)) info 0
     + varint_length 0"
| "body_count_bytes (Topic ch tp) =
     varint_length (of_nat (length ch)) + length ch + varint_length (of_nat (length tp)) + length tp"
| "body_count_bytes (Join ch) = varint_length (of_nat (length ch)) + length ch"
| "body_count_bytes (Leave ch) = varint_length (of_nat (length ch)) + length ch"
| "body_count_bytes (UnrecognizedPost _) = 0"

definition post_count_bytes :: "post \<Rightarrow> nat" where
  "post_count_bytes p =
     (let h = p_header p;
          header_size = 32 + 64 + varint_length (of_nat (length (ph_links h))) + length (ph_links h) * 32
                        + varint_length (post_type p) + varint_length (ph_timestamp h)
      in header_size + body_count_bytes (p_body p))"

fun put_post_body :: "post_body \<Rightarrow> error writer" where
  "put_post_body (Text ch txt) = wr_run [put_string ch, put_string txt]"
| "put_post_body (Delete hashes) =
     wr_run [put_varint (of_nat (length hashes)), wr_each put_hash hashes]"
| "put_post_body (Info info) =
     wr_run [wr_each (\<lambda>u. wr_run [put_string (ui_key u), put_string (ui_val u)]) info, put_varint 0]"
| "put_post_body (Topic ch tp) = wr_run [put_string ch, put_string tp]"
| "put_post_body (Join ch) = put_string ch"
| "put_post_body (Leave ch) = put_string ch"
| "put_post_body (UnrecognizedPost t) = (\<lambda>_. raise_cable (PostWriteUnrecognizedType t))"

definition post_write_bytes :: "post \<Rightarrow> u8 list \<Rightarrow> (u8 list \<times> nat) res" where
  "post_write_bytes p buf =
     (let h = p_header p
      in wr_run
           [put_slice (ph_public_key h),
            put_slice (ph_signature h),
            put_varint (of_nat (length (ph_links h))),
            wr_each put_hash (ph_links h),
            put_varint (post_type p),
            put_varint (ph_timestamp h),
            put_post_body (p_body p)] (buf, 0))"

definition post_to_bytes :: "post \<Rightarrow> (u8 list) res" where
  "post_to_bytes p =
     (let buf = replicate (post_count_bytes p) 0
      in and_then (post_write_bytes p buf) (\<lambda>(buf', _). Ok buf'))"

subsection \<open>Decoding\<close>

text \<open>The key-value loop of \<^verbatim>\<open>post/info\<close>; a key length of 0 ends it.\<close>

function read_info :: "(user_info list, error) reader" where
  "read_info buf off =
     rd_bind read_varint (\<lambda>key_len buf off.
       if key_len = 0 then rd_return [] buf off
       else
         rd_bind (read_slice (unat key_len)) (\<lambda>kb.
         rd_bind (rd_check (string_from_utf8 kb)) (\<lambda>key.
         rd_bind read_string (\<lambda>val.
         rd_bind (rd_check (if key = name_key then user_info_name val else Ok (user_info_new key val)))
           (\<lambda>key_val.
              rd_bind (\<lambda>buf off. read_info buf off) (\<lambda>rest. rd_return (key_val # rest)))))) buf off) buf off"
  by pat_completeness auto
termination
  by (relation "measure (\<lambda>(buf, off). length buf - off)")
    (auto simp: read_slice_eq_Ok rd_check_eq_Ok dest!: read_varint_progress read_string_eq_Ok)

declare read_info.simps [simp del]

definition read_channel :: "(channel, error) reader" where
  "read_channel =
     rd_bind read_string (\<lambda>ch.
     rd_bind (rd_check (validate_channel ch)) (\<lambda>_.
     rd_return ch))"

definition read_post_body :: "u64 \<Rightarrow> (post_body, error) reader" where
  "read_post_body ptype =
     (if ptype = TEXT_POST then
        rd_bind read_channel (\<lambda>ch.
        rd_bind read_string (\<lambda>txt.
        rd_bind (rd_check (validate_text txt)) (\<lambda>_.
        rd_return (Text ch txt))))
      else if ptype = DELETE_POST then
        rd_bind read_varint (\<lambda>num_hashes.
        rd_bind (read_hashes (unat num_hashes)) (\<lambda>hashes.
        rd_return (Delete hashes)))
      else if ptype = INFO_POST then
        rd_bind read_info (\<lambda>info. rd_return (Info info))
      else if ptype = TOPIC_POST then
        rd_bind read_channel (\<lambda>ch.
        rd_bind read_string (\<lambda>tp.
        rd_bind (rd_check (validate_topic tp)) (\<lambda>_.
        rd_return (Topic ch tp))))
      else if ptype = JOIN_POST then
        rd_bind read_channel (\<lambda>ch. rd_return (Join ch))
      else if ptype = LEAVE_POST then
        rd_bind read_channel (\<lambda>ch. rd_return (Leave ch))
      else rd_return (UnrecognizedPost ptype))"

definition read_post :: "(post, error) reader" where
  "read_post =
     rd_bind (read_slice 32) (\<lambda>pk.
     rd_bind (read_slice 64) (\<lambda>sig.
     rd_bind read_varint (\<lambda>num_links.
     rd_bind (read_hashes (unat num_links)) (\<lambda>links.
     rd_bind read_varint (\<lambda>ptype.
     rd_bind read_varint (\<lambda>ts.
     rd_bind (read_post_body ptype) (\<lambda>body.
     rd_return (post_new (post_header_new pk sig links ptype ts) body))))))))"

definition post_from_bytes :: "u8 list \<Rightarrow> (nat \<times> post) res" where
  "post_from_bytes buf = and_then (read_post buf 0) (\<lambda>(p, off). Ok (off, p))"

definition post_count_from_bytes :: "u8 list \<Rightarrow> nat res" where
  "post_count_from_bytes buf =
     (if buf = [] then raise_cable MessageEmpty
      else and_then (varint_decode buf) (\<lambda>(sum, post_len). Ok (sum + unat post_len)))"

subsection \<open>Hashing and signatures\<close>

definition post_hash :: "crypto \<Rightarrow> post \<Rightarrow> hash res" where
  "post_hash cr p =
     and_then (post_to_bytes p) (\<lambda>buf.
       case generichash_hash cr buf of
         None \<Rightarrow> raise_cable PostHashingFailed
       | Some digest \<Rightarrow> if length digest = 32 then Ok digest else Err TryFromSliceError)"

text \<open>The context string of the \<^verbatim>\<open>NoneError\<close> that \<^verbatim>\<open>sign\<close> raises.\<close>

definition secret_key_context :: rstring where
  "secret_key_context = map (of_nat \<circ> of_char) ''failed to decode secret key from slice''"

definition post_sign :: "crypto \<Rightarrow> post \<Rightarrow> u8 list \<Rightarrow> post res" where
  "post_sign cr p secret_key =
     and_then (post_to_bytes p) (\<lambda>buf.
       case secret_key_from_slice cr secret_key of
         None \<Rightarrow> raise_cable (NoneError secret_key_context)
       | Some sk \<Rightarrow>
           and_then (slice_from buf (32 + 64)) (\<lambda>rest.
             Ok (p\<lparr>p_header := (p_header p)\<lparr>ph_signature := sign_detached cr rest sk\<rparr>\<rparr>)))"

definition post_verify :: "crypto \<Rightarrow> u8 list \<Rightarrow> bool" where
  "post_verify cr buf =
     (if length buf < 32 + 64 then False
      else case (public_key_from_slice cr (take 32 buf), signature_from_bytes cr (take 64 (drop 32 buf))) of
          (Some pk, Some sig) \<Rightarrow> verify_detached cr sig (drop (32 + 64) buf) pk
        | _ \<Rightarrow> False)"

subsection \<open>The format\<close>

definition info_pair_bytes :: "user_info \<Rightarrow> u8 list" where
  "info_pair_bytes u = string_bytes (ui_key u) @ string_bytes (ui_val u)"

definition hashes_bytes :: "hash list \<Rightarrow> u8 list" where
  "hashes_bytes hs = varint_bytes (of_nat (length hs)) @ concat hs"

fun post_body_bytes :: "post_body \<Rightarrow> u8 list" where
  "post_body_bytes (Text ch txt) = string_bytes ch @ string_bytes txt"
| "post_body_bytes (Delete hashes) = hashes_bytes hashes"
| "post_body_bytes (Info info) = concat (map info_pair_bytes info) @ varint_bytes 0"
| "post_body_bytes (Topic ch tp) = string_bytes ch @ string_bytes tp"
| "post_body_bytes (Join ch) = string_bytes ch"
| "post_body_bytes (Leave ch) = string_bytes ch"
| "post_body_bytes (UnrecognizedPost _) = []"

text \<open>The bytes a signature covers: everything behind the public key and the signature.\<close>

definition post_signed_bytes :: "post \<Rightarrow> u8 list" where
  "post_signed_bytes p =
     hashes_bytes (ph_links (p_header p)) @ varint_bytes (post_type p) @
     varint_bytes (ph_timestamp (p_header p)) @ post_body_bytes (p_body p)"

definition post_bytes :: "post \<Rightarrow> u8 list" where
  "post_bytes p =
     ph_public_key (p_header p) @ ph_signature (p_header p) @ post_signed_bytes p"

subsection \<open>Well-formed posts\<close>

definition string_ok :: "rstring \<Rightarrow> bool" where
  "string_ok s \<longleftrightarrow> utf8_valid s \<and> length s < 2 ^ 56"

definition channel_ok :: "channel \<Rightarrow> bool" where
  "channel_ok ch \<longleftrightarrow> utf8_valid ch \<and> 1 \<le> chars_count ch \<and> chars_count ch \<le> 64"

definition hashes_ok :: "hash list \<Rightarrow> bool" where
  "hashes_ok hs \<longleftrightarrow> list_all (\<lambda>h. length h = 32) hs \<and> length hs < 2 ^ 56"

definition info_ok :: "user_info \<Rightarrow> bool" where
  "info_ok u \<longleftrightarrow> string_ok (ui_key u) \<and> ui_key u \<noteq> [] \<and> string_ok (ui_val u) \<and>
     (ui_key u = name_key \<longrightarrow> 1 \<le> chars_count (ui_val u) \<and> chars_count (ui_val u) \<le> 32)"

fun body_ok :: "post_body \<Rightarrow> bool" where
  "body_ok (Text ch txt) \<longleftrightarrow> channel_ok ch \<and> utf8_valid txt \<and> length txt \<le> 4096"
| "body_ok (Delete hashes) \<longleftrightarrow> hashes_ok hashes"
| "body_ok (Info info) \<longleftrightarrow> list_all info_ok info"
| "body_ok (Topic ch tp) \<longleftrightarrow> channel_ok ch \<and> utf8_valid tp \<and> chars_count tp \<le> 521"
| "body_ok (Join ch) \<longleftrightarrow> channel_ok ch"
| "body_ok (Leave ch) \<longleftrightarrow> channel_ok ch"
| "body_ok (UnrecognizedPost t) \<longleftrightarrow>
     t \<noteq> TEXT_POST \<and> t \<noteq> DELETE_POST \<and> t \<noteq> INFO_POST \<and> t \<noteq> TOPIC_POST \<and> t \<noteq> JOIN_POST \<and>
     t \<noteq> LEAVE_POST \<and> unat t < 2 ^ 56"

definition header_ok :: "post_header \<Rightarrow> bool" where
  "header_ok h \<longleftrightarrow> length (ph_public_key h) = 32 \<and> length (ph_signature h) = 64 \<and>
     hashes_ok (ph_links h) \<and> unat (ph_timestamp h) < 2 ^ 56"

definition post_ok :: "post \<Rightarrow> bool" where
  "post_ok p \<longleftrightarrow> header_ok (p_header p) \<and> ph_post_type (p_header p) = post_type p \<and> body_ok (p_body p)"

fun recognized :: "post_body \<Rightarrow> bool" where
  "recognized (UnrecognizedPost _) \<longleftrightarrow> False"
| "recognized _ \<longleftrightarrow> True"

text \<open>What the Rust types alone guarantee of a post: the widths of its arrays.\<close>

fun body_typed :: "post_body \<Rightarrow> bool" where
  "body_typed (Delete hashes) \<longleftrightarrow> list_all (\<lambda>h. length h = 32) hashes"
| "body_typed _ \<longleftrightarrow> True"

definition post_typed :: "post \<Rightarrow> bool" where
  "post_typed p \<longleftrightarrow> length (ph_public_key (p_header p)) = 32 \<and> length (ph_signature (p_header p)) = 64 \<and>
     list_all (\<lambda>h. length h = 32) (ph_links (p_header p)) \<and> body_typed (p_body p)"

subsection \<open>The encoder refines the format\<close>

lemma length_concat_32: "list_all (\<lambda>h. length h = 32) hs \<Longrightarrow> length (concat hs) = length hs * 32"
  using length_concat_const [of hs "\<lambda>h. h" 32] by (simp add: list_all_iff)

lemma fold_sum_add: "fold (\<lambda>x sum. sum + f x) xs (n :: nat) = n + sum_list (map f xs)"
  by (induction xs arbitrary: n) auto

lemma length_concat_sum: "length (concat (map f xs)) = sum_list (map (\<lambda>x. length (f x)) xs)"
  by (induction xs) auto

lemma length_post_body_bytes: "body_typed b \<Longrightarrow> length (post_body_bytes b) = body_count_bytes b"
proof (cases b)
  case (Info info)
  have "fold (\<lambda>u sum. sum + varint_length (of_nat (length (ui_key u))) + length (ui_key u)
          + varint_length (of_nat (length (ui_val u))) + length (ui_val u)) info 0 =
        fold (\<lambda>u sum. sum + length (info_pair_bytes u)) info 0"
    by (simp add: info_pair_bytes_def length_string_bytes add.assoc)
  with Info show ?thesis by (simp add: fold_sum_add length_concat_sum varint_length_eq)
qed (simp_all add: length_string_bytes hashes_bytes_def length_concat_32 varint_length_eq)

lemma length_post_bytes: "post_typed p \<Longrightarrow> length (post_bytes p) = post_count_bytes p"
  by (simp add: post_typed_def post_bytes_def post_signed_bytes_def post_count_bytes_def Let_def
      hashes_bytes_def length_concat_32 length_post_body_bytes varint_length_eq)

lemma writes_put_post_body: "recognized b \<Longrightarrow> writes (put_post_body b) (post_body_bytes b)"
proof (cases b)
  case (Info info)
  have "writes (wr_run [put_string (ui_key u), put_string (ui_val u)]) (info_pair_bytes u)" for u
    unfolding info_pair_bytes_def by (intro writes_run_Cons writes_run_one writes_put_string)
  then show ?thesis
    unfolding Info put_post_body.simps post_body_bytes.simps
    by (intro writes_run_Cons writes_run_one writes_each writes_put_varint)
next
  case (Delete hashes)
  show ?thesis
    unfolding Delete put_post_body.simps post_body_bytes.simps hashes_bytes_def
    by (intro writes_run_Cons writes_run_one writes_put_hashes writes_put_varint)
qed (simp_all only: put_post_body.simps post_body_bytes.simps recognized.simps simp_thms,
     (intro writes_run_Cons writes_run_one writes_put_string)+)

lemma writes_post:
  assumes "recognized (p_body p)"
  shows "writes (\<lambda>(buf, off). wr_run
           [put_slice (ph_public_key (p_header p)), put_slice (ph_signature (p_header p)),
            put_varint (of_nat (length (ph_links (p_header p)))), wr_each put_hash (ph_links (p_header p)),
            put_varint (post_type p), put_varint (ph_timestamp (p_header p)),
            put_post_body (p_body p)] (buf, off)) (post_bytes p)"
  unfolding post_bytes_def post_signed_bytes_def hashes_bytes_def append_assoc case_prod_eta
  by (intro writes_run_Cons writes_run_one writes_put_slice writes_put_varint writes_put_hashes
      writes_put_post_body assms)

lemma post_to_bytes_eq:
  assumes "post_typed p" and "recognized (p_body p)"
  shows "post_to_bytes p = Ok (post_bytes p)"
  using writes_whole [OF writes_post [OF assms(2)], of "replicate (post_count_bytes p) 0"]
    length_post_bytes [OF assms(1)]
  by (simp add: post_to_bytes_def post_write_bytes_def Let_def del: wr_run.simps)

lemma post_to_bytes_unrecognized:
  assumes "post_typed p" and "p_body p = UnrecognizedPost t"
  shows "post_to_bytes p = raise_cable (PostWriteUnrecognizedType t)"
proof -
  let ?h = "p_header p" and ?n = "post_count_bytes p"
  let ?head = "[put_slice (ph_public_key ?h), put_slice (ph_signature ?h),
     put_varint (of_nat (length (ph_links ?h))), wr_each put_hash (ph_links ?h),
     put_varint (post_type p), put_varint (ph_timestamp ?h)]"
  have "writes (wr_run ?head) (post_bytes p)"
    using assms(2) unfolding post_bytes_def post_signed_bytes_def hashes_bytes_def append_assoc
    by simp (intro writes_run_Cons writes_run_one writes_put_slice writes_put_varint writes_put_hashes)
  from writes_whole [OF this, of "replicate ?n 0"] length_post_bytes [OF assms(1)]
  have head: "wr_run ?head (replicate ?n 0, 0) = Ok (post_bytes p, length (post_bytes p))" by simp
  have "post_write_bytes p (replicate ?n 0) =
      and_then (wr_run ?head (replicate ?n 0, 0)) (wr_run [put_post_body (p_body p)])"
    unfolding post_write_bytes_def Let_def by (simp only: wr_run_append [symmetric] append.simps)
  also have "\<dots> = raise_cable (PostWriteUnrecognizedType t)"
    using head assms(2) by (simp add: raise_defs del: put_slice.simps put_varint.simps)
  finally show ?thesis by (simp add: post_to_bytes_def Let_def raise_defs)
qed

subsection \<open>The decoder inverts the format\<close>

lemma channel_ok_length: "channel_ok ch \<Longrightarrow> length ch \<le> 256"
  using length_le_chars_count [of ch] by (auto simp: channel_ok_def)

lemma reads_bind_channel [reads_intros]:
  assumes "channel_ok ch" and "reads (f ch) b2 y"
  shows "reads (rd_bind read_channel f) (string_bytes ch @ b2) y"
proof (rule reads_bind)
  have "reads read_channel (string_bytes ch @ []) ch"
    unfolding read_channel_def
    by (intro reads_intros) (use assms(1) channel_ok_length [OF assms(1)] in \<open>auto simp: channel_ok_def\<close>)
  then show "reads read_channel (string_bytes ch) ch" by (rule reads_snoc_Nil)
qed (rule assms(2))

lemma reads_info:
  "list_all info_ok info \<Longrightarrow> reads read_info (concat (map info_pair_bytes info) @ varint_bytes 0) info"
proof (induction info)
  case Nil
  have "reads (rd_bind read_varint (\<lambda>key_len buf off. if key_len = 0 then rd_return [] buf off else f key_len buf off))
      (varint_bytes 0 @ []) ([] :: user_info list)" for f
    by (intro reads_bind_varint) (simp_all add: reads_return)
  then show ?case by (simp add: reads_def read_info.simps)
next
  case (Cons u info)
  obtain k v where u: "u = user_info_new k v" by (cases u) (auto simp: user_info_new_def)
  from Cons.prems u have ok: "utf8_valid k" "k \<noteq> []" "length k < 2 ^ 56" "utf8_valid v" "length v < 2 ^ 56"
    and name: "k = name_key \<longrightarrow> 1 \<le> chars_count v \<and> chars_count v \<le> 32"
    by (auto simp: info_ok_def string_ok_def user_info_new_def)
  from ok(2,3) have nz: "(of_nat (length k) :: u64) \<noteq> 0"
    using unat_of_nat_56 [of "length k"] by (metis length_0_conv unat_0)
  have pair: "(if k = name_key then user_info_name v else Ok (user_info_new k v)) = Ok u"
    using name u by (simp add: user_info_name_eq_Ok)
  have rest: "reads (\<lambda>buf off. read_info buf off) (concat (map info_pair_bytes info) @ varint_bytes 0) info"
    using Cons by simp
  let ?body = "\<lambda>n :: u64. rd_bind (read_slice (unat n)) (\<lambda>kb.
         rd_bind (rd_check (string_from_utf8 kb)) (\<lambda>key.
         rd_bind read_string (\<lambda>val.
         rd_bind (rd_check (if key = name_key then user_info_name val else Ok (user_info_new key val)))
           (\<lambda>key_val. rd_bind (\<lambda>buf off. read_info buf off) (\<lambda>rest. rd_return (key_val # rest))))))"
  have body: "reads (?body (of_nat (length k))) (k @ string_bytes v @ (concat (map info_pair_bytes info) @ varint_bytes 0) @ []) (u # info)"
    by (intro reads_intros reads_bind [OF rest])
      ((use ok pair in \<open>simp_all add: unat_of_nat_56\<close>)?, rule reads_return)
  have "reads (rd_bind read_varint (\<lambda>n buf off. if n = 0 then rd_return [] buf off else ?body n buf off))
      (varint_bytes (of_nat (length k)) @ k @ string_bytes v @ (concat (map info_pair_bytes info) @ varint_bytes 0) @ [])
      (u # info)"
    using body nz ok by (intro reads_bind_varint) (simp_all add: unat_of_nat_56)
  moreover have "concat (map info_pair_bytes (u # info)) @ varint_bytes 0 =
      varint_bytes (of_nat (length k)) @ k @ string_bytes v @ (concat (map info_pair_bytes info) @ varint_bytes 0) @ []"
    by (simp add: u info_pair_bytes_def string_bytes_def user_info_new_def)
  moreover have "reads read_info bs x = reads (rd_bind read_varint (\<lambda>n buf off.
      if n = 0 then rd_return [] buf off else ?body n buf off)) bs x" for bs x
    unfolding reads_def by (subst read_info.simps) (rule refl)
  ultimately show ?case by (simp only:)
qed

lemma read_post_body_simps:
  "read_post_body TEXT_POST =
     rd_bind read_channel (\<lambda>ch. rd_bind read_string (\<lambda>txt.
       rd_bind (rd_check (validate_text txt)) (\<lambda>_. rd_return (Text ch txt))))"
  "read_post_body DELETE_POST =
     rd_bind read_varint (\<lambda>n. rd_bind (read_hashes (unat n)) (\<lambda>hashes. rd_return (Delete hashes)))"
  "read_post_body INFO_POST = rd_bind read_info (\<lambda>info. rd_return (Info info))"
  "read_post_body TOPIC_POST =
     rd_bind read_channel (\<lambda>ch. rd_bind read_string (\<lambda>tp.
       rd_bind (rd_check (validate_topic tp)) (\<lambda>_. rd_return (Topic ch tp))))"
  "read_post_body JOIN_POST = rd_bind read_channel (\<lambda>ch. rd_return (Join ch))"
  "read_post_body LEAVE_POST = rd_bind read_channel (\<lambda>ch. rd_return (Leave ch))"
  by (simp_all add: read_post_body_def post_type_defs)

lemma reads_bind_info [reads_intros]:
  "list_all info_ok info \<Longrightarrow> reads (f info) b2 y \<Longrightarrow>
     reads (rd_bind read_info f) ((concat (map info_pair_bytes info) @ varint_bytes 0) @ b2) y"
  by (rule reads_bind [OF reads_info])

lemma topic_length: "chars_count tp \<le> 521 \<Longrightarrow> utf8_valid tp \<Longrightarrow> length tp < 2 ^ 56"
  using length_le_chars_count [of tp] by simp

lemma reads_post_body:
  assumes "body_ok b"
  shows "reads (read_post_body (body_post_type b)) (post_body_bytes b) b"
proof (rule reads_snoc_Nil)
  show "reads (read_post_body (body_post_type b)) (post_body_bytes b @ []) b"
  proof (cases b)
    case (Text ch t)
    with assms have "body_ok (Text ch t)" by simp
    then show ?thesis
      unfolding Text body_post_type.simps read_post_body_simps post_body_bytes.simps append_assoc
      by (intro reads_intros) simp_all
  next
    case (Delete hs)
    with assms have "body_ok (Delete hs)" by simp
    then show ?thesis
      unfolding Delete body_post_type.simps read_post_body_simps post_body_bytes.simps
        hashes_bytes_def append_assoc
      by (intro reads_intros) (simp_all add: hashes_ok_def list_all_iff unat_of_nat_56)
  next
    case (Info info)
    with assms have "body_ok (Info info)" by simp
    then show ?thesis
      unfolding Info body_post_type.simps read_post_body_simps post_body_bytes.simps
      by (intro reads_intros) simp_all
  next
    case (Topic ch tp)
    with assms have "body_ok (Topic ch tp)" by simp
    then show ?thesis
      unfolding Topic body_post_type.simps read_post_body_simps post_body_bytes.simps append_assoc
      by (intro reads_intros topic_length) simp_all
  next
    case (Join ch)
    with assms have "body_ok (Join ch)" by simp
    then show ?thesis
      unfolding Join body_post_type.simps read_post_body_simps post_body_bytes.simps
      by (intro reads_intros) simp_all
  next
    case (Leave ch)
    with assms have "body_ok (Leave ch)" by simp
    then show ?thesis
      unfolding Leave body_post_type.simps read_post_body_simps post_body_bytes.simps
      by (intro reads_intros) simp_all
  next
    case (UnrecognizedPost t)
    with assms show ?thesis by (simp add: read_post_body_def reads_return)
  qed
qed

lemma body_post_type_less: "body_ok b \<Longrightarrow> unat (body_post_type b) < 2 ^ 56"
  by (cases b) (simp_all add: post_type_defs)

lemma post_ok_cases:
  assumes "post_ok p"
  obtains pk sig links ts b where "p = post_new (post_header_new pk sig links (body_post_type b) ts) b"
    and "length pk = 32" and "length sig = 64" and "hashes_ok links" and "unat ts < 2 ^ 56" and "body_ok b"
proof -
  obtain h b where p: "p = \<lparr>p_header = h, p_body = b\<rparr>" by (cases p) auto
  obtain pk sig links t ts where
    h: "h = \<lparr>ph_public_key = pk, ph_signature = sig, ph_links = links, ph_post_type = t, ph_timestamp = ts\<rparr>"
    by (cases h) auto
  show thesis
    by (rule that [of pk sig links b ts])
      (use assms p h in \<open>simp_all add: post_ok_def header_ok_def post_type_def post_new_def post_header_new_def\<close>)
qed

lemma reads_bind_post_body [reads_intros]:
  "body_ok b \<Longrightarrow> t = body_post_type b \<Longrightarrow> reads (f b) b2 y \<Longrightarrow>
     reads (rd_bind (read_post_body t) f) (post_body_bytes b @ b2) y"
  by (simp add: reads_bind [OF reads_post_body])

lemma reads_post:
  assumes "post_ok p"
  shows "reads read_post (post_bytes p) p"
proof (rule reads_snoc_Nil)
  from assms obtain pk sig links ts b
    where p: "p = post_new (post_header_new pk sig links (body_post_type b) ts) b"
      and ok: "length pk = 32" "length sig = 64" "hashes_ok links" "unat ts < 2 ^ 56" "body_ok b"
    by (rule post_ok_cases)
  have "reads read_post (pk @ sig @ varint_bytes (of_nat (length links)) @ concat links @
      varint_bytes (body_post_type b) @ varint_bytes ts @ post_body_bytes b @ []) p"
    unfolding read_post_def p
    by (intro reads_intros body_post_type_less ok refl)
      (use ok(3) in \<open>simp_all add: hashes_ok_def list_all_iff unat_of_nat_56\<close>)
  then show "reads read_post (post_bytes p @ []) p"
    by (simp add: p post_bytes_def post_signed_bytes_def hashes_bytes_def post_type_def
        post_new_def post_header_new_def)
qed

lemma post_ok_typed: "post_ok p \<Longrightarrow> post_typed p"
  by (cases "p_body p") (auto simp: post_ok_def post_typed_def header_ok_def hashes_ok_def)

lemma post_from_bytes_post_bytes:
  "post_ok p \<Longrightarrow> post_from_bytes (post_bytes p @ rest) = Ok (length (post_bytes p), p)"
  by (simp add: post_from_bytes_def reads_whole [OF reads_post])

subsection \<open>Posts keep the contract of the codec traits\<close>

definition post_codec :: "post codec" where
  "post_codec =
     \<lparr>count_bytes = post_count_bytes, to_bytes = post_to_bytes, write_bytes = post_write_bytes,
      from_bytes = post_from_bytes, count_from_bytes = post_count_from_bytes\<rparr>"

interpretation post: codec post_codec "\<lambda>p. post_ok p \<and> recognized (p_body p)" post_bytes
proof
  fix p and dst :: "u8 list"
  assume p: "post_ok p \<and> recognized (p_body p)" and le: "length (post_bytes p) \<le> length dst"
  then show "write_bytes post_codec p dst =
      Ok (post_bytes p @ drop (length (post_bytes p)) dst, length (post_bytes p))"
    using writesD [OF writes_post, of p 0 dst]
    by (simp add: post_codec_def post_write_bytes_def Let_def del: wr_run.simps)
qed (simp_all add: post_codec_def length_post_bytes post_ok_typed post_to_bytes_eq post_from_bytes_post_bytes)

subsection \<open>Every decoded post is well formed\<close>

lemma read_channel_eq_Ok:
  "read_channel buf off = Ok (ch, off') \<Longrightarrow> channel_ok ch \<and> off < off' \<and> off' \<le> length buf"
  by (auto simp: read_channel_def rd_bind_eq_Ok rd_check_eq_Ok channel_ok_def dest!: read_string_eq_Ok)

lemma read_info_eq_Ok:
  "read_info buf off = Ok (info, off') \<Longrightarrow> list_all info_ok info \<and> off < off' \<and> off' \<le> length buf"
proof (induction buf off arbitrary: info off' rule: read_info.induct)
  case (1 buf off)
  from "1.prems" obtain n o1 where n: "read_varint buf off = Ok (n, o1)"
    and rest: "(if n = 0 then rd_return [] buf o1 else
         rd_bind (read_slice (unat n)) (\<lambda>kb.
         rd_bind (rd_check (string_from_utf8 kb)) (\<lambda>key.
         rd_bind read_string (\<lambda>val.
         rd_bind (rd_check (if key = name_key then user_info_name val else Ok (user_info_new key val)))
           (\<lambda>key_val. rd_bind (\<lambda>buf off. read_info buf off) (\<lambda>rest. rd_return (key_val # rest)))))) buf o1) = Ok (info, off')"
    by (subst (asm) read_info.simps) (auto simp: rd_bind_eq_Ok)
  note pr = read_varint_progress [OF n]
  show ?case
  proof (cases "n = 0")
    case True
    with rest pr show ?thesis by simp
  next
    case False
    with rest obtain k o2 v o3 u r where
        k: "read_slice (unat n) buf o1 = (Ok (k, o2) :: (u8 list \<times> nat) res)" "string_from_utf8 k = Ok k"
      and v: "read_string buf o2 = Ok (v, o3)"
      and u: "(if k = name_key then user_info_name v else Ok (user_info_new k v)) = Ok u"
      and r: "read_info buf o3 = Ok (r, off')" "info = u # r"
      by (auto simp: rd_bind_eq_Ok rd_check_eq_Ok string_from_utf8_eq_Ok)
    have "list_all info_ok r \<and> o3 < off' \<and> off' \<le> length buf"
      by (rule "1.IH" [OF n False k(1) _ v _ r(1)]) (use k(2) u in \<open>auto simp: rd_check_eq_Ok\<close>)
    moreover have "length k = unat n" "unat n \<noteq> 0"
      using k(1) False by (auto simp: read_slice_eq_Ok unat_eq_0)
    then have "info_ok u"
      using u k(2) pr read_string_eq_Ok [OF v]
      by (auto simp: info_ok_def string_ok_def user_info_new_def user_info_name_eq_Ok string_from_utf8_eq_Ok
          split: if_splits)
    ultimately show ?thesis
      using r(2) pr k(1) read_string_eq_Ok [OF v] by (auto simp: read_slice_eq_Ok)
  qed
qed

lemma read_hashes_ok:
  "read_varint buf off = Ok (n, off1) \<Longrightarrow> read_hashes (unat n) buf off1 = Ok (hs, off') \<Longrightarrow>
     hashes_ok hs \<and> off < off' \<and> off' \<le> length buf"
  using read_varint_progress [of buf off n off1] read_hashes_eq_Ok [of "unat n" buf off1 hs off']
  by (simp add: hashes_ok_def list_all_iff)

lemma read_post_body_eq_Ok:
  assumes "read_post_body t buf off = Ok (b, off')" and "unat t < 2 ^ 56"
  shows "body_ok b \<and> body_post_type b = t \<and> off \<le> off' \<and> (off \<le> length buf \<longrightarrow> off' \<le> length buf)"
  using assms unfolding read_post_body_def
  by (auto simp: rd_bind_eq_Ok rd_check_eq_Ok split: if_splits
      dest!: read_channel_eq_Ok read_info_eq_Ok read_string_eq_Ok read_hashes_ok)

lemma read_post_eq_Ok:
  assumes "read_post buf off = Ok (p, off')"
  shows "post_ok p \<and> off + 96 < off' \<and> off' \<le> length buf"
proof -
  from assms obtain pk sig n o1 links o2 t o3 ts o4 b where
      hd: "pk = take 32 (drop off buf)" "sig = take 64 (drop (off + 32) buf)" "off + 96 \<le> length buf"
    and n: "read_varint buf (off + 96) = Ok (n, o1)" and l: "read_hashes (unat n) buf o1 = Ok (links, o2)"
    and t: "read_varint buf o2 = Ok (t, o3)" and ts: "read_varint buf o3 = Ok (ts, o4)"
    and b: "read_post_body t buf o4 = Ok (b, off')"
    and p: "p = post_new (post_header_new pk sig links t ts) b"
    by (fastforce simp: read_post_def rd_bind_eq_Ok read_slice_eq_Ok add.commute)
  note pr = read_varint_progress [OF t] read_varint_progress [OF ts] read_hashes_ok [OF n l]
  from read_post_body_eq_Ok [OF b] pr p hd show ?thesis
    by (auto simp: post_ok_def header_ok_def post_type_def post_new_def post_header_new_def)
qed

lemma post_from_bytes_ok: "post_from_bytes buf = Ok (n, p) \<Longrightarrow> post_ok p \<and> 96 < n \<and> n \<le> length buf"
  using read_post_eq_Ok [of buf 0 p n] by (auto simp: post_from_bytes_def and_then_eq_Ok)

lemma read_post_short: "length buf < off + 96 \<Longrightarrow> read_post buf off = Panic SliceIndexOutOfRange"
  by (auto simp: read_post_def rd_bind_def read_slice_def slice_def)

subsection \<open>Signing\<close>

text \<open>
  What the code relies on of the signature scheme for one pair of keys: both keys are accepted by the
  library, a signature has 64 bytes and is accepted, and verification accepts every signature made
  with the secret key.
\<close>

definition key_pair :: "crypto \<Rightarrow> public_key \<Rightarrow> u8 list \<Rightarrow> bool" where
  "key_pair cr pkb skb \<longleftrightarrow>
     (\<exists>pk sk. public_key_from_slice cr pkb = Some pk \<and> secret_key_from_slice cr skb = Some sk \<and>
        (\<forall>m. length (sign_detached cr m sk) = 64 \<and>
           (\<exists>sig. signature_from_bytes cr (sign_detached cr m sk) = Some sig \<and> verify_detached cr sig m pk)))"

definition set_signature :: "post \<Rightarrow> u8 list \<Rightarrow> post" where
  "set_signature p sig = p\<lparr>p_header := (p_header p)\<lparr>ph_signature := sig\<rparr>\<rparr>"

lemma set_signature_simps [simp]:
  "p_body (set_signature p sig) = p_body p"
  "ph_public_key (p_header (set_signature p sig)) = ph_public_key (p_header p)"
  "ph_signature (p_header (set_signature p sig)) = sig"
  "ph_links (p_header (set_signature p sig)) = ph_links (p_header p)"
  "ph_timestamp (p_header (set_signature p sig)) = ph_timestamp (p_header p)"
  "ph_post_type (p_header (set_signature p sig)) = ph_post_type (p_header p)"
  "post_signed_bytes (set_signature p sig) = post_signed_bytes p"
  "post_type (set_signature p sig) = post_type p"
  by (simp_all add: set_signature_def post_signed_bytes_def post_type_def)

lemma post_sign_eq:
  assumes "post_typed p" and "recognized (p_body p)" and "secret_key_from_slice cr skb = Some sk"
  shows "post_sign cr p skb = Ok (set_signature p (sign_detached cr (post_signed_bytes p) sk))"
proof -
  have "slice_from (post_bytes p) 96 = (Ok (post_signed_bytes p) :: u8 list res)"
    using assms(1) by (simp add: slice_from_def post_bytes_def post_typed_def)
  then show ?thesis
    using assms by (simp add: post_sign_def post_to_bytes_eq set_signature_def)
qed

lemma post_typed_set_signature: "post_typed p \<Longrightarrow> length sig = 64 \<Longrightarrow> post_typed (set_signature p sig)"
  by (simp add: post_typed_def)

lemma post_ok_set_signature: "post_ok p \<Longrightarrow> length sig = 64 \<Longrightarrow> post_ok (set_signature p sig)"
  by (simp add: post_ok_def header_ok_def)

lemma post_verify_post_bytes:
  assumes "post_typed p"
  shows "post_verify cr (post_bytes p) \<longleftrightarrow>
     (\<exists>pk sig. public_key_from_slice cr (ph_public_key (p_header p)) = Some pk \<and>
        signature_from_bytes cr (ph_signature (p_header p)) = Some sig \<and>
        verify_detached cr sig (post_signed_bytes p) pk)"
  using assms by (auto simp: post_verify_def post_bytes_def post_typed_def split: option.splits)

lemma post_sign_key_pair:
  assumes "post_typed p" and "recognized (p_body p)" and "key_pair cr (ph_public_key (p_header p)) skb"
  obtains sig where "post_sign cr p skb = Ok (set_signature p sig)" and "length sig = 64"
    and "post_verify cr (post_bytes (set_signature p sig))"
proof -
  from assms(3) obtain pk sk where pk: "public_key_from_slice cr (ph_public_key (p_header p)) = Some pk"
    and sk: "secret_key_from_slice cr skb = Some sk"
    and sig: "\<And>m. length (sign_detached cr m sk) = 64"
    and ver: "\<And>m. \<exists>sig. signature_from_bytes cr (sign_detached cr m sk) = Some sig \<and> verify_detached cr sig m pk"
    by (auto simp: key_pair_def)
  let ?sig = "sign_detached cr (post_signed_bytes p) sk"
  have "post_typed (set_signature p ?sig)"
    using assms(1) sig by (simp add: post_typed_set_signature)
  then have "post_verify cr (post_bytes (set_signature p ?sig))"
    using pk ver by (simp add: post_verify_post_bytes)
  with sig show thesis
    using post_sign_eq [OF assms(1,2) sk] that by blast
qed

text \<open>No encoding of a post is a prefix of the encoding of another one.\<close>

lemma post_encoding_prefix_free:
  assumes "post_ok p" and "recognized (p_body p)" and "post_ok q" and "recognized (p_body q)"
    and "post_to_bytes p = Ok a" and "post_to_bytes q = Ok b" and "a @ xs = b @ ys"
  shows "p = q \<and> xs = ys"
  using assms post.enc_prefix_free [of p q xs ys] by (simp add: post_to_bytes_eq post_ok_typed)

subsection \<open>Properties\<close>

text \<open>C5. Encoding then decoding a post. For every well-formed post of a known type \<^verbatim>\<open>to_bytes\<close> succeeds, the
  buffer it allocates by \<^verbatim>\<open>count_bytes\<close> is filled exactly, and \<^verbatim>\<open>from_bytes\<close> on these bytes, whatever
  follows them, consumes exactly them and returns the post.\<close>

theorem post_roundtrip:
  assumes "post_ok p" and "recognized (p_body p)"
  shows "\<exists>buf. post_to_bytes p = Ok buf \<and> length buf = post_count_bytes p \<and>
     (\<forall>rest. post_from_bytes (buf @ rest) = Ok (post_count_bytes p, p))"
  using post_to_bytes_eq [OF post_ok_typed] length_post_bytes [OF post_ok_typed]
    post_from_bytes_post_bytes assms by auto

definition sample_post :: post where
  "sample_post = post_text (replicate 32 1) [replicate 32 2] 300 [100, 101] [104, 105]"

lemma sample_post_ok: "post_ok sample_post" and sample_post_recognized: "recognized (p_body sample_post)"
  by (simp_all add: sample_post_def post_text_def post_new_def post_header_new_def post_ok_def header_ok_def
      hashes_ok_def post_type_def channel_ok_def utf8_valid_def chars_count_def post_type_defs)

theorem post_roundtrip_witness:
  "\<exists>buf. post_to_bytes sample_post = Ok buf \<and> length buf = post_count_bytes sample_post \<and>
     (\<forall>rest. post_from_bytes (buf @ rest) = Ok (post_count_bytes sample_post, sample_post))"
  by (rule post_roundtrip [OF sample_post_ok sample_post_recognized])

text \<open>C12. Whatever bytes a peer sends, a post that \<^verbatim>\<open>from_bytes\<close> returns is well formed: its text, topic,
  channel and user names are valid UTF-8 within the limits that are checked, its header names the type
  of its body, and no more bytes are consumed than there are.\<close>

theorem post_from_bytes_well_formed:
  assumes "post_from_bytes buf = Ok (n, p)"
  shows "post_ok p \<and> 96 < n \<and> n \<le> length buf"
  using post_from_bytes_ok [OF assms] .

theorem post_from_bytes_well_formed_witness:
  "post_ok sample_post \<and> 96 < length (post_bytes sample_post) \<and>
     length (post_bytes sample_post) \<le> length (post_bytes sample_post @ [7])"
  by (rule post_from_bytes_well_formed, rule post_from_bytes_post_bytes, rule sample_post_ok)

text \<open>Re-encoding is stable: a decoded post of a known type can be encoded again, and decoding that
  encoding gives the same post.\<close>

lemma post_decode_encode_decode:
  assumes "post_from_bytes buf = Ok (n, p)" and "recognized (p_body p)"
  shows "\<exists>buf'. post_to_bytes p = Ok buf' \<and> post_from_bytes buf' = Ok (length buf', p)"
  using post_from_bytes_ok [OF assms(1)] post_to_bytes_eq [OF post_ok_typed _] assms(2)
    post_from_bytes_post_bytes [of p "[]"] by auto

text \<open>C11. Signing. With a key pair of the signature scheme, \<^verbatim>\<open>sign\<close> succeeds on a well-formed post, changes
  nothing but the signature, keeps the post well formed, and the bytes of the signed post pass
  \<^verbatim>\<open>verify\<close>.\<close>

theorem post_sign_verify:
  assumes "post_ok p" and "recognized (p_body p)" and "key_pair cr (ph_public_key (p_header p)) sk"
  shows "\<exists>sig buf. post_sign cr p sk = Ok (set_signature p sig) \<and> post_ok (set_signature p sig) \<and>
     post_to_bytes (set_signature p sig) = Ok buf \<and> post_verify cr buf"
proof -
  from assms obtain sig where s: "post_sign cr p sk = Ok (set_signature p sig)" "length sig = 64"
    "post_verify cr (post_bytes (set_signature p sig))" by (rule post_sign_key_pair [OF post_ok_typed])
  with post_ok_set_signature [OF assms(1) s(2)] assms(2) show ?thesis
    by (auto simp: post_to_bytes_eq [OF post_ok_typed])
qed

text \<open>A scheme that only records its message, to show that the hypotheses can hold.\<close>

definition sample_crypto :: crypto where
  "sample_crypto =
     \<lparr>generichash_hash = (\<lambda>bs. Some (take 32 (bs @ replicate 32 0))),
      secret_key_from_slice = (\<lambda>bs. if length bs = 64 then Some bs else None),
      sign_detached = (\<lambda>m sk. take 64 (m @ replicate 64 0)),
      public_key_from_slice = (\<lambda>bs. if length bs = 32 then Some bs else None),
      signature_from_bytes = (\<lambda>bs. if length bs = 64 then Some bs else None),
      verify_detached = (\<lambda>sig m pk. sig = take 64 (m @ replicate 64 0))\<rparr>"

lemma sample_key_pair: "length pk = 32 \<Longrightarrow> length sk = 64 \<Longrightarrow> key_pair sample_crypto pk sk"
  by (auto simp: key_pair_def sample_crypto_def)

theorem post_sign_verify_witness:
  "\<exists>sig buf. post_sign sample_crypto sample_post (replicate 64 1) = Ok (set_signature sample_post sig) \<and>
     post_ok (set_signature sample_post sig) \<and>
     post_to_bytes (set_signature sample_post sig) = Ok buf \<and> post_verify sample_crypto buf"
  by (rule post_sign_verify [OF sample_post_ok sample_post_recognized], rule sample_key_pair)
    (simp_all add: sample_post_def post_text_def post_new_def post_header_new_def)

text \<open>C37. A received buffer shorter than the fixed header makes \<^verbatim>\<open>from_bytes\<close> panic instead of returning an
  error, while \<^verbatim>\<open>verify\<close> rejects the same buffer: the decoder is safe only behind the check of the
  signature.\<close>

theorem post_from_bytes_short_panics:
  assumes "length buf < 96"
  shows "post_from_bytes buf = Panic SliceIndexOutOfRange \<and> \<not> post_verify cr buf"
  using assms read_post_short [of buf 0] by (simp add: post_from_bytes_def post_verify_def)

theorem post_from_bytes_short_panics_witness:
  "post_from_bytes [1, 2, 3] = Panic SliceIndexOutOfRange \<and> \<not> post_verify sample_crypto [1, 2, 3]"
  by (rule post_from_bytes_short_panics) simp

end
