(* ===== verification/Core_Stream.thy ===== *)
theory Core_Stream
  imports Cable_Post
begin

text \<open>
  \<^verbatim>\<open>cable_core/src/stream.rs\<close>: the live streams of a store. A \<^verbatim>\<open>LiveStream\<close> and its clones share one bounded
  channel; the record holds the posts queued in it. The waker of the task that polls the stream is a
  flag: whether one is registered. The list of the streams of a channel (\<^verbatim>\<open>live_streams\<close>, shared by all of
  them) is the argument of the operations that read or write it.
\<close>

record live_stream =
  ls_id :: nat
  ls_options :: channel_options
  ls_capacity :: nat
  ls_queue :: "post list"
  ls_waker :: bool

definition live_stream_new :: "nat \<Rightarrow> channel_options \<Rightarrow> live_stream res" where
  "live_stream_new sid opts =
     (let limit = unat (opt_limit opts)
      in if limit = 0 then Panic CapacityZero
         else Ok \<lparr>ls_id = sid, ls_options = opts, ls_capacity = limit, ls_queue = [], ls_waker = False\<rparr>)"

text \<open>\<^verbatim>\<open>send\<close>: a full channel drops the post (the error is only logged). The second component says whether a
  registered waker is woken.\<close>

definition live_stream_send :: "post \<Rightarrow> live_stream \<Rightarrow> live_stream \<times> bool" where
  "live_stream_send p ls =
     ((if length (ls_queue ls) < ls_capacity ls then ls\<lparr>ls_queue := ls_queue ls @ [p]\<rparr> else ls), ls_waker ls)"

definition live_stream_matches :: "live_stream \<Rightarrow> post \<Rightarrow> bool" where
  "live_stream_matches ls p =
     (if Some (opt_channel (ls_options ls)) \<noteq> get_channel p then False
      else let start = opt_time_start (ls_options ls); end_time = opt_time_end (ls_options ls); ts = get_timestamp p
           in if start = 0 \<and> end_time = 0 then True
              else if start = 0 then ts \<le> end_time
              else if end_time = 0 then start \<le> ts
              else start \<le> ts \<and> ts \<le> end_time)"

datatype 'a poll = Ready 'a | Pending

text \<open>\<^verbatim>\<open>poll_next\<close>. The stream owns a sender of its own channel, so the channel is never closed and the error
  branch of the code is not reached.\<close>

definition live_stream_poll_next :: "live_stream \<Rightarrow> live_stream \<times> post poll" where
  "live_stream_poll_next ls =
     (case ls_queue ls of
        p # ps \<Rightarrow> (ls\<lparr>ls_queue := ps, ls_waker := False\<rparr>, Ready p)
      | [] \<Rightarrow> (ls\<lparr>ls_waker := True\<rparr>, Pending))"

text \<open>\<^verbatim>\<open>drop\<close>: the loop over the index \<^verbatim>\<open>i\<close> that removes every stream of the list with the same identifier.\<close>

function live_stream_drop_loop :: "nat \<Rightarrow> nat \<Rightarrow> live_stream list \<Rightarrow> live_stream list" where
  "live_stream_drop_loop sid i streams =
     (if i < length streams then
        if ls_id (streams ! i) = sid
        then live_stream_drop_loop sid i (take i streams @ drop (Suc i) streams)
        else live_stream_drop_loop sid (i + 1) streams
      else streams)"
  by pat_completeness auto
termination
  by (relation "measure (\<lambda>(sid, i, streams). length streams - i)") auto

declare live_stream_drop_loop.simps [simp del]

definition live_stream_drop :: "live_stream \<Rightarrow> live_stream list \<Rightarrow> live_stream list" where
  "live_stream_drop ls streams = live_stream_drop_loop (ls_id ls) 0 streams"

subsection \<open>Facts\<close>

lemma live_stream_drop_loop_eq:
  "i \<le> length streams \<Longrightarrow>
     live_stream_drop_loop sid i streams = take i streams @ filter (\<lambda>s. ls_id s \<noteq> sid) (drop i streams)"
proof (induction sid i streams rule: live_stream_drop_loop.induct)
  case (1 sid i streams)
  show ?case
  proof (cases "i < length streams")
    case True
    then have d: "drop i streams = streams ! i # drop (Suc i) streams" by (rule Cons_nth_drop_Suc [symmetric])
    have t: "take (Suc i) streams = take i streams @ [streams ! i]" using True by (rule take_Suc_conv_app_nth)
    show ?thesis
      using 1 True d t by (subst live_stream_drop_loop.simps) auto
  qed (use 1 in \<open>simp add: live_stream_drop_loop.simps\<close>)
qed

lemma live_stream_drop_eq: "live_stream_drop ls streams = filter (\<lambda>s. ls_id s \<noteq> ls_id ls) streams"
  by (simp add: live_stream_drop_def live_stream_drop_loop_eq)

text \<open>The queue never exceeds the capacity.\<close>

definition live_stream_ok :: "live_stream \<Rightarrow> bool" where
  "live_stream_ok ls \<longleftrightarrow> 0 < ls_capacity ls \<and> ls_capacity ls = unat (opt_limit (ls_options ls)) \<and>
     length (ls_queue ls) \<le> ls_capacity ls \<and> list_all (live_stream_matches ls) (ls_queue ls)"

lemma live_stream_matches_update [simp]:
  "live_stream_matches (ls\<lparr>ls_queue := q\<rparr>) = live_stream_matches ls"
  "live_stream_matches (ls\<lparr>ls_waker := w\<rparr>) = live_stream_matches ls"
  by (simp_all add: fun_eq_iff live_stream_matches_def)

lemma live_stream_ok_new: "live_stream_new sid opts = Ok ls \<Longrightarrow> live_stream_ok ls"
  by (auto simp: live_stream_new_def live_stream_ok_def Let_def split: if_splits)

lemma live_stream_ok_send:
  assumes "live_stream_ok ls" and "live_stream_matches ls p"
  shows "live_stream_ok (fst (live_stream_send p ls))"
  using assms
  by (auto simp: live_stream_ok_def live_stream_send_def list_all_iff)

lemma live_stream_ok_poll: "live_stream_ok ls \<Longrightarrow> live_stream_ok (fst (live_stream_poll_next ls))"
  by (auto simp: live_stream_ok_def live_stream_poll_next_def list_all_iff split: list.splits)

subsection \<open>Properties\<close>

text \<open>C38. Dropping a live stream terminates and removes exactly the streams with its identifier from the shared
  list, in one pass, keeping the others in order.\<close>

theorem live_stream_drop_exact:
  "live_stream_drop ls streams = filter (\<lambda>s. ls_id s \<noteq> ls_id ls) streams"
  by (rule live_stream_drop_eq)

end
