(* ===== verification/Rust_Collections.thy ===== *)
theory Rust_Collections
  imports Rust_Prelude "HOL-Library.AList" "HOL-Library.List_Lexorder"
begin

text \<open>
  The collections of the standard library that the stores and the manager use.

  \<^item> A \<^verbatim>\<open>HashMap\<close> is an association list with distinct keys. The position of an entry stands for the
    iteration order, which Rust leaves unspecified; no property depends on it.
  \<^item> A \<^verbatim>\<open>BTreeMap\<close> is an association list whose keys are strictly ascending, so \<^verbatim>\<open>iter\<close>,
    \<^verbatim>\<open>range\<close> and \<^verbatim>\<open>last_key_value\<close> are \<open>id\<close>, \<open>filter\<close> and \<open>last\<close>.
  \<^item> A \<^verbatim>\<open>BTreeSet\<close> is a strictly ascending list, a \<^verbatim>\<open>HashSet\<close> a list without duplicates.
\<close>

type_synonym ('k, 'v) hashmap = "('k \<times> 'v) list"
type_synonym ('k, 'v) btreemap = "('k \<times> 'v) list"
type_synonym 'k btreeset = "'k list"
type_synonym 'k hashset = "'k list"

abbreviation hm_get :: "('k, 'v) hashmap \<Rightarrow> 'k \<Rightarrow> 'v option" where
  "hm_get \<equiv> map_of"

abbreviation hm_insert :: "'k \<Rightarrow> 'v \<Rightarrow> ('k, 'v) hashmap \<Rightarrow> ('k, 'v) hashmap" where
  "hm_insert \<equiv> AList.update"

abbreviation hm_remove :: "'k \<Rightarrow> ('k, 'v) hashmap \<Rightarrow> ('k, 'v) hashmap" where
  "hm_remove \<equiv> AList.delete"

definition hm_contains :: "('k, 'v) hashmap \<Rightarrow> 'k \<Rightarrow> bool" where
  "hm_contains m k \<longleftrightarrow> map_of m k \<noteq> None"

definition hm_retain :: "('k \<Rightarrow> 'v \<Rightarrow> bool) \<Rightarrow> ('k, 'v) hashmap \<Rightarrow> ('k, 'v) hashmap" where
  "hm_retain P m = filter (\<lambda>(k, v). P k v) m"

text \<open>\<^verbatim>\<open>m.iter_mut().for_each(|(_, v)| *v = f(v))\<close>\<close>

definition hm_map_values :: "('v \<Rightarrow> 'w) \<Rightarrow> ('k, 'v) hashmap \<Rightarrow> ('k, 'w) hashmap" where
  "hm_map_values f m = map (\<lambda>(k, v). (k, f v)) m"

definition hm_wf :: "('k, 'v) hashmap \<Rightarrow> bool" where
  "hm_wf m \<longleftrightarrow> distinct (map fst m)"

fun bt_insert :: "'k :: linorder \<Rightarrow> 'v \<Rightarrow> ('k, 'v) btreemap \<Rightarrow> ('k, 'v) btreemap" where
  "bt_insert k v [] = [(k, v)]"
| "bt_insert k v ((k', v') # m) =
     (if k < k' then (k, v) # (k', v') # m
      else if k = k' then (k, v) # m
      else (k', v') # bt_insert k v m)"

definition bt_last :: "('k, 'v) btreemap \<Rightarrow> ('k \<times> 'v) option" where
  "bt_last m = (if m = [] then None else Some (last m))"

definition bt_wf :: "('k :: linorder, 'v) btreemap \<Rightarrow> bool" where
  "bt_wf m \<longleftrightarrow> sorted_wrt (<) (map fst m)"

fun bts_insert :: "'k :: linorder \<Rightarrow> 'k btreeset \<Rightarrow> 'k btreeset" where
  "bts_insert k [] = [k]"
| "bts_insert k (k' # s) =
     (if k < k' then k # k' # s else if k = k' then k' # s else k' # bts_insert k s)"

abbreviation hs_insert :: "'k \<Rightarrow> 'k hashset \<Rightarrow> 'k hashset" where
  "hs_insert \<equiv> List.insert"

definition hs_remove :: "'k \<Rightarrow> 'k hashset \<Rightarrow> 'k hashset" where
  "hs_remove k s = filter (\<lambda>x. x \<noteq> k) s"

lemma set_hs_remove [simp]: "set (hs_remove k s) = set s - {k}"
  by (auto simp: hs_remove_def)

subsection \<open>Lookup after update\<close>

lemma hm_get_insert [simp]: "hm_get (hm_insert k v m) k' = (if k' = k then Some v else hm_get m k')"
  by (simp add: update_conv')

lemma hm_get_remove [simp]: "hm_get (hm_remove k m) k' = (if k' = k then None else hm_get m k')"
  by (simp add: delete_conv')

lemma hm_get_map_values [simp]: "hm_get (hm_map_values f m) k = map_option f (hm_get m k)"
  by (induction m) (auto simp: hm_map_values_def)

lemma hm_wf_Nil [simp]: "hm_wf []"
  by (simp add: hm_wf_def)

lemma hm_wf_insert [simp]: "hm_wf m \<Longrightarrow> hm_wf (hm_insert k v m)"
  by (simp add: hm_wf_def distinct_update)

lemma hm_wf_remove [simp]: "hm_wf m \<Longrightarrow> hm_wf (hm_remove k m)"
  by (simp add: hm_wf_def distinct_delete)

lemma hm_wf_map_values [simp]: "hm_wf (hm_map_values f m) = hm_wf m"
  by (simp add: hm_wf_def hm_map_values_def split_beta comp_def)

lemma hm_wf_retain [simp]: "hm_wf m \<Longrightarrow> hm_wf (hm_retain P m)"
  unfolding hm_wf_def hm_retain_def by (rule distinct_map_filter)

lemma hm_get_retain:
  "hm_wf m \<Longrightarrow> hm_get (hm_retain P m) k =
     (case hm_get m k of None \<Rightarrow> None | Some v \<Rightarrow> if P k v then Some v else None)"
  by (induction m) (auto simp: hm_retain_def hm_wf_def map_of_eq_None_iff split: option.splits)

lemma set_hm_retain [simp]: "set (hm_retain P m) = {(k, v) \<in> set m. P k v}"
  by (auto simp: hm_retain_def)

lemma hm_get_eq_Some: "hm_wf m \<Longrightarrow> hm_get m k = Some v \<longleftrightarrow> (k, v) \<in> set m"
  by (simp add: hm_wf_def)

lemma set_hm_insert: "hm_wf m \<Longrightarrow> set (hm_insert k v m) = insert (k, v) {(k', v') \<in> set m. k' \<noteq> k}"
  by (auto simp flip: hm_get_eq_Some hm_get_eq_Some [OF hm_wf_insert] split: if_splits)

lemma set_hm_insert_subset: "set (hm_insert k v m) \<subseteq> insert (k, v) (set m)"
  by (induction m) auto

lemma set_hm_remove_subset: "set (hm_remove k m) \<subseteq> set m"
  by (auto simp: AList.delete_eq)

lemma bt_get_insert [simp]:
  "bt_wf m \<Longrightarrow> map_of (bt_insert k v m) k' = (if k' = k then Some v else map_of m k')"
  by (induction m) (auto simp: bt_wf_def)

lemma fst_set_bt_insert [simp]: "fst ` set (bt_insert k v m) = insert k (fst ` set m)"
  by (induction k v m rule: bt_insert.induct) (simp_all add: insert_commute)

lemma bt_wf_Nil [simp]: "bt_wf []"
  by (simp add: bt_wf_def)

lemma bt_wf_insert [simp]: "bt_wf m \<Longrightarrow> bt_wf (bt_insert k v m)"
proof (induction m)
  case (Cons p m)
  then show ?case
    using fst_set_bt_insert [of k v m] by (cases p) (auto simp: bt_wf_def)
qed (simp add: bt_wf_def)

lemma bt_wf_hm_wf: "bt_wf m \<Longrightarrow> hm_wf m"
  by (auto simp: bt_wf_def hm_wf_def strict_sorted_iff)

lemma bt_wf_filter [simp]: "bt_wf m \<Longrightarrow> bt_wf (filter P m)"
  by (simp add: bt_wf_def sorted_wrt_map sorted_wrt_filter)

lemma bt_wf_map_values [simp]: "bt_wf (hm_map_values f m) = bt_wf m"
  by (simp add: bt_wf_def hm_map_values_def split_beta comp_def)

lemma set_bts_insert [simp]: "set (bts_insert k s) = insert k (set s)"
  by (induction s) auto

lemma sorted_bts_insert: "sorted_wrt (<) s \<Longrightarrow> sorted_wrt (<) (bts_insert k s)"
  by (induction s) auto

text \<open>\<^verbatim>\<open>last_key_value\<close> of a non-empty map is the entry of the greatest key.\<close>

lemma bt_last_None [simp]: "bt_last m = None \<longleftrightarrow> m = []"
  by (simp add: bt_last_def)

lemma bt_last_eq_Some:
  assumes "bt_wf m"
  shows "bt_last m = Some (k, v) \<longleftrightarrow> map_of m k = Some v \<and> (\<forall>k' \<in> fst ` set m. k' \<le> k)"
proof (cases m rule: rev_cases)
  case (snoc m' p)
  with assms have lt: "\<forall>k' \<in> fst ` set m'. k' < fst p" and d: "hm_wf m"
    by (auto simp: bt_wf_def sorted_wrt_append intro: bt_wf_hm_wf)
  show ?thesis
    using lt hm_get_eq_Some [OF d, of k v] snoc by (force simp: bt_last_def)
qed (simp add: bt_last_def)

end
