(* ===== verification/Rust_State.thy ===== *)
theory Rust_State
  imports Workspace_Errors
begin

text \<open>
  Methods that take \<^verbatim>\<open>&mut self\<close> (or lock a shared field) and return a \<^verbatim>\<open>Result\<close>. A method is a function from the
  state to the state it leaves behind and its result: an early return with \<^verbatim>\<open>?\<close> or a panic keeps the
  changes made before it. \<open>keeps\<close> says that a method preserves an invariant on every path, the
  erroneous ones included; the rules collected in \<open>keeps_intros\<close> follow the structure of the code.
\<close>

named_theorems keeps_intros "methods that preserve an invariant"

type_synonym ('s, 'a) action = "'s \<Rightarrow> 's \<times> 'a res"

definition m_return :: "'a \<Rightarrow> ('s, 'a) action" where
  "m_return x s = (s, Ok x)"

text \<open>\<^verbatim>\<open>let x = m?; ...\<close>\<close>

definition m_bind :: "('s, 'a) action \<Rightarrow> ('a \<Rightarrow> ('s, 'b) action) \<Rightarrow> ('s, 'b) action" where
  "m_bind m f s =
     (case m s of
        (s', Ok x) \<Rightarrow> f x s'
      | (s', Err e) \<Rightarrow> (s', Err e)
      | (s', Panic p) \<Rightarrow> (s', Panic p))"

definition m_then :: "('s, 'a) action \<Rightarrow> ('s, 'b) action \<Rightarrow> ('s, 'b) action" where
  "m_then m n = m_bind m (\<lambda>_. n)"

text \<open>A computation that does not touch the state, a read of the state, and an update that cannot fail.\<close>

definition m_lift :: "'a res \<Rightarrow> ('s, 'a) action" where
  "m_lift r s = (s, r)"

definition m_get :: "('s \<Rightarrow> 'a) \<Rightarrow> ('s, 'a) action" where
  "m_get f s = (s, Ok (f s))"

definition m_modify :: "('s \<Rightarrow> 's) \<Rightarrow> ('s, unit) action" where
  "m_modify f s = (f s, Ok ())"

text \<open>\<^verbatim>\<open>r.unwrap()\<close>, of a result and of a method.\<close>

definition unwrap :: "'a res \<Rightarrow> 'a res" where
  "unwrap r = (case r of Ok x \<Rightarrow> Ok x | Err e \<Rightarrow> Panic UnwrapErr | Panic p \<Rightarrow> Panic p)"

definition m_unwrap :: "('s, 'a) action \<Rightarrow> ('s, 'a) action" where
  "m_unwrap m s = (case m s of (s', r) \<Rightarrow> (s', unwrap r))"

text \<open>\<^verbatim>\<open>for x in xs { body }\<close>\<close>

primrec m_each :: "('a \<Rightarrow> ('s, unit) action) \<Rightarrow> 'a list \<Rightarrow> ('s, unit) action" where
  "m_each f [] = m_return ()"
| "m_each f (x # xs) = m_then (f x) (m_each f xs)"

definition keeps :: "('s \<Rightarrow> bool) \<Rightarrow> ('s, 'a) action \<Rightarrow> bool" where
  "keeps I m \<longleftrightarrow> (\<forall>s. I s \<longrightarrow> I (fst (m s)))"

lemma keepsD: "keeps I m \<Longrightarrow> I s \<Longrightarrow> I (fst (m s))"
  by (simp add: keeps_def)

lemma keeps_return [keeps_intros]: "keeps I (m_return x)"
  by (simp add: keeps_def m_return_def)

lemma keeps_lift [keeps_intros]: "keeps I (m_lift r)"
  by (simp add: keeps_def m_lift_def)

lemma keeps_get [keeps_intros]: "keeps I (m_get f)"
  by (simp add: keeps_def m_get_def)

lemma keeps_modify: "(\<And>s. I s \<Longrightarrow> I (f s)) \<Longrightarrow> keeps I (m_modify f)"
  by (simp add: keeps_def m_modify_def)

lemma keeps_unwrap [keeps_intros]: "keeps I m \<Longrightarrow> keeps I (m_unwrap m)"
  unfolding keeps_def m_unwrap_def by (fastforce split: prod.split)

lemma keeps_bind [keeps_intros]: "keeps I m \<Longrightarrow> (\<And>x. keeps I (f x)) \<Longrightarrow> keeps I (m_bind m f)"
  unfolding keeps_def m_bind_def by (fastforce split: prod.split result.split)

lemma keeps_then [keeps_intros]: "keeps I m \<Longrightarrow> keeps I n \<Longrightarrow> keeps I (m_then m n)"
  unfolding m_then_def by (rule keeps_bind)

lemma keeps_each [keeps_intros]: "(\<And>x. x \<in> set xs \<Longrightarrow> keeps I (f x)) \<Longrightarrow> keeps I (m_each f xs)"
  by (induction xs) (auto intro: keeps_intros)

lemma keeps_if [keeps_intros]: "(b \<Longrightarrow> keeps I m) \<Longrightarrow> (\<not> b \<Longrightarrow> keeps I n) \<Longrightarrow> keeps I (if b then m else n)"
  by simp

lemma keeps_option [keeps_intros]:
  "(x = None \<Longrightarrow> keeps I m) \<Longrightarrow> (\<And>y. x = Some y \<Longrightarrow> keeps I (f y)) \<Longrightarrow>
     keeps I (case x of None \<Rightarrow> m | Some y \<Rightarrow> f y)"
  by (cases x) auto

subsection \<open>Runs that return a value\<close>

lemma m_bind_eq_Ok:
  "m_bind m f s = (s'', Ok y) \<longleftrightarrow> (\<exists>s' x. m s = (s', Ok x) \<and> f x s' = (s'', Ok y))"
  by (auto simp: m_bind_def split: prod.splits result.splits)

lemma m_bind_Ok: "m s = (s', Ok x) \<Longrightarrow> m_bind m f s = f x s'"
  by (simp add: m_bind_def)

lemma m_bind_return [simp]: "m_bind (m_return x) f s = f x s"
  by (simp add: m_bind_def m_return_def)

lemma m_bind_get [simp]: "m_bind (m_get g) f s = f (g s) s"
  by (simp add: m_bind_def m_get_def)

lemma m_bind_lift [simp]:
  "m_bind (m_lift (Ok x)) f s = f x s"
  "m_bind (m_lift (Err e)) f s = (s, Err e)"
  "m_bind (m_lift (Panic p)) f s = (s, Panic p)"
  by (simp_all add: m_bind_def m_lift_def)

lemma m_then_modify [simp]: "m_then (m_modify g) n s = n (g s)"
  by (simp add: m_bind_def m_then_def m_modify_def)

lemma m_then_return [simp]: "m_then (m_return x) n s = n s"
  by (simp add: m_then_def)

lemma m_then_bind [simp]: "m_then (m_bind m f) n s = m_bind m (\<lambda>x. m_then (f x) n) s"
  by (simp add: m_then_def m_bind_def split: prod.split result.split)

lemma m_then_assoc: "m_then (m_then a b) c s = m_then a (m_then b c) s"
  by (simp add: m_then_def m_bind_def split: prod.split result.split)

end
