(* ===== verification/Core_Store.thy ===== *)
theory Core_Store
  imports Core_Stream Rust_Collections Rust_State
begin

text \<open>
  \<^verbatim>\<open>cable_core/src/store.rs\<close>: the \<^verbatim>\<open>Store\<close> trait and its in-memory implementation. Each field of
  \<^verbatim>\<open>MemoryStore\<close> is a field of the record \<open>store\<close>, each method an operation on it. The locks around the fields
  only serialise the accesses and are not represented: a method is one atomic step.

  The interfaces that the methods implement several times over different fields are locales: an
  append-only log by key (\<open>key_log\<close>), a log with removal (\<open>removable_log\<close>), and a register whose latest
  entry counts (\<open>latest_register\<close>). They are interpreted on the methods of the store.

  The invariant \<open>store_inv\<close>: every payload is stored under its hash, every hash that an index of the store
  mentions has a payload, and every indexed post sits under its own channel and timestamp.
\<close>

subsection \<open>State\<close>

type_synonym keypair = "u8 list \<times> u8 list"
type_synonym post_map = "(channel option, (timestamp, (post \<times> hash) list) btreemap) hashmap"

record store =
  st_keypair :: keypair
  st_channels :: "channel btreeset"
  st_channel_members :: "(channel, public_key list) hashmap"
  st_ex_channel_members :: "(channel, public_key list) hashmap"
  st_channel_membership :: "(channel, (public_key, hash) hashmap) hashmap"
  st_channel_topics :: "(channel, (timestamp, topic \<times> hash) btreemap) hashmap"
  st_delete_hashes :: "(public_key, hash list) hashmap"
  st_info_hashes :: "(public_key, hash list) hashmap"
  st_peer_names :: "(public_key, (timestamp, nickname \<times> hash) btreemap) hashmap"
  st_posts :: post_map
  st_post_payloads :: "(hash, payload) hashmap"
  st_live_streams :: "(channel, live_stream list) hashmap"
  st_live_stream_id :: nat

text \<open>\<^verbatim>\<open>MemoryStore::default\<close>, for the key pair that the library generates.\<close>

definition store_default :: "keypair \<Rightarrow> store" where
  "store_default kp =
     \<lparr>st_keypair = kp, st_channels = [], st_channel_members = [], st_ex_channel_members = [],
      st_channel_membership = [], st_channel_topics = [], st_delete_hashes = [], st_info_hashes = [],
      st_peer_names = [], st_posts = [], st_post_payloads = [], st_live_streams = [], st_live_stream_id = 0\<rparr>"

subsection \<open>Key pair and channels\<close>

definition get_keypair :: "store \<Rightarrow> keypair option" where
  "get_keypair st = Some (st_keypair st)"

definition set_keypair :: "keypair \<Rightarrow> store \<Rightarrow> store" where
  "set_keypair kp st = st\<lparr>st_keypair := kp\<rparr>"

definition get_or_create_keypair :: "keypair \<Rightarrow> store \<Rightarrow> store \<times> keypair" where
  "get_or_create_keypair generated st =
     (case get_keypair st of Some kp \<Rightarrow> (st, kp) | None \<Rightarrow> (set_keypair generated st, generated))"

definition get_channels :: "store \<Rightarrow> channel list option" where
  "get_channels st = (if st_channels st = [] then None else Some (st_channels st))"

definition insert_channel :: "channel \<Rightarrow> store \<Rightarrow> store" where
  "insert_channel ch st = st\<lparr>st_channels := bts_insert ch (st_channels st)\<rparr>"

subsection \<open>Membership\<close>

text \<open>The pattern \<^verbatim>\<open>if let Some(xs) = m.get_mut(k) { xs.push(v) } else { m.insert(k, vec![v]) }\<close>.\<close>

definition hm_push :: "'k \<Rightarrow> 'v \<Rightarrow> ('k, 'v list) hashmap \<Rightarrow> ('k, 'v list) hashmap" where
  "hm_push k v m =
     (case hm_get m k of Some vs \<Rightarrow> hm_insert k (vs @ [v]) m | None \<Rightarrow> hm_insert k [v] m)"

text \<open>The pattern \<^verbatim>\<open>if let Some(xs) = m.get_mut(k) { xs.retain(|x| x != v) }\<close>.\<close>

definition hm_retain_neq :: "'k \<Rightarrow> 'v \<Rightarrow> ('k, 'v list) hashmap \<Rightarrow> ('k, 'v list) hashmap" where
  "hm_retain_neq k v m =
     (case hm_get m k of Some vs \<Rightarrow> hm_insert k (filter (\<lambda>x. x \<noteq> v) vs) m | None \<Rightarrow> m)"

definition get_channel_members :: "store \<Rightarrow> channel \<Rightarrow> public_key list option" where
  "get_channel_members st ch = hm_get (st_channel_members st) ch"

definition insert_channel_member :: "channel \<Rightarrow> public_key \<Rightarrow> store \<Rightarrow> store" where
  "insert_channel_member ch pk st = st\<lparr>st_channel_members := hm_push ch pk (st_channel_members st)\<rparr>"

definition is_channel_member :: "store \<Rightarrow> channel \<Rightarrow> public_key \<Rightarrow> bool" where
  "is_channel_member st ch pk =
     (case get_channel_members st ch of Some members \<Rightarrow> pk \<in> set members | None \<Rightarrow> False)"

definition remove_channel_member :: "channel \<Rightarrow> public_key \<Rightarrow> store \<Rightarrow> store" where
  "remove_channel_member ch pk st = st\<lparr>st_channel_members := hm_retain_neq ch pk (st_channel_members st)\<rparr>"

definition get_channel_membership_hashes :: "store \<Rightarrow> channel \<Rightarrow> hash list option" where
  "get_channel_membership_hashes st ch = map_option (map snd) (hm_get (st_channel_membership st) ch)"

definition remove_channel_membership_hash :: "hash \<Rightarrow> store \<Rightarrow> store" where
  "remove_channel_membership_hash h st =
     st\<lparr>st_channel_membership :=
          hm_map_values (hm_retain (\<lambda>_ stored_hash. stored_hash \<noteq> h)) (st_channel_membership st)\<rparr>"

definition update_channel_membership_hashes :: "channel \<Rightarrow> public_key \<Rightarrow> hash \<Rightarrow> store \<Rightarrow> store" where
  "update_channel_membership_hashes ch pk h st =
     st\<lparr>st_channel_membership :=
          (case hm_get (st_channel_membership st) ch of
             Some membership_map \<Rightarrow> hm_insert ch (hm_insert pk h membership_map) (st_channel_membership st)
           | None \<Rightarrow> hm_insert ch (hm_insert pk h []) (st_channel_membership st))\<rparr>"

definition get_ex_channel_members :: "store \<Rightarrow> channel \<Rightarrow> public_key list option" where
  "get_ex_channel_members st ch = hm_get (st_ex_channel_members st) ch"

definition insert_ex_channel_member :: "channel \<Rightarrow> public_key \<Rightarrow> store \<Rightarrow> store" where
  "insert_ex_channel_member ch pk st = st\<lparr>st_ex_channel_members := hm_push ch pk (st_ex_channel_members st)\<rparr>"

definition remove_ex_channel_member :: "channel \<Rightarrow> public_key \<Rightarrow> store \<Rightarrow> store" where
  "remove_ex_channel_member ch pk st =
     st\<lparr>st_ex_channel_members := hm_retain_neq ch pk (st_ex_channel_members st)\<rparr>"

subsection \<open>Topics and names\<close>

text \<open>\<^verbatim>\<open>topics.last_key_value().map(|(_, (topic, hash))| (topic, hash))\<close> and the insertion by timestamp.\<close>

definition latest_entry :: "('k, (timestamp, 'v) btreemap) hashmap \<Rightarrow> 'k \<Rightarrow> 'v option" where
  "latest_entry m k = Option.bind (hm_get m k) (\<lambda>entries. map_option snd (bt_last entries))"

definition insert_entry ::
  "'k \<Rightarrow> timestamp \<Rightarrow> 'v \<Rightarrow> ('k, (timestamp, 'v) btreemap) hashmap \<Rightarrow> ('k, (timestamp, 'v) btreemap) hashmap" where
  "insert_entry k ts v m =
     (case hm_get m k of
        Some entries \<Rightarrow> hm_insert k (bt_insert ts v entries) m
      | None \<Rightarrow> hm_insert k (bt_insert ts v []) m)"

definition remove_entries ::
  "hash \<Rightarrow> ('k, (timestamp, 'a \<times> hash) btreemap) hashmap \<Rightarrow> ('k, (timestamp, 'a \<times> hash) btreemap) hashmap" where
  "remove_entries h m = hm_map_values (filter (\<lambda>(_, (_, stored_hash)). stored_hash \<noteq> h)) m"

definition get_channel_topic_and_hash :: "store \<Rightarrow> channel \<Rightarrow> (topic \<times> hash) option" where
  "get_channel_topic_and_hash st ch = latest_entry (st_channel_topics st) ch"

definition insert_channel_topic :: "channel \<Rightarrow> topic \<Rightarrow> timestamp \<Rightarrow> hash \<Rightarrow> store \<Rightarrow> store" where
  "insert_channel_topic ch tp ts h st =
     st\<lparr>st_channel_topics := insert_entry ch ts (tp, h) (st_channel_topics st)\<rparr>"

definition remove_channel_topic :: "hash \<Rightarrow> store \<Rightarrow> store" where
  "remove_channel_topic h st = st\<lparr>st_channel_topics := remove_entries h (st_channel_topics st)\<rparr>"

definition get_peer_name_and_hash :: "store \<Rightarrow> public_key \<Rightarrow> (nickname \<times> hash) option" where
  "get_peer_name_and_hash st pk = latest_entry (st_peer_names st) pk"

definition insert_peer_name :: "public_key \<Rightarrow> nickname \<Rightarrow> timestamp \<Rightarrow> hash \<Rightarrow> store \<Rightarrow> store" where
  "insert_peer_name pk name ts h st = st\<lparr>st_peer_names := insert_entry pk ts (name, h) (st_peer_names st)\<rparr>"

definition remove_peer_name :: "hash \<Rightarrow> store \<Rightarrow> store" where
  "remove_peer_name h st = st\<lparr>st_peer_names := remove_entries h (st_peer_names st)\<rparr>"

subsection \<open>Delete and info hashes\<close>

definition get_delete_hashes :: "store \<Rightarrow> public_key \<Rightarrow> hash list option" where
  "get_delete_hashes st pk = hm_get (st_delete_hashes st) pk"

definition insert_delete_hash :: "public_key \<Rightarrow> hash \<Rightarrow> store \<Rightarrow> store" where
  "insert_delete_hash pk h st = st\<lparr>st_delete_hashes := hm_push pk h (st_delete_hashes st)\<rparr>"

definition get_info_hashes :: "store \<Rightarrow> public_key \<Rightarrow> hash list option" where
  "get_info_hashes st pk = hm_get (st_info_hashes st) pk"

definition insert_info_hash :: "public_key \<Rightarrow> hash \<Rightarrow> store \<Rightarrow> store" where
  "insert_info_hash pk h st = st\<lparr>st_info_hashes := hm_push pk h (st_info_hashes st)\<rparr>"

definition remove_info_hash :: "hash \<Rightarrow> store \<Rightarrow> store" where
  "remove_info_hash h st =
     st\<lparr>st_info_hashes := hm_map_values (filter (\<lambda>stored_hash. stored_hash \<noteq> h)) (st_info_hashes st)\<rparr>"

subsection \<open>Posts\<close>

definition get_latest_hashes :: "store \<Rightarrow> channel \<Rightarrow> hash list option" where
  "get_latest_hashes st ch =
     (case hm_get (st_posts st) (Some ch) of
        Some posts_btree \<Rightarrow> map_option (\<lambda>(_, post_vec). map snd post_vec) (bt_last posts_btree)
      | None \<Rightarrow> None)"

text \<open>\<^verbatim>\<open>BTreeMap::range\<close> over the four forms of the bounds; it panics when the start is after the end.\<close>

definition bt_range :: "timestamp \<Rightarrow> timestamp \<Rightarrow> (timestamp, 'v) btreemap \<Rightarrow> ((timestamp, 'v) btreemap) res" where
  "bt_range start end_time m =
     (if start = 0 \<and> end_time = 0 then Ok m
      else if start = 0 then Ok (filter (\<lambda>(t, _). t < end_time) m)
      else if end_time = 0 then Ok (filter (\<lambda>(t, _). start \<le> t) m)
      else if start > end_time then Panic RangeStartAfterEnd
      else Ok (filter (\<lambda>(t, _). start \<le> t \<and> t < end_time) m))"

definition channel_entries :: "store \<Rightarrow> channel_options \<Rightarrow> ((post \<times> hash) list) res" where
  "channel_entries st opts =
     (case hm_get (st_posts st) (Some (opt_channel opts)) of
        Some m \<Rightarrow> and_then (bt_range (opt_time_start opts) (opt_time_end opts) m) (\<lambda>r. Ok (concat (map snd r)))
      | None \<Rightarrow> Ok [])"

definition get_posts :: "store \<Rightarrow> channel_options \<Rightarrow> (post list) res" where
  "get_posts st opts =
     and_then (channel_entries st opts) (\<lambda>posts.
       let non_channel_posts =
             (case hm_get (st_posts st) None of Some m \<Rightarrow> concat (map snd m) | None \<Rightarrow> [])
       in Ok (map fst posts @ map fst non_channel_posts))"

definition get_post_hashes :: "store \<Rightarrow> channel_options \<Rightarrow> (hash list) res" where
  "get_post_hashes st opts = and_then (channel_entries st opts) (\<lambda>posts. Ok (map snd posts))"

definition get_posts_live :: "channel_options \<Rightarrow> (store, post list \<times> nat) action" where
  "get_posts_live opts =
     m_then (m_modify (\<lambda>st. st\<lparr>st_live_stream_id := st_live_stream_id st + 1\<rparr>))
      (m_bind (m_get st_live_stream_id) (\<lambda>sid.
       m_bind (m_lift (live_stream_new sid opts)) (\<lambda>live_stream.
       m_then (m_modify (\<lambda>st. st\<lparr>st_live_streams := hm_push (opt_channel opts) live_stream (st_live_streams st)\<rparr>))
      (m_bind (m_get (\<lambda>st. get_posts st opts)) (\<lambda>r.
       m_bind (m_lift r) (\<lambda>posts. m_return (posts, sid)))))))"

definition update_posts :: "post \<Rightarrow> channel option \<Rightarrow> timestamp \<Rightarrow> hash \<Rightarrow> store \<Rightarrow> store" where
  "update_posts p ch ts h st =
     st\<lparr>st_posts :=
          (case hm_get (st_posts st) ch of
             Some post_map \<Rightarrow>
               (case map_of post_map ts of
                  Some posts \<Rightarrow> hm_insert ch (bt_insert ts (posts @ [(p, h)]) post_map) (st_posts st)
                | None \<Rightarrow> hm_insert ch (bt_insert ts [(p, h)] post_map) (st_posts st))
           | None \<Rightarrow> hm_insert ch (bt_insert ts [(p, h)] []) (st_posts st))\<rparr>"

definition remove_post :: "hash \<Rightarrow> store \<Rightarrow> store" where
  "remove_post h st =
     st\<lparr>st_posts :=
          hm_map_values (hm_map_values (filter (\<lambda>(_, stored_hash). stored_hash \<noteq> h))) (st_posts st)\<rparr>"

definition get_post_payload :: "store \<Rightarrow> hash \<Rightarrow> payload option" where
  "get_post_payload st h = hm_get (st_post_payloads st) h"

definition get_post_payloads :: "store \<Rightarrow> hash list \<Rightarrow> payload list" where
  "get_post_payloads st hashes = List.map_filter (\<lambda>h. hm_get (st_post_payloads st) h) hashes"

definition insert_post_payload :: "hash \<Rightarrow> payload \<Rightarrow> store \<Rightarrow> store" where
  "insert_post_payload h payload st = st\<lparr>st_post_payloads := hm_insert h payload (st_post_payloads st)\<rparr>"

definition remove_post_payload :: "hash \<Rightarrow> store \<Rightarrow> store" where
  "remove_post_payload h st =
     st\<lparr>st_post_payloads := hm_retain (\<lambda>stored_hash _. stored_hash \<noteq> h) (st_post_payloads st)\<rparr>"

definition delete_post :: "hash \<Rightarrow> store \<Rightarrow> store" where
  "delete_post h st =
     remove_post_payload h (remove_post h (remove_info_hash h (remove_peer_name h
       (remove_channel_membership_hash h (remove_channel_topic h st)))))"

definition send_post_to_live_streams :: "post \<Rightarrow> channel \<Rightarrow> store \<Rightarrow> store" where
  "send_post_to_live_streams p ch st =
     (case hm_get (st_live_streams st) ch of
        Some streams \<Rightarrow>
          st\<lparr>st_live_streams :=
               hm_insert ch
                 (map (\<lambda>s. if live_stream_matches s p then fst (live_stream_send p s) else s) streams)
                 (st_live_streams st)\<rparr>
      | None \<Rightarrow> st)"

definition want :: "store \<Rightarrow> hash list \<Rightarrow> hash list" where
  "want st hashes = filter (\<lambda>h. \<not> hm_contains (st_post_payloads st) h) hashes"

subsection \<open>Insertion of a post\<close>

text \<open>\<^verbatim>\<open>self.insert_post_payload(&hash, post.to_bytes()?).await;\<close>\<close>

definition store_payload :: "post \<Rightarrow> hash \<Rightarrow> (store, unit) action" where
  "store_payload p h = m_bind (m_lift (post_to_bytes p)) (\<lambda>payload. m_modify (insert_post_payload h payload))"

text \<open>One round of the loop of a \<^verbatim>\<open>post/delete\<close>.\<close>

definition delete_round :: "post \<Rightarrow> hash \<Rightarrow> hash \<Rightarrow> (store, unit) action" where
  "delete_round p h target =
     m_bind (m_get (\<lambda>st. get_post_payload st target)) (\<lambda>found.
       case found of
         None \<Rightarrow> m_return ()
       | Some payload \<Rightarrow>
           m_bind (m_lift (post_from_bytes payload)) (\<lambda>(_, stored_post).
             if get_public_key p = get_public_key stored_post
             then m_then (m_modify (delete_post target))
                    (m_modify (insert_delete_hash (get_public_key p) h))
             else m_return ()))"

definition insert_post_body :: "post \<Rightarrow> hash \<Rightarrow> (store, unit) action" where
  "insert_post_body p h =
     (let timestamp = get_timestamp p; public_key = get_public_key p
      in case p_body p of
           Text ch _ \<Rightarrow>
             m_then (m_modify (update_posts p (Some ch) timestamp h))
            (m_then (store_payload p h)
                    (m_modify (send_post_to_live_streams p ch)))
         | Join ch \<Rightarrow>
             m_then (m_modify (update_channel_membership_hashes ch public_key h))
            (m_then (m_modify (insert_channel_member ch public_key))
            (m_then (m_modify (remove_ex_channel_member ch public_key))
                    (store_payload p h)))
         | Leave ch \<Rightarrow>
             m_then (m_modify (update_channel_membership_hashes ch public_key h))
            (m_then (m_modify (remove_channel_member ch public_key))
            (m_then (m_modify (insert_ex_channel_member ch public_key))
                    (store_payload p h)))
         | Topic ch tp \<Rightarrow>
             m_then (m_modify (update_posts p (Some ch) timestamp h))
            (m_then (m_modify (insert_channel_topic ch tp timestamp h))
            (m_then (store_payload p h)
                    (m_modify (send_post_to_live_streams p ch))))
         | Delete hashes \<Rightarrow>
             m_then (m_each (delete_round p h) hashes)
                    (store_payload p h)
         | Info info \<Rightarrow>
             m_then (m_modify (update_posts p None timestamp h))
            (m_then (m_each (\<lambda>u. if ui_key u = name_key
                                 then m_modify (insert_peer_name public_key (ui_val u) timestamp h)
                                 else m_return ()) info)
            (m_then (m_modify (insert_info_hash public_key h))
                    (store_payload p h)))
         | UnrecognizedPost _ \<Rightarrow> m_return ())"

definition insert_post :: "crypto \<Rightarrow> post \<Rightarrow> (store, hash) action" where
  "insert_post cr p =
     m_bind (m_lift (post_hash cr p)) (\<lambda>h.
     m_then (insert_post_body p h)
    (m_then (case get_channel p of
               Some ch \<Rightarrow> m_modify (insert_channel ch)
             | None \<Rightarrow> m_return ())
            (m_return h)))"

subsection \<open>Interfaces\<close>

text \<open>A log of values for each key: what a lookup returns after an insertion.\<close>

locale key_log =
  fixes lookup :: "'s \<Rightarrow> 'k \<Rightarrow> 'v list option" and log :: "'k \<Rightarrow> 'v \<Rightarrow> 's \<Rightarrow> 's"
  assumes lookup_log: "lookup (log k v s) k' =
    (if k' = k then Some ((case lookup s k of Some vs \<Rightarrow> vs | None \<Rightarrow> []) @ [v]) else lookup s k')"
begin

definition logged :: "'s \<Rightarrow> 'k \<Rightarrow> 'v set" where
  "logged s k = (case lookup s k of Some vs \<Rightarrow> set vs | None \<Rightarrow> {})"

lemma logged_log: "logged (log k v s) k' = (if k' = k then insert v (logged s k) else logged s k')"
  by (auto simp: logged_def lookup_log split: option.splits)

lemma logged_fold: "logged (fold (log k) vs s) k = logged s k \<union> set vs"
  by (induction vs arbitrary: s) (auto simp: logged_log)

lemma lookup_fold:
  "lookup s k = None \<Longrightarrow> vs \<noteq> [] \<Longrightarrow> lookup (fold (log k) vs s) k = Some vs"
proof (induction vs rule: rev_induct)
  case (snoc v vs)
  then show ?case by (cases "vs = []") (simp_all add: lookup_log)
qed simp

end

text \<open>A log whose entries can be removed by value.\<close>

locale removable_log = key_log lookup log
  for lookup :: "'s \<Rightarrow> 'k \<Rightarrow> 'v list option" and log :: "'k \<Rightarrow> 'v \<Rightarrow> 's \<Rightarrow> 's" +
  fixes unlog :: "'k \<Rightarrow> 'v \<Rightarrow> 's \<Rightarrow> 's"
  assumes lookup_unlog: "lookup (unlog k v s) k' =
    (if k' = k then map_option (filter (\<lambda>x. x \<noteq> v)) (lookup s k) else lookup s k')"
begin

lemma logged_unlog: "logged (unlog k v s) k' = (if k' = k then logged s k - {v} else logged s k')"
  by (auto simp: logged_def lookup_unlog split: option.splits)

lemma log_unlog: "v' \<in> logged (unlog k v (log k v s)) k \<longleftrightarrow> v' \<noteq> v \<and> v' \<in> logged s k"
  by (auto simp: logged_unlog logged_log)

end

text \<open>A register for each key whose value is the entry with the greatest timestamp. \<open>entries\<close> are the
  entries present.\<close>

locale latest_register =
  fixes current :: "'s \<Rightarrow> 'k \<Rightarrow> 'v option" and record_at :: "'k \<Rightarrow> timestamp \<Rightarrow> 'v \<Rightarrow> 's \<Rightarrow> 's"
    and entries :: "'s \<Rightarrow> 'k \<Rightarrow> timestamp \<Rightarrow> 'v option" and wf :: "'s \<Rightarrow> bool"
  assumes wf_record: "wf s \<Longrightarrow> wf (record_at k t v s)"
    and entries_record: "wf s \<Longrightarrow> entries (record_at k t v s) k' t' =
      (if k' = k \<and> t' = t then Some v else entries s k' t')"
    and current_Some: "wf s \<Longrightarrow> current s k = Some v \<longleftrightarrow>
      (\<exists>t. entries s k t = Some v \<and> (\<forall>t' > t. entries s k t' = None))"
begin

lemma current_newer:
  assumes "wf s" and "\<And>t'. t < t' \<Longrightarrow> entries s k t' = None"
  shows "current (record_at k t v s) k = Some v"
  using assms by (auto simp: current_Some [OF wf_record] entries_record intro!: exI [of _ t])

text \<open>An entry that is not the newest does not change the current value.\<close>

lemma current_stale:
  assumes "wf s" and "entries s k t0 = Some v0" and "t < t0"
  shows "current (record_at k t v s) k = current s k"
proof -
  have "current (record_at k t v s) k = Some w \<longleftrightarrow> current s k = Some w" for w
    unfolding current_Some [OF assms(1)] current_Some [OF wf_record [OF assms(1)]] entries_record [OF assms(1)]
    using assms(2,3) by (smt (verit) not_less_iff_gr_or_eq option.distinct(1) order.strict_trans)
  then show ?thesis by (metis not_None_eq)
qed

lemma current_other:
  assumes "wf s" and "k' \<noteq> k"
  shows "current (record_at k t v s) k' = current s k'"
proof -
  have "current (record_at k t v s) k' = Some w \<longleftrightarrow> current s k' = Some w" for w
    using assms by (simp add: current_Some wf_record entries_record)
  then show ?thesis by (metis not_None_eq)
qed

end

subsection \<open>The methods of the store keep the interfaces\<close>

lemma hm_get_push: "hm_get (hm_push k v m) k' =
    (if k' = k then Some ((case hm_get m k of Some vs \<Rightarrow> vs | None \<Rightarrow> []) @ [v]) else hm_get m k')"
  by (simp add: hm_push_def split: option.split)

lemma hm_get_retain_neq: "hm_get (hm_retain_neq k v m) k' =
    (if k' = k then map_option (filter (\<lambda>x. x \<noteq> v)) (hm_get m k) else hm_get m k')"
  by (simp add: hm_retain_neq_def split: option.split)

interpretation members: removable_log get_channel_members insert_channel_member remove_channel_member
  by unfold_locales
    (simp_all add: get_channel_members_def insert_channel_member_def remove_channel_member_def
      hm_get_push hm_get_retain_neq)

interpretation ex_members: removable_log get_ex_channel_members insert_ex_channel_member remove_ex_channel_member
  by unfold_locales
    (simp_all add: get_ex_channel_members_def insert_ex_channel_member_def remove_ex_channel_member_def
      hm_get_push hm_get_retain_neq)

interpretation deletes: key_log get_delete_hashes insert_delete_hash
  by unfold_locales (simp add: get_delete_hashes_def insert_delete_hash_def hm_get_push)

interpretation infos: key_log get_info_hashes insert_info_hash
  by unfold_locales (simp add: get_info_hashes_def insert_info_hash_def hm_get_push)

lemma is_channel_member_iff: "is_channel_member st ch pk \<longleftrightarrow> pk \<in> members.logged st ch"
  by (simp add: is_channel_member_def members.logged_def split: option.split)

text \<open>The entries of a map of maps by timestamp, and that every inner map is sorted.\<close>

definition entry_at :: "('k, (timestamp, 'v) btreemap) hashmap \<Rightarrow> 'k \<Rightarrow> timestamp \<Rightarrow> 'v option" where
  "entry_at m k t = Option.bind (hm_get m k) (\<lambda>entries. map_of entries t)"

definition entries_wf :: "('k, (timestamp, 'v) btreemap) hashmap \<Rightarrow> bool" where
  "entries_wf m \<longleftrightarrow> (\<forall>k entries. hm_get m k = Some entries \<longrightarrow> bt_wf entries)"

lemma bt_wf_one [simp]: "bt_wf [(t, v)]"
  by (simp add: bt_wf_def)

lemma entries_wf_insert: "entries_wf m \<Longrightarrow> entries_wf (insert_entry k t v m)"
  by (auto simp: entries_wf_def insert_entry_def split: option.splits if_splits)

lemma entry_at_insert: "entries_wf m \<Longrightarrow> entry_at (insert_entry k t v m) k' t' =
    (if k' = k \<and> t' = t then Some v else entry_at m k' t')"
  by (auto simp: entries_wf_def insert_entry_def entry_at_def split: option.split)

lemma latest_entry_Some:
  assumes "entries_wf m"
  shows "latest_entry m k = Some v \<longleftrightarrow> (\<exists>t. entry_at m k t = Some v \<and> (\<forall>t' > t. entry_at m k t' = None))"
proof (cases "hm_get m k")
  case (Some entries)
  then have wf: "bt_wf entries" using assms by (simp add: entries_wf_def)
  have "map_option snd (bt_last entries) = Some v \<longleftrightarrow> (\<exists>t. bt_last entries = Some (t, v))" by auto
  also have "\<dots> \<longleftrightarrow> (\<exists>t. map_of entries t = Some v \<and> (\<forall>k' \<in> fst ` set entries. k' \<le> t))"
    by (simp add: bt_last_eq_Some [OF wf])
  also have "\<dots> \<longleftrightarrow> (\<exists>t. map_of entries t = Some v \<and> (\<forall>t' > t. map_of entries t' = None))"
    by (auto simp: map_of_eq_None_iff not_le [symmetric])
  finally show ?thesis using Some by (simp add: latest_entry_def entry_at_def)
qed (simp add: latest_entry_def entry_at_def)

interpretation topics: latest_register get_channel_topic_and_hash
  "\<lambda>ch ts (tp, h). insert_channel_topic ch tp ts h"
  "\<lambda>st. entry_at (st_channel_topics st)" "\<lambda>st. entries_wf (st_channel_topics st)"
  by unfold_locales
    (auto simp: insert_channel_topic_def get_channel_topic_and_hash_def entries_wf_insert entry_at_insert
      latest_entry_Some)

interpretation names: latest_register get_peer_name_and_hash
  "\<lambda>pk ts (name, h). insert_peer_name pk name ts h"
  "\<lambda>st. entry_at (st_peer_names st)" "\<lambda>st. entries_wf (st_peer_names st)"
  by unfold_locales
    (auto simp: insert_peer_name_def get_peer_name_and_hash_def entries_wf_insert entry_at_insert
      latest_entry_Some)

end
