(* ===== verification/Core_Store_Inv.thy ===== *)
theory Core_Store_Inv
  imports Core_Store
begin

text \<open>
  The invariant of the in-memory store and its properties. \<open>inv_pending H st\<close> allows the hashes of the set \<open>H\<close> to be
  indexed before their payload is stored, the state in the middle of \<^verbatim>\<open>insert_post\<close>; \<open>store_inv\<close> is
  \<open>inv_pending {}\<close>, and holds whenever a method has returned, with an error or without.
\<close>

subsection \<open>The invariant\<close>

definition entry_hashes :: "('k, (timestamp, 'a \<times> hash) btreemap) hashmap \<Rightarrow> hash list" where
  "entry_hashes m = concat (map (\<lambda>(_, es). map (\<lambda>(_, (_, h)). h) es) m)"

definition post_entries :: "post_map \<Rightarrow> (channel option \<times> timestamp \<times> post \<times> hash) list" where
  "post_entries m = concat (map (\<lambda>(c, bt). concat (map (\<lambda>(t, ps). map (\<lambda>(p, h). (c, t, p, h)) ps) bt)) m)"

definition membership_hashes :: "(channel, (public_key, hash) hashmap) hashmap \<Rightarrow> hash list" where
  "membership_hashes m = concat (map (\<lambda>(_, mm). map snd mm) m)"

definition log_hashes :: "(public_key, hash list) hashmap \<Rightarrow> hash list" where
  "log_hashes m = concat (map snd m)"

definition posts_hashes :: "post_map \<Rightarrow> hash list" where
  "posts_hashes m = map (\<lambda>(_, _, _, h). h) (post_entries m)"

definition indexed_hashes :: "store \<Rightarrow> hash list" where
  "indexed_hashes st =
     entry_hashes (st_channel_topics st) @ entry_hashes (st_peer_names st) @
     membership_hashes (st_channel_membership st) @ log_hashes (st_info_hashes st) @ posts_hashes (st_posts st)"

definition payloads_ok :: "crypto \<Rightarrow> store \<Rightarrow> bool" where
  "payloads_ok cr st \<longleftrightarrow> hm_wf (st_post_payloads st) \<and>
     list_all (\<lambda>(h, bs). generichash_hash cr bs = Some h \<and> length h = 32) (st_post_payloads st)"

definition index_ok :: "hash set \<Rightarrow> store \<Rightarrow> bool" where
  "index_ok H st \<longleftrightarrow> set (indexed_hashes st) \<subseteq> fst ` set (st_post_payloads st) \<union> H"

definition posts_ok :: "crypto \<Rightarrow> store \<Rightarrow> bool" where
  "posts_ok cr st \<longleftrightarrow> list_all (\<lambda>(_, bt). bt_wf bt) (st_posts st) \<and>
     list_all (\<lambda>(c, t, p, h). get_channel p = c \<and> get_timestamp p = t \<and> post_hash cr p = Ok h)
       (post_entries (st_posts st))"

definition maps_ok :: "store \<Rightarrow> bool" where
  "maps_ok st \<longleftrightarrow> sorted_wrt (<) (st_channels st) \<and> hm_wf (st_posts st) \<and>
     entries_wf (st_channel_topics st) \<and> entries_wf (st_peer_names st)"

definition streams_ok :: "store \<Rightarrow> bool" where
  "streams_ok st \<longleftrightarrow>
     (\<forall>(ch, ss) \<in> set (st_live_streams st). \<forall>s \<in> set ss. live_stream_ok s \<and> ls_id s \<le> st_live_stream_id st)"

definition inv_pending :: "crypto \<Rightarrow> hash set \<Rightarrow> store \<Rightarrow> bool" where
  "inv_pending cr H st \<longleftrightarrow> payloads_ok cr st \<and> index_ok H st \<and> posts_ok cr st \<and> maps_ok st \<and> streams_ok st"

definition store_inv :: "crypto \<Rightarrow> store \<Rightarrow> bool" where
  "store_inv cr st \<longleftrightarrow> inv_pending cr {} st"

lemmas inv_parts = inv_pending_def payloads_ok_def index_ok_def posts_ok_def maps_ok_def streams_ok_def

lemma store_inv_default: "store_inv cr (store_default kp)"
  by (simp add: store_inv_def inv_parts store_default_def indexed_hashes_def entry_hashes_def post_entries_def
      membership_hashes_def log_hashes_def posts_hashes_def
      entries_wf_def)

subsection \<open>What the updates do to the index\<close>

lemma set_bt_insert_subset: "set (bt_insert k v m) \<subseteq> insert (k, v) (set m)"
  by (induction k v m rule: bt_insert.induct) auto

lemma in_entry_hashes: "h \<in> set (entry_hashes m) \<longleftrightarrow> (\<exists>k es t v. (k, es) \<in> set m \<and> (t, (v, h)) \<in> set es)"
proof (induction m)
  case (Cons e m)
  obtain k es where e: "e = (k, es)" by (cases e)
  have "h \<in> (\<lambda>(_, (_, h)). h) ` set es \<longleftrightarrow> (\<exists>t v. (t, (v, h)) \<in> set es)" by force
  with Cons.IH show ?case by (auto simp: entry_hashes_def e)
qed (simp add: entry_hashes_def)

lemma in_post_entries:
  "(c, t, p, h) \<in> set (post_entries m) \<longleftrightarrow> (\<exists>bt ps. (c, bt) \<in> set m \<and> (t, ps) \<in> set bt \<and> (p, h) \<in> set ps)"
proof (induction m)
  case (Cons e m)
  obtain k bt where e: "e = (k, bt)" by (cases e)
  have "(c, t, p, h) \<in> set (concat (map (\<lambda>(t, ps). map (\<lambda>(p, h). (k, t, p, h)) ps) bt)) \<longleftrightarrow>
      c = k \<and> (\<exists>ps. (t, ps) \<in> set bt \<and> (p, h) \<in> set ps)"
    by (induction bt) auto
  with Cons.IH show ?case by (auto simp: post_entries_def e)
qed (simp add: post_entries_def)

lemma insert_entry_cases:
  obtains old where "insert_entry k t v m = hm_insert k (bt_insert t v old) m"
    and "hm_get m k = Some old \<or> hm_get m k = None \<and> old = []"
  by (cases "hm_get m k") (auto simp: insert_entry_def)

lemma hm_push_cases:
  obtains old where "hm_push k v m = hm_insert k (old @ [v]) m"
    and "hm_get m k = Some old \<or> hm_get m k = None \<and> old = []"
  by (cases "hm_get m k") (auto simp: hm_push_def)

lemma entry_hashes_insert:
  "set (entry_hashes (insert_entry k t (v, h) m)) \<subseteq> insert h (set (entry_hashes m))"
proof
  fix h'
  assume "h' \<in> set (entry_hashes (insert_entry k t (v, h) m))"
  then obtain k' es t' v' where es: "(k', es) \<in> set (insert_entry k t (v, h) m)" and e: "(t', (v', h')) \<in> set es"
    by (auto simp: in_entry_hashes)
  obtain old where ins: "insert_entry k t (v, h) m = hm_insert k (bt_insert t (v, h) old) m"
    and old: "hm_get m k = Some old \<or> hm_get m k = None \<and> old = []" by (rule insert_entry_cases)
  have "(k', es) = (k, bt_insert t (v, h) old) \<or> (k', es) \<in> set m"
    using es ins set_hm_insert_subset [of k "bt_insert t (v, h) old" m] by auto
  then show "h' \<in> insert h (set (entry_hashes m))"
  proof
    assume "(k', es) = (k, bt_insert t (v, h) old)"
    with e have "(t', (v', h')) = (t, (v, h)) \<or> (t', (v', h')) \<in> set old"
      using set_bt_insert_subset [of t "(v, h)" old] by auto
    with old show ?thesis by (auto simp: in_entry_hashes dest: map_of_SomeD)
  next
    assume "(k', es) \<in> set m"
    with e have "h' \<in> set (entry_hashes m)" unfolding in_entry_hashes by blast
    then show ?thesis by simp
  qed
qed

lemma set_hm_map_values: "set (hm_map_values f m) = (\<lambda>(k, v). (k, f v)) ` set m"
  by (simp add: hm_map_values_def)

lemma entry_hashes_remove: "set (entry_hashes (remove_entries h m)) = set (entry_hashes m) - {h}"
  by (fastforce simp: remove_entries_def in_entry_hashes set_hm_map_values)

lemma log_hashes_push: "set (log_hashes (hm_push k v m)) \<subseteq> insert v (set (log_hashes m))"
proof -
  obtain old where ins: "hm_push k v m = hm_insert k (old @ [v]) m"
    and old: "hm_get m k = Some old \<or> hm_get m k = None \<and> old = []" by (rule hm_push_cases)
  have "set old \<subseteq> set (log_hashes m)" using old unfolding log_hashes_def by (auto dest!: map_of_SomeD)
  then show ?thesis
    using set_hm_insert_subset [of k "old @ [v]" m] unfolding ins log_hashes_def by fastforce
qed

lemma set_bt_insert:
  assumes "bt_wf m"
  shows "set (bt_insert k v m) = insert (k, v) {(k', v') \<in> set m. k' \<noteq> k}"
  using hm_get_eq_Some [OF bt_wf_hm_wf [OF assms]] hm_get_eq_Some [OF bt_wf_hm_wf [OF bt_wf_insert [OF assms]]] assms
  by (fastforce simp flip: hm_get_eq_Some [OF bt_wf_hm_wf [OF assms]]
      hm_get_eq_Some [OF bt_wf_hm_wf [OF bt_wf_insert [OF assms]]] split: if_splits)

lemma update_posts_cases:
  obtains bt ps where "st_posts (update_posts p c t h st) = hm_insert c (bt_insert t (ps @ [(p, h)]) bt) (st_posts st)"
    and "hm_get (st_posts st) c = Some bt \<or> hm_get (st_posts st) c = None \<and> bt = []"
    and "map_of bt t = Some ps \<or> map_of bt t = None \<and> ps = []"
proof (cases "hm_get (st_posts st) c")
  case None
  show thesis by (rule that [of "[]" "[]"]) (simp_all add: update_posts_def None)
next
  case (Some bt)
  show thesis
  proof (cases "map_of bt t")
    case None
    show thesis by (rule that [of "[]" bt]) (simp_all add: update_posts_def Some None)
  next
    case (Some ps)
    show thesis by (rule that [of ps bt]) (simp_all add: update_posts_def \<open>hm_get (st_posts st) c = Some bt\<close> Some)
  qed
qed

lemma post_entries_update:
  assumes "hm_wf (st_posts st)" and "list_all (\<lambda>(_, bt). bt_wf bt) (st_posts st)"
  shows "set (post_entries (st_posts (update_posts p c t h st))) =
     insert (c, t, p, h) (set (post_entries (st_posts st)))"
proof -
  obtain bt ps where eq: "st_posts (update_posts p c t h st) = hm_insert c (bt_insert t (ps @ [(p, h)]) bt) (st_posts st)"
    and bt: "hm_get (st_posts st) c = Some bt \<or> hm_get (st_posts st) c = None \<and> bt = []"
    and ps: "map_of bt t = Some ps \<or> map_of bt t = None \<and> ps = []"
    by (rule update_posts_cases)
  have wf: "bt_wf bt" using bt assms(2) by (auto simp: list_all_iff dest: map_of_SomeD)
  have c: "(c, t', q, g) \<in> set (post_entries (st_posts st)) \<longleftrightarrow> (\<exists>ps. (t', ps) \<in> set bt \<and> (q, g) \<in> set ps)" for t' q g
    using bt by (auto simp: in_post_entries simp flip: hm_get_eq_Some [OF assms(1)])
  have t: "(\<exists>qs. (t, qs) \<in> set bt \<and> (q, g) \<in> set qs) \<longleftrightarrow> (q, g) \<in> set ps" for q g
    using ps by (auto simp flip: hm_get_eq_Some [OF bt_wf_hm_wf [OF wf]])
  have "(c', t', q, g) \<in> set (post_entries (st_posts (update_posts p c t h st))) \<longleftrightarrow>
      (c', t', q, g) = (c, t, p, h) \<or> (c', t', q, g) \<in> set (post_entries (st_posts st))" for c' t' q g
  proof (cases "c' = c")
    case True
    have "(c, t', q, g) \<in> set (post_entries (st_posts (update_posts p c t h st))) \<longleftrightarrow>
        (\<exists>qs. (t', qs) \<in> set (bt_insert t (ps @ [(p, h)]) bt) \<and> (q, g) \<in> set qs)"
      unfolding eq in_post_entries set_hm_insert [OF assms(1)] by auto
    also have "\<dots> \<longleftrightarrow> (if t' = t then (q, g) \<in> set (ps @ [(p, h)]) else (\<exists>qs. (t', qs) \<in> set bt \<and> (q, g) \<in> set qs))"
      unfolding set_bt_insert [OF wf] by auto
    finally show ?thesis using True c [of t' q g] t [of q g] by (auto split: if_splits)
  next
    case False
    then show ?thesis unfolding eq in_post_entries set_hm_insert [OF assms(1)] by auto
  qed
  then show ?thesis by auto
qed

lemma post_entries_remove:
  "(c, t, p, g) \<in> set (post_entries (st_posts (remove_post h st))) \<longleftrightarrow>
     (c, t, p, g) \<in> set (post_entries (st_posts st)) \<and> g \<noteq> h"
  by (fastforce simp: remove_post_def in_post_entries set_hm_map_values)

lemma in_membership_hashes: "h \<in> set (membership_hashes m) \<longleftrightarrow> (\<exists>k mm pk. (k, mm) \<in> set m \<and> (pk, h) \<in> set mm)"
proof (induction m)
  case (Cons e m)
  obtain k mm where e: "e = (k, mm)" by (cases e)
  have "h \<in> snd ` set mm \<longleftrightarrow> (\<exists>pk. (pk, h) \<in> set mm)" by force
  with Cons.IH show ?case by (auto simp: membership_hashes_def e)
qed (simp add: membership_hashes_def)

lemma in_log_hashes: "h \<in> set (log_hashes m) \<longleftrightarrow> (\<exists>k hs. (k, hs) \<in> set m \<and> h \<in> set hs)"
  by (simp add: log_hashes_def Bex_def)

lemma in_posts_hashes: "h \<in> set (posts_hashes m) \<longleftrightarrow> (\<exists>c t p. (c, t, p, h) \<in> set (post_entries m))"
  by (force simp: posts_hashes_def)

lemma membership_update:
  "set (membership_hashes (st_channel_membership (update_channel_membership_hashes ch pk h st))) \<subseteq>
     insert h (set (membership_hashes (st_channel_membership st)))"
proof
  fix g
  let ?m = "st_channel_membership st"
  assume "g \<in> set (membership_hashes (st_channel_membership (update_channel_membership_hashes ch pk h st)))"
  moreover obtain old where "st_channel_membership (update_channel_membership_hashes ch pk h st) =
      hm_insert ch (hm_insert pk h old) ?m"
    and old: "hm_get ?m ch = Some old \<or> hm_get ?m ch = None \<and> old = []"
    by (cases "hm_get ?m ch") (auto simp: update_channel_membership_hashes_def)
  ultimately obtain k mm pk' where mm: "(k, mm) \<in> set (hm_insert ch (hm_insert pk h old) ?m)" "(pk', g) \<in> set mm"
    by (auto simp: in_membership_hashes)
  then have "(k, mm) \<in> set ?m \<or> mm = hm_insert pk h old"
    using set_hm_insert_subset [of ch "hm_insert pk h old" ?m] by auto
  moreover have "(pk', g) \<in> set old \<or> g = h" if "mm = hm_insert pk h old"
    using mm(2) that set_hm_insert_subset [of pk h old] by auto
  ultimately show "g \<in> insert h (set (membership_hashes ?m))"
    using mm(2) old by (auto simp: in_membership_hashes dest: map_of_SomeD)
qed

lemma membership_remove:
  "set (membership_hashes (st_channel_membership (remove_channel_membership_hash h st))) =
     set (membership_hashes (st_channel_membership st)) - {h}"
  by (fastforce simp: remove_channel_membership_hash_def set_hm_map_values in_membership_hashes)

lemma info_remove: "set (log_hashes (st_info_hashes (remove_info_hash h st))) = set (log_hashes (st_info_hashes st)) - {h}"
  by (fastforce simp: remove_info_hash_def set_hm_map_values in_log_hashes)

lemma posts_remove: "set (posts_hashes (st_posts (remove_post h st))) = set (posts_hashes (st_posts st)) - {h}"
  by (auto simp: in_posts_hashes post_entries_remove)

text \<open>Each method changes one field.\<close>

lemmas store_field_defs =
  insert_channel_def insert_channel_member_def remove_channel_member_def insert_ex_channel_member_def
  remove_ex_channel_member_def update_channel_membership_hashes_def remove_channel_membership_hash_def
  insert_channel_topic_def remove_channel_topic_def insert_peer_name_def remove_peer_name_def
  insert_delete_hash_def insert_info_hash_def remove_info_hash_def update_posts_def remove_post_def
  insert_post_payload_def remove_post_payload_def

lemma indexed_hashes_delete: "set (indexed_hashes (delete_post h st)) = set (indexed_hashes st) - {h}"
proof -
  let ?s = "delete_post h st"
  have 1: "set (entry_hashes (st_channel_topics ?s)) = set (entry_hashes (st_channel_topics st)) - {h}"
    using entry_hashes_remove [of h "st_channel_topics st"] by (simp add: delete_post_def store_field_defs)
  have 2: "set (entry_hashes (st_peer_names ?s)) = set (entry_hashes (st_peer_names st)) - {h}"
    using entry_hashes_remove [of h "st_peer_names st"] by (simp add: delete_post_def store_field_defs)
  have 3: "set (membership_hashes (st_channel_membership ?s)) = set (membership_hashes (st_channel_membership st)) - {h}"
    using membership_remove [of h st] by (simp add: delete_post_def store_field_defs)
  have 4: "set (log_hashes (st_info_hashes ?s)) = set (log_hashes (st_info_hashes st)) - {h}"
    using info_remove [of h st] by (simp add: delete_post_def store_field_defs)
  have 5: "set (posts_hashes (st_posts ?s)) = set (posts_hashes (st_posts st)) - {h}"
    using posts_remove [of h st] by (simp add: delete_post_def store_field_defs)
  show ?thesis unfolding indexed_hashes_def set_append 1 2 3 4 5 by blast
qed

subsection \<open>The updates keep the invariant\<close>

lemma inv_mono: "inv_pending cr H st \<Longrightarrow> H \<subseteq> H' \<Longrightarrow> inv_pending cr H' st"
  by (auto simp: inv_pending_def index_ok_def)

lemma inv_insert_channel: "inv_pending cr H st \<Longrightarrow> inv_pending cr H (insert_channel ch st)"
  by (simp add: inv_parts insert_channel_def indexed_hashes_def sorted_bts_insert)

lemma inv_members:
  "inv_pending cr H st \<Longrightarrow> inv_pending cr H (insert_channel_member ch pk st)"
  "inv_pending cr H st \<Longrightarrow> inv_pending cr H (remove_channel_member ch pk st)"
  "inv_pending cr H st \<Longrightarrow> inv_pending cr H (insert_ex_channel_member ch pk st)"
  "inv_pending cr H st \<Longrightarrow> inv_pending cr H (remove_ex_channel_member ch pk st)"
  "inv_pending cr H st \<Longrightarrow> inv_pending cr H (insert_delete_hash pk h st)"
  by (simp_all add: inv_parts store_field_defs indexed_hashes_def)

text \<open>A change of the index that adds at most one hash.\<close>

lemma index_ok_insert:
  "index_ok H st \<Longrightarrow> set (indexed_hashes st') \<subseteq> insert h (set (indexed_hashes st)) \<Longrightarrow>
     st_post_payloads st' = st_post_payloads st \<Longrightarrow> index_ok (insert h H) st'"
  by (auto simp: index_ok_def)

lemma inv_membership: "inv_pending cr H st \<Longrightarrow> inv_pending cr (insert h H) (update_channel_membership_hashes ch pk h st)"
proof -
  let ?st = "update_channel_membership_hashes ch pk h st"
  have "set (indexed_hashes ?st) \<subseteq> insert h (set (indexed_hashes st))"
    using membership_update [of ch pk h st]
    by (auto simp: indexed_hashes_def update_channel_membership_hashes_def)
  then show "inv_pending cr H st \<Longrightarrow> inv_pending cr (insert h H) ?st"
    using index_ok_insert [of H st ?st h]
    by (simp add: inv_pending_def payloads_ok_def posts_ok_def maps_ok_def streams_ok_def update_channel_membership_hashes_def)
qed

lemma inv_topic: "inv_pending cr H st \<Longrightarrow> inv_pending cr (insert h H) (insert_channel_topic ch tp ts h st)"
proof -
  let ?st = "insert_channel_topic ch tp ts h st"
  have "set (indexed_hashes ?st) \<subseteq> insert h (set (indexed_hashes st))"
    using entry_hashes_insert [of ch ts tp h "st_channel_topics st"]
    by (auto simp: indexed_hashes_def insert_channel_topic_def)
  then show "inv_pending cr H st \<Longrightarrow> inv_pending cr (insert h H) ?st"
    using index_ok_insert [of H st ?st h]
    by (simp add: inv_pending_def payloads_ok_def posts_ok_def maps_ok_def streams_ok_def insert_channel_topic_def entries_wf_insert)
qed

lemma inv_peer_name: "inv_pending cr H st \<Longrightarrow> inv_pending cr (insert h H) (insert_peer_name pk name ts h st)"
proof -
  let ?st = "insert_peer_name pk name ts h st"
  have "set (indexed_hashes ?st) \<subseteq> insert h (set (indexed_hashes st))"
    using entry_hashes_insert [of pk ts name h "st_peer_names st"]
    by (auto simp: indexed_hashes_def insert_peer_name_def)
  then show "inv_pending cr H st \<Longrightarrow> inv_pending cr (insert h H) ?st"
    using index_ok_insert [of H st ?st h]
    by (simp add: inv_pending_def payloads_ok_def posts_ok_def maps_ok_def streams_ok_def insert_peer_name_def entries_wf_insert)
qed

lemma inv_info_hash: "inv_pending cr H st \<Longrightarrow> inv_pending cr (insert h H) (insert_info_hash pk h st)"
proof -
  let ?st = "insert_info_hash pk h st"
  have "set (indexed_hashes ?st) \<subseteq> insert h (set (indexed_hashes st))"
    using log_hashes_push [of pk h "st_info_hashes st"]
    by (auto simp: indexed_hashes_def insert_info_hash_def)
  then show "inv_pending cr H st \<Longrightarrow> inv_pending cr (insert h H) ?st"
    using index_ok_insert [of H st ?st h]
    by (simp add: inv_pending_def payloads_ok_def posts_ok_def maps_ok_def streams_ok_def insert_info_hash_def)
qed

lemma inv_payload:
  assumes "inv_pending cr H st" and "generichash_hash cr bs = Some h" and "length h = 32"
  shows "inv_pending cr (H - {h}) (insert_post_payload h bs st)"
proof -
  have "payloads_ok cr (insert_post_payload h bs st)"
    using assms set_hm_insert_subset [of h bs "st_post_payloads st"]
    by (fastforce simp: inv_pending_def payloads_ok_def insert_post_payload_def list_all_iff)
  moreover have "fst ` set (hm_insert h bs (st_post_payloads st)) = insert h (fst ` set (st_post_payloads st))"
    by (simp add: AList.dom_update)
  then have "index_ok (H - {h}) (insert_post_payload h bs st)"
    using assms(1) by (auto simp: inv_pending_def index_ok_def insert_post_payload_def indexed_hashes_def)
  ultimately show ?thesis
    using assms(1) by (simp add: inv_pending_def posts_ok_def maps_ok_def streams_ok_def insert_post_payload_def)
qed

lemma inv_update_posts:
  assumes "inv_pending cr H st" and "post_hash cr p = Ok h"
  shows "inv_pending cr (insert h H) (update_posts p (get_channel p) (get_timestamp p) h st)"
proof -
  let ?st = "update_posts p (get_channel p) (get_timestamp p) h st"
  have wf: "hm_wf (st_posts st)" "list_all (\<lambda>(_, bt). bt_wf bt) (st_posts st)"
    using assms(1) by (simp_all add: inv_pending_def maps_ok_def posts_ok_def)
  note ent = post_entries_update [OF wf, of p "get_channel p" "get_timestamp p" h]
  have "set (posts_hashes (st_posts ?st)) \<subseteq> insert h (set (posts_hashes (st_posts st)))"
    unfolding posts_hashes_def set_map ent by auto
  then have "set (indexed_hashes ?st) \<subseteq> insert h (set (indexed_hashes st))"
    by (auto simp: indexed_hashes_def update_posts_def)
  then have idx: "index_ok (insert h H) ?st"
    using assms(1) index_ok_insert [of H st ?st h] by (simp add: inv_pending_def update_posts_def)
  obtain bt ps where eq: "st_posts ?st = hm_insert (get_channel p) (bt_insert (get_timestamp p) (ps @ [(p, h)]) bt) (st_posts st)"
    and bt: "hm_get (st_posts st) (get_channel p) = Some bt \<or> hm_get (st_posts st) (get_channel p) = None \<and> bt = []"
    by (rule update_posts_cases)
  have "bt_wf bt" using bt wf(2) by (auto simp: list_all_iff dest: map_of_SomeD)
  then have "list_all (\<lambda>(_, bt). bt_wf bt) (st_posts ?st)"
    using wf set_hm_insert [OF wf(1)] unfolding eq by (auto simp: list_all_iff)
  moreover have "list_all (\<lambda>(c, t, p, h). get_channel p = c \<and> get_timestamp p = t \<and> post_hash cr p = Ok h)
      (post_entries (st_posts ?st))"
    using assms unfolding list_all_iff ent by (auto simp: inv_pending_def posts_ok_def list_all_iff simp del: get_channel.simps)
  moreover have "hm_wf (st_posts ?st)" using wf(1) unfolding eq by simp
  ultimately show ?thesis
    using assms(1) idx by (simp add: inv_pending_def payloads_ok_def posts_ok_def maps_ok_def streams_ok_def update_posts_def
        del: get_channel.simps)
qed

lemma hm_contains_dom: "hm_contains m k \<longleftrightarrow> k \<in> fst ` set m"
  by (simp add: hm_contains_def map_of_eq_None_iff)

lemma payloads_delete [simp]: "get_post_payload (delete_post h st) g = (if g = h then None else get_post_payload st g)"
proof -
  have "hm_get (hm_retain (\<lambda>k _. k \<noteq> h) m) g = (if g = h then None else hm_get m g)" for m :: "(hash, payload) hashmap"
    by (induction m) (auto simp: hm_retain_def)
  then show ?thesis by (simp add: get_post_payload_def delete_post_def store_field_defs)
qed

lemma entries_wf_remove: "entries_wf m \<Longrightarrow> entries_wf (remove_entries h m)"
  by (auto simp: entries_wf_def remove_entries_def)

lemma inv_delete:
  assumes "inv_pending cr H st"
  shows "inv_pending cr H (delete_post h st)"
proof -
  let ?st = "delete_post h st"
  have p: "st_post_payloads ?st = hm_retain (\<lambda>k _. k \<noteq> h) (st_post_payloads st)"
    by (simp add: delete_post_def store_field_defs)
  have "payloads_ok cr ?st" using assms by (auto simp: inv_pending_def payloads_ok_def p list_all_iff)
  moreover have "fst ` set (st_post_payloads ?st) = fst ` set (st_post_payloads st) - {h}"
    unfolding p by force
  then have "index_ok H ?st" using assms by (auto simp: inv_pending_def index_ok_def indexed_hashes_delete)
  moreover have e: "st_posts ?st = st_posts (remove_post h st)" by (simp add: delete_post_def store_field_defs)
  have "posts_ok cr ?st"
    using assms post_entries_remove [of _ _ _ _ h st]
    unfolding inv_pending_def posts_ok_def e
    by (auto simp: list_all_iff remove_post_def set_hm_map_values simp del: get_channel.simps)
  moreover have "maps_ok ?st" using assms
    by (simp add: inv_pending_def maps_ok_def delete_post_def store_field_defs entries_wf_remove)
  moreover have "streams_ok ?st" using assms by (simp add: inv_pending_def streams_ok_def delete_post_def store_field_defs)
  ultimately show ?thesis by (simp add: inv_pending_def)
qed

lemma inv_send:
  assumes "inv_pending cr H st"
  shows "inv_pending cr H (send_post_to_live_streams p ch st)"
proof (cases "hm_get (st_live_streams st) ch")
  case (Some streams)
  let ?f = "\<lambda>s. if live_stream_matches s p then fst (live_stream_send p s) else s"
  have "(ch, streams) \<in> set (st_live_streams st)" using Some by (rule map_of_SomeD)
  then have "\<forall>s \<in> set (map ?f streams). live_stream_ok s \<and> ls_id s \<le> st_live_stream_id st"
    using assms by (auto simp: inv_pending_def streams_ok_def live_stream_ok_send) (auto simp: live_stream_send_def)
  then have "streams_ok (send_post_to_live_streams p ch st)"
    using assms Some set_hm_insert_subset [of ch "map ?f streams" "st_live_streams st"]
    by (fastforce simp: inv_pending_def streams_ok_def send_post_to_live_streams_def)
  with assms Some show ?thesis
    by (simp add: inv_pending_def payloads_ok_def index_ok_def posts_ok_def maps_ok_def send_post_to_live_streams_def indexed_hashes_def)
qed (use assms in \<open>simp add: send_post_to_live_streams_def\<close>)

subsection \<open>Insertion of a post\<close>

lemma post_hash_eq_Ok:
  "post_hash cr p = Ok h \<longleftrightarrow> (\<exists>bs. post_to_bytes p = Ok bs \<and> generichash_hash cr bs = Some h \<and> length h = 32)"
  by (auto simp: post_hash_def and_then_eq_Ok raise_defs split: option.splits if_splits)

lemma post_to_bytes_Ok_recognized: "post_to_bytes p = Ok bs \<Longrightarrow> recognized (p_body p)"
proof (rule ccontr)
  assume ok: "post_to_bytes p = Ok bs" and "\<not> recognized (p_body p)"
  then obtain t where b: "p_body p = UnrecognizedPost t" by (cases "p_body p") auto
  let ?ws = "[put_slice (ph_public_key (p_header p)), put_slice (ph_signature (p_header p)),
     put_varint (of_nat (length (ph_links (p_header p)))), wr_each put_hash (ph_links (p_header p)),
     put_varint (post_type p), put_varint (ph_timestamp (p_header p))]"
  have "post_write_bytes p buf = and_then (wr_run ?ws (buf, 0)) (wr_run [put_post_body (p_body p)])" for buf
    unfolding post_write_bytes_def Let_def by (simp only: wr_run_append [symmetric] append.simps)
  then have "post_write_bytes p buf \<noteq> Ok r" for buf r
    using b by (cases "wr_run ?ws (buf, 0)") (simp_all add: raise_defs del: put_slice.simps put_varint.simps)
  with ok show False by (auto simp: post_to_bytes_def Let_def and_then_eq_Ok)
qed

lemma inv_store_payload:
  assumes "post_hash cr p = Ok h" and "inv_pending cr {h} st"
  obtains st' where "store_payload p h st = (st', Ok ())" and "store_inv cr st'"
    and "\<And>g. get_post_payload st' g = (if g = h then get_post_payload st' h else get_post_payload st g)"
    and "\<exists>bs. post_to_bytes p = Ok bs \<and> st' = insert_post_payload h bs st"
proof -
  obtain bs where bs: "post_to_bytes p = Ok bs" "generichash_hash cr bs = Some h" "length h = 32"
    using assms(1) by (auto simp: post_hash_eq_Ok)
  show thesis
  proof (rule that)
    show "store_payload p h st = (insert_post_payload h bs st, Ok ())"
      by (simp add: store_payload_def bs m_modify_def)
    show "store_inv cr (insert_post_payload h bs st)"
      using inv_payload [OF assms(2) bs(2,3)] by (simp add: store_inv_def)
  qed (use bs(1) in \<open>auto simp: get_post_payload_def insert_post_payload_def\<close>)
qed

lemma store_inv_upto: "store_inv cr st \<Longrightarrow> inv_pending cr {h} st"
  unfolding store_inv_def by (rule inv_mono [OF _ empty_subsetI])

lemma keeps_delete_round: "keeps (store_inv cr) (delete_round p h target)"
  unfolding delete_round_def
  by (intro keeps_intros)
    (auto intro!: keeps_intros keeps_modify simp: store_inv_def inv_delete inv_members split: prod.split)

lemma keeps_names:
  "keeps (inv_pending cr {h}) (m_each (\<lambda>u. if ui_key u = name_key then m_modify (insert_peer_name pk (ui_val u) ts h)
     else m_return ()) info)"
  by (intro keeps_intros keeps_modify) (drule inv_peer_name [of cr "{h}" _ h], simp)

lemma m_each_if_modify:
  "m_each (\<lambda>u. if P u then m_modify (f u) else m_return ()) us s = (fold f (filter P us) s, Ok ())"
  by (induction us arbitrary: s) (simp_all add: m_return_def)

text \<open>The state between the index and the payload of a post that is not a \<^verbatim>\<open>post/delete\<close>.\<close>

fun index_post :: "post \<Rightarrow> hash \<Rightarrow> post_body \<Rightarrow> store \<Rightarrow> store" where
  "index_post p h (Text ch _) st = update_posts p (Some ch) (get_timestamp p) h st"
| "index_post p h (Join ch) st =
     remove_ex_channel_member ch (get_public_key p) (insert_channel_member ch (get_public_key p)
       (update_channel_membership_hashes ch (get_public_key p) h st))"
| "index_post p h (Leave ch) st =
     insert_ex_channel_member ch (get_public_key p) (remove_channel_member ch (get_public_key p)
       (update_channel_membership_hashes ch (get_public_key p) h st))"
| "index_post p h (Topic ch tp) st =
     insert_channel_topic ch tp (get_timestamp p) h (update_posts p (Some ch) (get_timestamp p) h st)"
| "index_post p h (Info info) st =
     insert_info_hash (get_public_key p) h
       (fold (\<lambda>u. insert_peer_name (get_public_key p) (ui_val u) (get_timestamp p) h)
          (filter (\<lambda>u. ui_key u = name_key) info) (update_posts p None (get_timestamp p) h st))"
| "index_post p h _ st = st"

text \<open>What happens to the live streams and the known channels afterwards.\<close>

fun announce_post :: "post \<Rightarrow> post_body \<Rightarrow> store \<Rightarrow> store" where
  "announce_post p (Text ch _) st = insert_channel ch (send_post_to_live_streams p ch st)"
| "announce_post p (Topic ch _) st = insert_channel ch (send_post_to_live_streams p ch st)"
| "announce_post p (Join ch) st = insert_channel ch st"
| "announce_post p (Leave ch) st = insert_channel ch st"
| "announce_post p _ st = st"

lemma insert_post_eq:
  assumes "post_hash cr p = Ok h" and "post_to_bytes p = Ok bs" and "\<forall>hs. p_body p \<noteq> Delete hs"
  shows "insert_post cr p st =
     (announce_post p (p_body p) (insert_post_payload h bs (index_post p h (p_body p) st)), Ok h)"
  using assms post_to_bytes_Ok_recognized [OF assms(2)]
  by (cases "p_body p")
    (simp_all add: insert_post_def insert_post_body_def store_payload_def m_then_assoc Let_def m_return_def
      m_modify_def m_bind_def m_then_def m_lift_def m_each_if_modify)

lemma insert_post_delete_eq:
  assumes "post_hash cr p = Ok h" and "post_to_bytes p = Ok bs" and "p_body p = Delete hs"
  shows "insert_post cr p st =
     (case m_each (delete_round p h) hs st of
        (st', Ok _) \<Rightarrow> (insert_post_payload h bs st', Ok h)
      | (st', Err e) \<Rightarrow> (st', Err e)
      | (st', Panic x) \<Rightarrow> (st', Panic x))"
  using assms
  by (auto simp: insert_post_def insert_post_body_def store_payload_def Let_def m_return_def m_modify_def m_bind_def
      m_then_def m_lift_def split: prod.splits result.splits)

lemma inv_index_post:
  assumes "post_hash cr p = Ok h" and "inv_pending cr {h} st"
  shows "inv_pending cr {h} (index_post p h (p_body p) st)"
proof -
  have up: "inv_pending cr {h} (update_posts p (get_channel p) (get_timestamp p) h st)"
    using inv_update_posts [OF assms(2,1)] by simp
  have nm: "inv_pending cr {h} (fold (\<lambda>u. insert_peer_name pk (ui_val u) ts h) us s)" if "inv_pending cr {h} s" for us :: "user_info list" and s pk ts
    using that by (induction us arbitrary: s) (use inv_peer_name [of cr "{h}" _ h] in auto)
  show ?thesis
    using up assms(2) nm inv_membership [of cr "{h}" st h] inv_topic [of cr "{h}" _ h] inv_info_hash [of cr "{h}" _ h]
    by (cases "p_body p") (simp_all add: inv_members)
qed

lemma inv_announce: "inv_pending cr H st \<Longrightarrow> inv_pending cr H (announce_post p b st)"
  by (cases b) (simp_all add: inv_insert_channel inv_send)

lemma insert_post_inv:
  assumes "store_inv cr st"
  shows "store_inv cr (fst (insert_post cr p st))"
proof (cases "post_hash cr p")
  case (Ok h)
  then obtain bs where bs: "post_to_bytes p = Ok bs" "generichash_hash cr bs = Some h" "length h = 32"
    by (auto simp: post_hash_eq_Ok)
  show ?thesis
  proof (cases "\<exists>hs. p_body p = Delete hs")
    case True
    then obtain hs where b: "p_body p = Delete hs" by blast
    have "store_inv cr (fst (m_each (delete_round p h) hs st))"
      using keepsD [OF keeps_each [OF keeps_delete_round] assms] .
    then show ?thesis
      using inv_payload [OF store_inv_upto [of cr _ h] bs(2,3)] unfolding insert_post_delete_eq [OF Ok bs(1) b]
      by (auto simp: store_inv_def split: prod.split result.split)
  next
    case False
    have "inv_pending cr {h} (index_post p h (p_body p) st)"
      by (rule inv_index_post [OF Ok store_inv_upto [OF assms]])
    from inv_payload [OF this bs(2,3)] show ?thesis
      using False by (simp add: insert_post_eq [OF Ok bs(1)] store_inv_def inv_announce)
  qed
qed (use assms in \<open>simp_all add: insert_post_def\<close>)

subsection \<open>Deletion and authorship\<close>

text \<open>What a round of a \<^verbatim>\<open>post/delete\<close> may do to the payload of one hash.\<close>

definition deletable :: "post \<Rightarrow> payload \<Rightarrow> bool" where
  "deletable p bs \<longleftrightarrow> (\<exists>n q. post_from_bytes bs = Ok (n, q) \<and> get_public_key q = get_public_key p)"

lemma delete_round_cases:
  "delete_round p h target st =
     (case get_post_payload st target of
        None \<Rightarrow> (st, Ok ())
      | Some bs \<Rightarrow>
          (case post_from_bytes bs of
             Ok (n, q) \<Rightarrow>
               if get_public_key p = get_public_key q
               then (insert_delete_hash (get_public_key p) h (delete_post target st), Ok ())
               else (st, Ok ())
           | Err e \<Rightarrow> (st, Err e)
           | Panic x \<Rightarrow> (st, Panic x)))"
  by (auto simp: delete_round_def m_bind_def m_then_def m_lift_def m_get_def m_modify_def m_return_def
      split: option.split result.split prod.split)

lemma payload_insert_delete_hash [simp]: "get_post_payload (insert_delete_hash pk h st) g = get_post_payload st g"
  by (simp add: get_post_payload_def insert_delete_hash_def)

lemma delete_round_payload:
  assumes "delete_round p h target st = (st', r)" and "get_post_payload st g = Some bs"
  shows "get_post_payload st' g = Some bs \<or> get_post_payload st' g = None \<and> g = target \<and> deletable p bs"
  using assms unfolding delete_round_cases deletable_def
  by (auto split: option.splits result.splits prod.splits if_splits)

lemma delete_round_none:
  "delete_round p h target st = (st', r) \<Longrightarrow> get_post_payload st g = None \<Longrightarrow> get_post_payload st' g = None"
  unfolding delete_round_cases by (auto split: option.splits result.splits prod.splits if_splits)

lemma m_then_cases:
  assumes "m_then m n s = (s', r)"
  obtains x s1 where "m s = (s1, Ok x)" and "n s1 = (s', r)"
  | "\<forall>x. snd (m s) \<noteq> Ok x" and "fst (m s) = s'"
  using assms by (auto simp: m_then_def m_bind_def split: prod.splits result.splits)

lemma delete_rounds_none:
  "m_each (delete_round p h) hs st = (st', r) \<Longrightarrow> get_post_payload st g = None \<Longrightarrow> get_post_payload st' g = None"
proof (induction hs arbitrary: st)
  case (Cons t hs)
  from Cons.prems(1) have "m_then (delete_round p h t) (m_each (delete_round p h) hs) st = (st', r)" by simp
  then show ?case
  proof (cases rule: m_then_cases)
    case (1 x s1)
    then show ?thesis using Cons.IH delete_round_none Cons.prems(2) by blast
  next
    case 2
    then show ?thesis using delete_round_none [of p h t st st' "snd (delete_round p h t st)"] Cons.prems(2)
      by (simp add: prod_eq_iff)
  qed
qed (simp add: m_return_def)

lemma delete_rounds_payload:
  "m_each (delete_round p h) hs st = (st', r) \<Longrightarrow> get_post_payload st g = Some bs \<Longrightarrow>
     get_post_payload st' g = Some bs \<or> get_post_payload st' g = None \<and> g \<in> set hs \<and> deletable p bs"
proof (induction hs arbitrary: st)
  case (Cons t hs)
  from Cons.prems(1) have "m_then (delete_round p h t) (m_each (delete_round p h) hs) st = (st', r)" by simp
  then show ?case
  proof (cases rule: m_then_cases)
    case (1 x s1)
    from delete_round_payload [OF 1(1) Cons.prems(2)] show ?thesis
      using Cons.IH [OF 1(2)] delete_rounds_none [OF 1(2)] by auto
  next
    case 2
    then have "delete_round p h t st = (st', snd (delete_round p h t st))" by (simp add: prod_eq_iff)
    from delete_round_payload [OF this Cons.prems(2)] show ?thesis by auto
  qed
qed (simp add: m_return_def)

lemma delete_rounds_removed:
  "m_each (delete_round p h) hs st = (st', Ok ()) \<Longrightarrow> get_post_payload st g = Some bs \<Longrightarrow> deletable p bs \<Longrightarrow>
     g \<in> set hs \<Longrightarrow> get_post_payload st' g = None"
proof (induction hs arbitrary: st)
  case (Cons t hs)
  from Cons.prems(1) obtain s1 where 1: "delete_round p h t st = (s1, Ok ())"
    and 2: "m_each (delete_round p h) hs s1 = (st', Ok ())"
    by (auto simp: m_then_def m_bind_eq_Ok)
  show ?case
  proof (cases "g = t")
    case True
    have "get_post_payload s1 g = None"
      using 1 Cons.prems(2,3) True unfolding delete_round_cases deletable_def by auto
    then show ?thesis by (rule delete_rounds_none [OF 2])
  next
    case False
    have "get_post_payload s1 g = Some bs" using delete_round_payload [OF 1 Cons.prems(2)] False by auto
    with Cons.IH [OF 2] False Cons.prems show ?thesis by simp
  qed
qed simp

lemma payload_index_post [simp]: "get_post_payload (index_post p h b st) g = get_post_payload st g"
proof -
  have "st_post_payloads (fold (\<lambda>u. insert_peer_name pk (ui_val u) ts h) us s) = st_post_payloads s"
    for us :: "user_info list" and s pk ts
    by (induction us arbitrary: s) (simp_all add: insert_peer_name_def)
  then show ?thesis by (cases b) (simp_all add: get_post_payload_def store_field_defs)
qed

lemma payload_announce [simp]: "get_post_payload (announce_post p b st) g = get_post_payload st g"
  by (cases b) (simp_all add: get_post_payload_def insert_channel_def send_post_to_live_streams_def split: option.split)

lemma payload_insert_payload [simp]:
  "get_post_payload (insert_post_payload h bs st) g = (if g = h then Some bs else get_post_payload st g)"
  by (simp add: get_post_payload_def insert_post_payload_def)

lemma insert_post_hash: "insert_post cr p st = (st', Ok h) \<Longrightarrow> post_hash cr p = Ok h"
  by (auto simp: insert_post_def m_bind_def m_lift_def m_then_def m_return_def split: prod.splits result.splits)

lemma insert_post_failed_hash: "\<forall>h. post_hash cr p \<noteq> Ok h \<Longrightarrow> fst (insert_post cr p st) = st"
  by (cases "post_hash cr p") (simp_all add: insert_post_def)

lemma insert_post_known_channel:
  assumes "insert_post cr p st = (st', Ok h)" and "get_channel p = Some ch"
  shows "ch \<in> set (st_channels st')"
proof -
  obtain bs where h: "post_hash cr p = Ok h" "post_to_bytes p = Ok bs"
    using insert_post_hash [OF assms(1)] by (auto simp: post_hash_eq_Ok)
  have "\<forall>hs. p_body p \<noteq> Delete hs" using assms(2) by auto
  from insert_post_eq [OF h this, of st] assms show ?thesis
    by (auto simp: insert_channel_def split: post_body.splits)
qed

lemma insert_post_payload_result:
  assumes "insert_post cr p st = (st', Ok h)" and "post_to_bytes p = Ok bs"
  shows "get_post_payload st' h = Some bs"
proof (cases "\<exists>hs. p_body p = Delete hs")
  case True
  then obtain hs where "p_body p = Delete hs" by blast
  from insert_post_delete_eq [OF insert_post_hash [OF assms(1)] assms(2) this, of st] assms(1) show ?thesis
    by (auto split: prod.splits result.splits)
next
  case False
  then show ?thesis using insert_post_eq [OF insert_post_hash [OF assms(1)] assms(2), of st] assms(1) by auto
qed

lemma insert_post_other_payload:
  assumes "insert_post cr p st = (st', r)" and "get_post_payload st g = Some bs" and "post_hash cr p \<noteq> Ok g"
  shows "get_post_payload st' g = Some bs \<or>
     get_post_payload st' g = None \<and> deletable p bs \<and> (\<exists>hs. p_body p = Delete hs \<and> g \<in> set hs)"
proof (cases "\<exists>h. post_hash cr p = Ok h")
  case True
  then obtain h bs' where h: "post_hash cr p = Ok h" "post_to_bytes p = Ok bs'" by (auto simp: post_hash_eq_Ok)
  with assms(3) have g: "g \<noteq> h" by auto
  show ?thesis
  proof (cases "\<exists>hs. p_body p = Delete hs")
    case True
    then obtain hs where b: "p_body p = Delete hs" by blast
    obtain st1 r1 where m: "m_each (delete_round p h) hs st = (st1, r1)" by fastforce
    have "get_post_payload st' g = get_post_payload st1 g"
      using assms(1) m g insert_post_delete_eq [OF h b, of st] by (cases r1) auto
    with delete_rounds_payload [OF m assms(2)] b show ?thesis by auto
  next
    case False
    then show ?thesis using insert_post_eq [OF h, of st] assms g by auto
  qed
qed (use insert_post_failed_hash [of cr p st] assms in auto)

subsection \<open>Live streams\<close>

lemma inv_get_posts_live:
  assumes "store_inv cr st"
  shows "store_inv cr (fst (get_posts_live opts st))"
proof -
  let ?id = "st_live_stream_id st + 1"
  let ?s0 = "st\<lparr>st_live_stream_id := ?id\<rparr>"
  have s0: "store_inv cr ?s0"
    using assms by (fastforce simp: store_inv_def inv_pending_def payloads_ok_def index_ok_def posts_ok_def maps_ok_def
        streams_ok_def indexed_hashes_def)
  show ?thesis
  proof (cases "live_stream_new ?id opts")
    case (Ok ls)
    let ?s1 = "?s0\<lparr>st_live_streams := hm_push (opt_channel opts) ls (st_live_streams st)\<rparr>"
    obtain old where ins: "hm_push (opt_channel opts) ls (st_live_streams st) =
        hm_insert (opt_channel opts) (old @ [ls]) (st_live_streams st)"
      and old: "hm_get (st_live_streams st) (opt_channel opts) = Some old \<or>
        hm_get (st_live_streams st) (opt_channel opts) = None \<and> old = []" by (rule hm_push_cases)
    have "ls_id ls = ?id" using Ok by (auto simp: live_stream_new_def Let_def split: if_splits)
    then have "\<forall>s \<in> set (old @ [ls]). live_stream_ok s \<and> ls_id s \<le> ?id"
      using old live_stream_ok_new [OF Ok] assms
      by (auto simp: store_inv_def inv_pending_def streams_ok_def dest!: map_of_SomeD) fastforce
    then have "streams_ok ?s1"
      using s0 set_hm_insert_subset [of "opt_channel opts" "old @ [ls]" "st_live_streams st"]
      by (fastforce simp: ins store_inv_def inv_pending_def streams_ok_def)
    then have "store_inv cr ?s1"
      using s0 by (simp add: store_inv_def inv_pending_def payloads_ok_def index_ok_def posts_ok_def maps_ok_def
          indexed_hashes_def)
    then show ?thesis
      using Ok by (cases "get_posts ?s1 opts") (simp_all add: get_posts_live_def m_return_def)
  qed (use s0 in \<open>simp_all add: get_posts_live_def\<close>)
qed

subsection \<open>Reachable stores\<close>

text \<open>The operations of a store in any order, as its owner and the holders of its streams call them.\<close>

inductive store_reach :: "crypto \<Rightarrow> keypair \<Rightarrow> store \<Rightarrow> bool" for cr kp where
  default: "store_reach cr kp (store_default kp)"
| insert_post: "store_reach cr kp st \<Longrightarrow> store_reach cr kp (fst (insert_post cr p st))"
| delete_post: "store_reach cr kp st \<Longrightarrow> store_reach cr kp (delete_post h st)"
| insert_channel: "store_reach cr kp st \<Longrightarrow> store_reach cr kp (insert_channel ch st)"
| get_posts_live: "store_reach cr kp st \<Longrightarrow> store_reach cr kp (fst (get_posts_live opts st))"
| poll_stream: "store_reach cr kp st \<Longrightarrow> hm_get (st_live_streams st) ch = Some streams \<Longrightarrow> i < length streams \<Longrightarrow>
    store_reach cr kp (st\<lparr>st_live_streams :=
      hm_insert ch (streams[i := fst (live_stream_poll_next (streams ! i))]) (st_live_streams st)\<rparr>)"
| drop_stream: "store_reach cr kp st \<Longrightarrow> hm_get (st_live_streams st) ch = Some streams \<Longrightarrow>
    store_reach cr kp (st\<lparr>st_live_streams := hm_insert ch (live_stream_drop ls streams) (st_live_streams st)\<rparr>)"

lemma store_inv_delete: "store_inv cr st \<Longrightarrow> store_inv cr (delete_post h st)"
  by (simp add: store_inv_def inv_delete)

lemma store_inv_insert_channel: "store_inv cr st \<Longrightarrow> store_inv cr (insert_channel ch st)"
  by (simp add: store_inv_def inv_insert_channel)

lemma store_inv_streams:
  assumes "store_inv cr st" and "\<forall>s \<in> set streams. live_stream_ok s \<and> ls_id s \<le> st_live_stream_id st"
  shows "store_inv cr (st\<lparr>st_live_streams := hm_insert ch streams (st_live_streams st)\<rparr>)"
  using assms set_hm_insert_subset [of ch streams "st_live_streams st"]
  by (fastforce simp: store_inv_def inv_pending_def payloads_ok_def index_ok_def posts_ok_def maps_ok_def streams_ok_def
      indexed_hashes_def)

lemma store_reach_inv: "store_reach cr kp st \<Longrightarrow> store_inv cr st"
proof (induction rule: store_reach.induct)
  case (poll_stream st ch streams i)
  have "\<forall>s \<in> set streams. live_stream_ok s \<and> ls_id s \<le> st_live_stream_id st"
    using poll_stream by (fastforce simp: store_inv_def inv_pending_def streams_ok_def dest: map_of_SomeD)
  moreover from this have "live_stream_ok (fst (live_stream_poll_next (streams ! i))) \<and>
      ls_id (fst (live_stream_poll_next (streams ! i))) \<le> st_live_stream_id st"
    using poll_stream(3) by (auto simp: live_stream_ok_poll) (auto simp: live_stream_poll_next_def split: list.split)
  ultimately show ?case
    using set_update_subset_insert [of streams i "fst (live_stream_poll_next (streams ! i))"]
    by (intro store_inv_streams poll_stream.IH) auto
next
  case (drop_stream st ch streams ls)
  then show ?case
    by (intro store_inv_streams drop_stream.IH)
      (fastforce simp: live_stream_drop_eq store_inv_def inv_pending_def streams_ok_def dest: map_of_SomeD)
qed (simp_all add: store_inv_default insert_post_inv inv_get_posts_live store_inv_delete store_inv_insert_channel)

end
