(* ===== verification/Cable_Message.thy ===== *)
theory Cable_Message
  imports Cable_Post
begin

text \<open>
  \<^verbatim>\<open>cable/src/message.rs\<close>: the messages of the protocol, their constructors, the decrement of the hop
  count, and the binary encoding. As for posts, the encoder of the code is modelled with its buffer and
  its moving offset, \<open>message_bytes\<close> is the format, and the theorems relate the two directions.

  The length prefix of a message is computed by the code from the size of the whole message, prefix
  included (\<open>message_len_field\<close>). The theorems show for which sizes this is the number of bytes that
  follow and by how much it is off for the others.
\<close>

subsection \<open>Data\<close>

record message_header =
  mh_msg_type :: u64
  mh_circuit_id :: circuit_id
  mh_req_id :: req_id

datatype request_body =
    PostRequest "hash list"
  | CancelRequest req_id
  | ChannelTimeRangeRequest channel timestamp timestamp u64
  | ChannelStateRequest channel u64
  | ChannelListRequest u64 u64

datatype response_body =
    HashResponse "hash list"
  | PostResponse "payload list"
  | ChannelListResponse "channel list"

datatype message_body =
    Request u8 request_body
  | Response response_body
  | UnrecognizedMsg u64

record message =
  m_header :: message_header
  m_body :: message_body

subsection \<open>Constructors and accessors\<close>

definition message_new :: "message_header \<Rightarrow> message_body \<Rightarrow> message" where
  "message_new header body = \<lparr>m_header = header, m_body = body\<rparr>"

definition message_header_new :: "u64 \<Rightarrow> circuit_id \<Rightarrow> req_id \<Rightarrow> message_header" where
  "message_header_new msg_type circuit_id req_id =
     \<lparr>mh_msg_type = msg_type, mh_circuit_id = circuit_id, mh_req_id = req_id\<rparr>"

text \<open>\<^verbatim>\<open>*ttl -= 1\<close> on a \<^verbatim>\<open>u8\<close>: with overflow checks a hop count of 0 panics, without them it wraps to 255.\<close>

definition decrement_ttl :: "bool \<Rightarrow> message \<Rightarrow> message res" where
  "decrement_ttl overflow_checks msg =
     (case m_body msg of
        Request ttl body \<Rightarrow>
          if ttl = 0 \<and> overflow_checks then Panic ArithmeticOverflow
          else Ok (msg\<lparr>m_body := Request (ttl - 1) body\<rparr>)
      | _ \<Rightarrow> Ok msg)"

fun body_message_type :: "message_body \<Rightarrow> u64" where
  "body_message_type (Request _ (PostRequest _)) = POST_REQUEST"
| "body_message_type (Request _ (CancelRequest _)) = CANCEL_REQUEST"
| "body_message_type (Request _ (ChannelTimeRangeRequest _ _ _ _)) = CHANNEL_TIME_RANGE_REQUEST"
| "body_message_type (Request _ (ChannelStateRequest _ _)) = CHANNEL_STATE_REQUEST"
| "body_message_type (Request _ (ChannelListRequest _ _)) = CHANNEL_LIST_REQUEST"
| "body_message_type (Response (HashResponse _)) = HASH_RESPONSE"
| "body_message_type (Response (PostResponse _)) = POST_RESPONSE"
| "body_message_type (Response (ChannelListResponse _)) = CHANNEL_LIST_RESPONSE"
| "body_message_type (UnrecognizedMsg t) = t"

definition message_type :: "message \<Rightarrow> u64" where
  "message_type m = body_message_type (m_body m)"

definition post_request :: "circuit_id \<Rightarrow> req_id \<Rightarrow> u8 \<Rightarrow> hash list \<Rightarrow> message" where
  "post_request circuit_id req_id ttl hashes =
     message_new (message_header_new POST_REQUEST circuit_id req_id) (Request ttl (PostRequest hashes))"

definition cancel_request :: "circuit_id \<Rightarrow> req_id \<Rightarrow> u8 \<Rightarrow> req_id \<Rightarrow> message" where
  "cancel_request circuit_id req_id ttl cancel_id =
     message_new (message_header_new CANCEL_REQUEST circuit_id req_id) (Request ttl (CancelRequest cancel_id))"

definition channel_time_range_request :: "circuit_id \<Rightarrow> req_id \<Rightarrow> u8 \<Rightarrow> channel_options \<Rightarrow> message" where
  "channel_time_range_request circuit_id req_id ttl opts =
     message_new (message_header_new CHANNEL_TIME_RANGE_REQUEST circuit_id req_id)
       (Request ttl (ChannelTimeRangeRequest (opt_channel opts) (opt_time_start opts) (opt_time_end opts)
          (opt_limit opts)))"

definition channel_state_request :: "circuit_id \<Rightarrow> req_id \<Rightarrow> u8 \<Rightarrow> channel \<Rightarrow> u64 \<Rightarrow> message" where
  "channel_state_request circuit_id req_id ttl ch future =
     message_new (message_header_new CHANNEL_STATE_REQUEST circuit_id req_id)
       (Request ttl (ChannelStateRequest ch future))"

definition channel_list_request :: "circuit_id \<Rightarrow> req_id \<Rightarrow> u8 \<Rightarrow> u64 \<Rightarrow> u64 \<Rightarrow> message" where
  "channel_list_request circuit_id req_id ttl skip limit =
     message_new (message_header_new CHANNEL_LIST_REQUEST circuit_id req_id)
       (Request ttl (ChannelListRequest skip limit))"

definition hash_response :: "circuit_id \<Rightarrow> req_id \<Rightarrow> hash list \<Rightarrow> message" where
  "hash_response circuit_id req_id hashes =
     message_new (message_header_new HASH_RESPONSE circuit_id req_id) (Response (HashResponse hashes))"

definition post_response :: "circuit_id \<Rightarrow> req_id \<Rightarrow> payload list \<Rightarrow> message" where
  "post_response circuit_id req_id posts =
     message_new (message_header_new POST_RESPONSE circuit_id req_id) (Response (PostResponse posts))"

definition channel_list_response :: "circuit_id \<Rightarrow> req_id \<Rightarrow> channel list \<Rightarrow> message" where
  "channel_list_response circuit_id req_id channels =
     message_new (message_header_new CHANNEL_LIST_RESPONSE circuit_id req_id) (Response (ChannelListResponse channels))"

subsection \<open>Encoding\<close>

fun message_body_size :: "message_body \<Rightarrow> nat" where
  "message_body_size (Request ttl (PostRequest hashes)) =
     varint_length (ucast ttl) + varint_length (of_nat (length hashes)) + length hashes * 32"
| "message_body_size (Request ttl (CancelRequest _)) = varint_length (ucast ttl) + 4"
| "message_body_size (Request ttl (ChannelTimeRangeRequest ch time_start time_end limit)) =
     varint_length (ucast ttl) + varint_length (of_nat (length ch)) + length ch
     + varint_length time_start + varint_length time_end + varint_length limit"
| "message_body_size (Request ttl (ChannelStateRequest ch future)) =
     varint_length (ucast ttl) + varint_length (of_nat (length ch)) + length ch + varint_length future"
| "message_body_size (Request ttl (ChannelListRequest skip limit)) =
     varint_length (ucast ttl) + varint_length skip + varint_length limit"
| "message_body_size (Response (HashResponse hashes)) =
     varint_length (of_nat (length hashes)) + length hashes * 32"
| "message_body_size (Response (PostResponse posts)) =
     fold (\<lambda>p sum. sum + varint_length (of_nat (length p)) + length p) posts 0 + varint_length 0"
| "message_body_size (Response (ChannelListResponse channels)) =
     fold (\<lambda>ch sum. sum + varint_length (of_nat (length ch)) + length ch) channels 0 + varint_length 0"
| "message_body_size (UnrecognizedMsg _) = 0"

definition message_count_bytes :: "message \<Rightarrow> nat" where
  "message_count_bytes m =
     (let header_size = varint_length (message_type m) + 4 + 4;
          message_size = header_size + message_body_size (m_body m)
      in varint_length (of_nat message_size) + message_size)"

definition message_count_from_bytes :: "u8 list \<Rightarrow> nat res" where
  "message_count_from_bytes buf =
     (if buf = [] then raise_cable MessageEmpty
      else and_then (varint_decode buf) (\<lambda>(sum, msg_len). Ok (sum + unat msg_len)))"

text \<open>The loop body of post and channel list responses: the guard, the length, the bytes.\<close>

fun put_blob :: "u8 list \<Rightarrow> error writer" where
  "put_blob bs (buf, off) =
     (if off + length bs > length buf
      then raise_cable (DstTooSmall (length buf) (off + length bs))
      else wr_run [put_varint (of_nat (length bs)), put_slice bs] (buf, off))"

fun put_message_body :: "message_body \<Rightarrow> error writer" where
  "put_message_body (Request ttl (PostRequest hashes)) =
     wr_run [put_varint (ucast ttl), put_varint (of_nat (length hashes)), wr_each put_hash hashes]"
| "put_message_body (Request ttl (CancelRequest cancel_id)) =
     wr_run [put_varint (ucast ttl), put_item (array_codec be_codec 4) cancel_id]"
| "put_message_body (Request ttl (ChannelTimeRangeRequest ch time_start time_end limit)) =
     wr_run [put_varint (ucast ttl), put_string ch, put_varint time_start, put_varint time_end, put_varint limit]"
| "put_message_body (Request ttl (ChannelStateRequest ch future)) =
     wr_run [put_varint (ucast ttl), put_string ch, put_varint future]"
| "put_message_body (Request ttl (ChannelListRequest skip limit)) =
     wr_run [put_varint (ucast ttl), put_varint skip, put_varint limit]"
| "put_message_body (Response (HashResponse hashes)) =
     wr_run [put_varint (of_nat (length hashes)), wr_each put_hash hashes]"
| "put_message_body (Response (PostResponse posts)) = wr_run [wr_each put_blob posts, put_varint 0]"
| "put_message_body (Response (ChannelListResponse channels)) =
     wr_run [wr_each put_blob channels, put_varint 0]"
| "put_message_body (UnrecognizedMsg t) = (\<lambda>_. raise_cable (MessageWriteUnrecognizedType t))"

definition message_len_field :: "message \<Rightarrow> nat" where
  "message_len_field m =
     (let msg_len = message_count_bytes m in msg_len - varint_length (of_nat msg_len))"

definition message_write_bytes :: "message \<Rightarrow> u8 list \<Rightarrow> (u8 list \<times> nat) res" where
  "message_write_bytes m buf =
     wr_run
       [put_varint (of_nat (message_len_field m)),
        put_varint (message_type m),
        put_item (array_codec be_codec 4) (mh_circuit_id (m_header m)),
        put_item (array_codec be_codec 4) (mh_req_id (m_header m)),
        put_message_body (m_body m)] (buf, 0)"

definition message_to_bytes :: "message \<Rightarrow> (u8 list) res" where
  "message_to_bytes m =
     and_then (message_write_bytes m (replicate (message_count_bytes m) 0)) (\<lambda>(buf, _). Ok buf)"

subsection \<open>Decoding\<close>

text \<open>The loops of post and channel list responses; a length of 0 ends them. \<open>check\<close> is the conversion of
  the bytes: none for posts, \<^verbatim>\<open>String::from_utf8\<close> for channels.\<close>

function read_until_empty :: "(u8 list \<Rightarrow> 'a res) \<Rightarrow> ('a list, error) reader" where
  "read_until_empty check buf off =
     rd_bind read_varint (\<lambda>len buf off.
       if len = 0 then rd_return [] buf off
       else
         rd_bind (read_slice (unat len)) (\<lambda>bs.
         rd_bind (rd_check (check bs)) (\<lambda>x.
         rd_bind (\<lambda>buf off. read_until_empty check buf off) (\<lambda>xs. rd_return (x # xs)))) buf off) buf off"
  by pat_completeness auto
termination
  by (relation "measure (\<lambda>(check, buf, off). length buf - off)")
    (auto simp: read_slice_eq_Ok rd_check_eq_Ok dest!: read_varint_progress)

declare read_until_empty.simps [simp del]

definition read_ttl :: "(u8, error) reader" where
  "read_ttl = rd_bind read_varint (\<lambda>ttl. rd_return (ucast ttl))"

definition read_hash_list :: "(hash list, error) reader" where
  "read_hash_list = rd_bind read_varint (\<lambda>num_hashes. read_hashes (unat num_hashes))"

definition read_channel_time_range_request :: "(message_body, error) reader" where
  "read_channel_time_range_request =
     rd_bind read_ttl (\<lambda>ttl.
     rd_bind read_string (\<lambda>ch.
     rd_bind read_varint (\<lambda>time_start.
     rd_bind read_varint (\<lambda>time_end.
     rd_bind read_varint (\<lambda>limit.
     rd_return (Request ttl (ChannelTimeRangeRequest ch time_start time_end limit)))))))"

definition read_channel_state_request :: "(message_body, error) reader" where
  "read_channel_state_request =
     rd_bind read_ttl (\<lambda>ttl.
     rd_bind read_string (\<lambda>ch.
     rd_bind read_varint (\<lambda>future. rd_return (Request ttl (ChannelStateRequest ch future)))))"

definition read_channel_list_request :: "(message_body, error) reader" where
  "read_channel_list_request =
     rd_bind read_ttl (\<lambda>ttl.
     rd_bind read_varint (\<lambda>skip.
     rd_bind read_varint (\<lambda>limit. rd_return (Request ttl (ChannelListRequest skip limit)))))"

definition read_channel_list_response :: "(message_body, error) reader" where
  "read_channel_list_response =
     rd_bind (read_until_empty string_from_utf8) (\<lambda>channels.
     rd_return (Response (ChannelListResponse channels)))"

lemmas read_channel_bodies = read_channel_time_range_request_def read_channel_state_request_def
  read_channel_list_request_def read_channel_list_response_def

definition read_message_body :: "u64 \<Rightarrow> (message_body, error) reader" where
  "read_message_body msg_type =
     (if msg_type = HASH_RESPONSE then
        rd_bind read_hash_list (\<lambda>hashes. rd_return (Response (HashResponse hashes)))
      else if msg_type = POST_RESPONSE then
        rd_bind (read_until_empty Ok) (\<lambda>posts. rd_return (Response (PostResponse posts)))
      else if msg_type = POST_REQUEST then
        rd_bind read_ttl (\<lambda>ttl.
        rd_bind read_hash_list (\<lambda>hashes. rd_return (Request ttl (PostRequest hashes))))
      else if msg_type = CANCEL_REQUEST then
        rd_bind read_ttl (\<lambda>ttl.
        rd_bind (read_slice 4) (\<lambda>cancel_id. rd_return (Request ttl (CancelRequest cancel_id))))
      else if msg_type = CHANNEL_TIME_RANGE_REQUEST then read_channel_time_range_request
      else if msg_type = CHANNEL_STATE_REQUEST then read_channel_state_request
      else if msg_type = CHANNEL_LIST_REQUEST then read_channel_list_request
      else if msg_type = CHANNEL_LIST_RESPONSE then read_channel_list_response
      else rd_return (UnrecognizedMsg msg_type))"

definition read_message_fields :: "(message, error) reader" where
  "read_message_fields =
     rd_bind read_varint (\<lambda>num_bytes.
     rd_bind read_varint (\<lambda>msg_type.
     rd_bind (read_slice 4) (\<lambda>circuit_id.
     rd_bind (read_slice 4) (\<lambda>req_id.
     rd_bind (read_message_body msg_type) (\<lambda>body.
     rd_return (message_new (message_header_new msg_type circuit_id req_id) body))))))"

definition message_from_bytes :: "u8 list \<Rightarrow> (nat \<times> message) res" where
  "message_from_bytes buf =
     (if buf = [] then raise_cable MessageEmpty
      else and_then (read_message_fields buf 0) (\<lambda>(m, off). Ok (off, m)))"

subsection \<open>The format\<close>

definition blobs_bytes :: "(u8 list) list \<Rightarrow> u8 list" where
  "blobs_bytes bss = concat (map string_bytes bss) @ varint_bytes 0"

fun message_body_bytes :: "message_body \<Rightarrow> u8 list" where
  "message_body_bytes (Request ttl (PostRequest hashes)) = varint_bytes (ucast ttl) @ hashes_bytes hashes"
| "message_body_bytes (Request ttl (CancelRequest cancel_id)) = varint_bytes (ucast ttl) @ cancel_id"
| "message_body_bytes (Request ttl (ChannelTimeRangeRequest ch time_start time_end limit)) =
     varint_bytes (ucast ttl) @ string_bytes ch @ varint_bytes time_start @ varint_bytes time_end @
     varint_bytes limit"
| "message_body_bytes (Request ttl (ChannelStateRequest ch future)) =
     varint_bytes (ucast ttl) @ string_bytes ch @ varint_bytes future"
| "message_body_bytes (Request ttl (ChannelListRequest skip limit)) =
     varint_bytes (ucast ttl) @ varint_bytes skip @ varint_bytes limit"
| "message_body_bytes (Response (HashResponse hashes)) = hashes_bytes hashes"
| "message_body_bytes (Response (PostResponse posts)) = blobs_bytes posts"
| "message_body_bytes (Response (ChannelListResponse channels)) = blobs_bytes channels"
| "message_body_bytes (UnrecognizedMsg _) = []"

text \<open>Everything behind the length prefix.\<close>

definition message_content :: "message \<Rightarrow> u8 list" where
  "message_content m =
     varint_bytes (message_type m) @ mh_circuit_id (m_header m) @ mh_req_id (m_header m) @
     message_body_bytes (m_body m)"

definition message_bytes :: "message \<Rightarrow> u8 list" where
  "message_bytes m = varint_bytes (of_nat (message_len_field m)) @ message_content m"

subsection \<open>Well-formed messages\<close>

fun request_body_ok :: "request_body \<Rightarrow> bool" where
  "request_body_ok (PostRequest hashes) \<longleftrightarrow> hashes_ok hashes"
| "request_body_ok (CancelRequest cancel_id) \<longleftrightarrow> length cancel_id = 4"
| "request_body_ok (ChannelTimeRangeRequest ch time_start time_end limit) \<longleftrightarrow>
     string_ok ch \<and> unat time_start < 2 ^ 56 \<and> unat time_end < 2 ^ 56 \<and> unat limit < 2 ^ 56"
| "request_body_ok (ChannelStateRequest ch future) \<longleftrightarrow> string_ok ch \<and> unat future < 2 ^ 56"
| "request_body_ok (ChannelListRequest skip limit) \<longleftrightarrow> unat skip < 2 ^ 56 \<and> unat limit < 2 ^ 56"

fun response_body_ok :: "response_body \<Rightarrow> bool" where
  "response_body_ok (HashResponse hashes) \<longleftrightarrow> hashes_ok hashes"
| "response_body_ok (PostResponse posts) \<longleftrightarrow> list_all (\<lambda>p. p \<noteq> [] \<and> length p < 2 ^ 56) posts"
| "response_body_ok (ChannelListResponse channels) \<longleftrightarrow> list_all (\<lambda>ch. ch \<noteq> [] \<and> string_ok ch) channels"

fun message_body_ok :: "message_body \<Rightarrow> bool" where
  "message_body_ok (Request ttl body) \<longleftrightarrow> request_body_ok body"
| "message_body_ok (Response body) \<longleftrightarrow> response_body_ok body"
| "message_body_ok (UnrecognizedMsg t) \<longleftrightarrow> 7 < t \<and> unat t < 2 ^ 56"

definition message_ok :: "message \<Rightarrow> bool" where
  "message_ok m \<longleftrightarrow> mh_msg_type (m_header m) = message_type m \<and> length (mh_circuit_id (m_header m)) = 4 \<and>
     length (mh_req_id (m_header m)) = 4 \<and> message_body_ok (m_body m)"

fun known_message :: "message_body \<Rightarrow> bool" where
  "known_message (UnrecognizedMsg _) \<longleftrightarrow> False"
| "known_message _ \<longleftrightarrow> True"

text \<open>What the Rust types alone guarantee: the widths of the arrays.\<close>

fun message_body_typed :: "message_body \<Rightarrow> bool" where
  "message_body_typed (Request _ (PostRequest hashes)) \<longleftrightarrow> list_all (\<lambda>h. length h = 32) hashes"
| "message_body_typed (Request _ (CancelRequest cancel_id)) \<longleftrightarrow> length cancel_id = 4"
| "message_body_typed (Response (HashResponse hashes)) \<longleftrightarrow> list_all (\<lambda>h. length h = 32) hashes"
| "message_body_typed _ \<longleftrightarrow> True"

definition message_typed :: "message \<Rightarrow> bool" where
  "message_typed m \<longleftrightarrow> length (mh_circuit_id (m_header m)) = 4 \<and> length (mh_req_id (m_header m)) = 4 \<and>
     message_body_typed (m_body m)"

lemma message_ok_typed: "message_ok m \<Longrightarrow> message_typed m"
  by (cases "m_body m" rule: message_body_typed.cases)
    (auto simp: message_ok_def message_typed_def hashes_ok_def)

subsection \<open>The size of the length prefix\<close>

lemma length_varint_bytes_less:
  "k < length (varint_bytes v) \<longleftrightarrow> k = 0 \<or> 2 ^ (7 * k) \<le> unat v"
proof (induction v arbitrary: k rule: varint_bytes.induct)
  case (1 v)
  show ?case
  proof (cases k)
    case 0
    then show ?thesis by (subst varint_bytes.simps) simp
  next
    case (Suc j)
    have pow: "(2::nat) ^ (7 * k) = 128 * 2 ^ (7 * j)" using Suc by (simp add: power_add)
    show ?thesis
    proof (cases "127 < v")
      case True
      then have big: "128 \<le> unat v" by (simp add: word_less_nat_alt)
      have "k < length (varint_bytes v) \<longleftrightarrow> j = 0 \<or> 2 ^ (7 * j) \<le> unat v div 128"
        using True 1 [of j] Suc by (subst varint_bytes.simps) (simp add: unat_drop_bit_7)
      also have "\<dots> \<longleftrightarrow> 2 ^ (7 * k) \<le> unat v"
        using big pow Suc by (auto simp: less_eq_div_iff_mult_less_eq mult.commute)
      finally show ?thesis using Suc by simp
    next
      case False
      then have "unat v < 128" by (simp add: word_less_nat_alt)
      moreover have "(128::nat) \<le> 2 ^ (7 * k)" using pow by simp
      ultimately have "\<not> 2 ^ (7 * k) \<le> unat v" by linarith
      with False Suc show ?thesis by (subst varint_bytes.simps) simp
    qed
  qed
qed

lemma varint_length_le_iff: "0 < k \<Longrightarrow> varint_length v \<le> k \<longleftrightarrow> unat v < 2 ^ (7 * k)"
  using length_varint_bytes_less [of k v] by (auto simp: varint_length_eq)

lemma varint_length_pos: "0 < varint_length v"
  by (simp add: varint_length_eq)

lemma varint_length_eqI:
  assumes "0 < k" and "unat v < 2 ^ (7 * k)" and "k = 1 \<or> 2 ^ (7 * (k - 1)) \<le> unat v"
  shows "varint_length v = k"
proof -
  have "varint_length v \<le> k" using assms(2) by (simp add: varint_length_le_iff [OF assms(1)])
  moreover have "\<not> varint_length v \<le> k - 1"
  proof (cases "k = 1")
    case True
    with varint_length_pos [of v] show ?thesis by simp
  next
    case False
    then have "0 < k - 1" using assms(1) by simp
    with assms(3) False show ?thesis by (simp add: varint_length_le_iff)
  qed
  ultimately show ?thesis using assms(1) by linarith
qed

text \<open>The boundary sizes: adding the length of its own prefix takes the size into one more byte.\<close>

definition prefix_exact :: "nat \<Rightarrow> bool" where
  "prefix_exact n \<longleftrightarrow> n + varint_length (of_nat n) < 2 ^ (7 * varint_length (of_nat n))"

lemma small_prefix_bound: "0 < l \<Longrightarrow> 2 ^ (7 * (l - 1)) + l < (2::nat) ^ (7 * l)"
proof (induction l)
  case (Suc l)
  show ?case
  proof (cases "l = 0")
    case False
    with Suc have "2 ^ (7 * (l - 1)) + l < (2::nat) ^ (7 * l)" by simp
    moreover have "(2::nat) ^ (7 * Suc l) = 128 * 2 ^ (7 * l)" by (simp add: power_add)
    moreover have "(1::nat) \<le> 2 ^ (7 * l)" by simp
    ultimately show ?thesis by simp
  qed simp
qed simp

lemma varint_length_total:
  fixes n :: nat
  assumes "n < 2 ^ 56"
  defines "l \<equiv> varint_length (of_nat n)"
  shows "varint_length (of_nat (l + n)) = (if prefix_exact n then l else l + 1)"
    and "varint_length (of_nat (l + n - varint_length (of_nat (l + n)))) = l"
proof -
  have un: "unat (of_nat n :: u64) = n" using assms by (intro unat_of_nat_u64) simp
  have l: "0 < l" "l \<le> 8" using varint_length_pos varint_length_le_iff [of 8] assms un by (auto simp: l_def)
  have ub: "n < 2 ^ (7 * l)" using varint_length_le_iff [of l "of_nat n"] l un by (auto simp: l_def)
  have lb: "l = 1 \<or> 2 ^ (7 * (l - 1)) \<le> n"
    using varint_length_le_iff [of "l - 1" "of_nat n"] l un by (force simp: l_def)
  have ut: "unat (of_nat (l + n) :: u64) = l + n" using assms l by (intro unat_of_nat_u64) simp
  have big: "(2::nat) ^ (7 * l) + l \<le> 2 ^ (7 * (l + 1))"
  proof -
    have "(2::nat) ^ (7 * (l + 1)) = 128 * 2 ^ (7 * l)" by (simp add: power_add)
    moreover have "l < (2::nat) ^ l" by (rule less_exp)
    moreover have "(2::nat) ^ l \<le> 2 ^ (7 * l)" by (intro power_increasing) auto
    ultimately show ?thesis by linarith
  qed
  show 1: "varint_length (of_nat (l + n)) = (if prefix_exact n then l else l + 1)"
  proof (cases "prefix_exact n")
    case True
    then have "varint_length (of_nat (l + n)) = l"
      using l lb ut by (intro varint_length_eqI) (auto simp: prefix_exact_def l_def)
    with True show ?thesis by simp
  next
    case False
    then have "varint_length (of_nat (l + n)) = l + 1"
      using l ub big ut by (intro varint_length_eqI) (auto simp: prefix_exact_def l_def)
    with False show ?thesis by simp
  qed
  show "varint_length (of_nat (l + n - varint_length (of_nat (l + n)))) = l"
  proof (cases "prefix_exact n")
    case True
    with 1 show ?thesis by (simp add: l_def)
  next
    case False
    have un1: "unat (of_nat (n - 1) :: u64) = n - 1" using assms by (intro unat_of_nat_u64) simp
    have "2 ^ (7 * (l - 1)) \<le> n - 1"
      using False small_prefix_bound [OF l(1)] l by (auto simp: prefix_exact_def l_def)
    then have "varint_length (of_nat (n - 1)) = l"
      using ub l un1 by (intro varint_length_eqI) auto
    with False 1 show ?thesis by simp
  qed
qed

subsection \<open>The encoder refines the format\<close>

lemma fold_blob_size:
  "fold (\<lambda>p sum. sum + varint_length (of_nat (length p)) + length p) bss n = n + length (concat (map string_bytes bss))"
  by (induction bss arbitrary: n) (simp_all add: length_string_bytes)

lemma varint_length_0: "varint_length 0 = 1"
  by (simp add: varint_length_eq)

lemma length_message_body_bytes:
  "message_body_typed b \<Longrightarrow> length (message_body_bytes b) = message_body_size b"
  by (cases b rule: message_body_size.cases)
    (simp_all add: hashes_bytes_def blobs_bytes_def length_concat_32 length_string_bytes fold_blob_size
      varint_length_0 flip: varint_length_eq)

lemma message_count_bytes_eq:
  assumes "message_typed m"
  shows "message_count_bytes m =
     varint_length (of_nat (length (message_content m))) + length (message_content m)"
proof -
  have "length (message_content m) = varint_length (message_type m) + 4 + 4 + message_body_size (m_body m)"
    using assms by (simp add: message_typed_def message_content_def length_message_body_bytes varint_length_eq)
  then show ?thesis by (simp add: message_count_bytes_def Let_def)
qed

lemma message_len_field_eq:
  assumes "message_typed m" and "length (message_content m) < 2 ^ 56"
  shows "message_len_field m =
     (if prefix_exact (length (message_content m)) then length (message_content m)
      else length (message_content m) - 1)"
  using varint_length_total(1) [OF assms(2)]
  by (simp add: message_len_field_def message_count_bytes_eq [OF assms(1)] Let_def)

lemma length_message_bytes:
  assumes "message_typed m" and "length (message_content m) < 2 ^ 56"
  shows "length (message_bytes m) = message_count_bytes m"
  using varint_length_total(2) [OF assms(2)]
  by (simp add: message_bytes_def message_len_field_def message_count_bytes_eq [OF assms(1)] Let_def varint_length_eq)

lemma writes_put_blob: "writes (put_blob bs) (string_bytes bs)"
proof (rule writesI)
  fix buf :: "u8 list" and off :: nat
  assume le: "off + length (string_bytes bs) \<le> length buf"
  have "writes (wr_run [put_varint (of_nat (length bs)), put_slice bs]) (string_bytes bs)"
    unfolding string_bytes_def by (intro writes_run_Cons writes_put_varint writes_run_one writes_put_slice)
  from writesD [OF this le] le
  show "put_blob bs (buf, off) = Ok (take off buf @ string_bytes bs @ drop (off + length (string_bytes bs)) buf,
      off + length (string_bytes bs))"
    by (simp add: length_string_bytes del: wr_run.simps)
qed

lemmas message_writes = writes_run_Cons writes_run_one writes_put_varint writes_put_hashes writes_put_string
  writes_put_array writes_each [OF writes_put_blob]

lemma writes_put_message_body:
  assumes "known_message b" and "message_body_typed b"
  shows "writes (put_message_body b) (message_body_bytes b)"
  using assms
  by (cases b rule: put_message_body.cases;
      simp only: put_message_body.simps message_body_bytes.simps hashes_bytes_def blobs_bytes_def
        known_message.simps message_body_typed.simps simp_thms; intro message_writes; assumption?)

lemma writes_message:
  assumes "known_message (m_body m)" and "message_typed m"
  shows "writes (wr_run
       [put_varint (of_nat (message_len_field m)), put_varint (message_type m),
        put_item (array_codec be_codec 4) (mh_circuit_id (m_header m)),
        put_item (array_codec be_codec 4) (mh_req_id (m_header m)),
        put_message_body (m_body m)]) (message_bytes m)"
  unfolding message_bytes_def message_content_def
  by (intro message_writes writes_put_message_body) (use assms in \<open>auto simp: message_typed_def\<close>)

lemma message_to_bytes_eq:
  assumes "message_typed m" and "known_message (m_body m)" and "length (message_content m) < 2 ^ 56"
  shows "message_to_bytes m = Ok (message_bytes m)"
  using writes_whole [OF writes_message [OF assms(2,1)], of "replicate (message_count_bytes m) 0"]
    length_message_bytes [OF assms(1,3)]
  by (simp add: message_to_bytes_def message_write_bytes_def del: wr_run.simps)

subsection \<open>The decoder inverts the format\<close>

lemma reads_bind_ttl [reads_intros]:
  assumes "reads (f ttl) b2 y"
  shows "reads (rd_bind read_ttl f) (varint_bytes (ucast ttl) @ b2) y"
proof -
  have "unat (ucast (ttl :: u8) :: u64) < 2 ^ 56"
    using unat_u8_less [of ttl] by (simp add: unsigned_ucast_eq take_bit_eq_mod)
  moreover have "(ucast (ucast ttl :: u64) :: u8) = ttl" by (rule bit_word_eqI) (auto simp: bit_simps)
  ultimately have "reads read_ttl (varint_bytes (ucast ttl) @ []) ttl"
    unfolding read_ttl_def using reads_return [of ttl] by (intro reads_bind_varint) auto
  then show ?thesis by (intro reads_bind [where f = f and x = ttl] assms) simp
qed

lemma reads_bind_hash_list [reads_intros]:
  assumes "hashes_ok hs" and "reads (f hs) b2 y"
  shows "reads (rd_bind read_hash_list f) (hashes_bytes hs @ b2) y"
  unfolding read_hash_list_def hashes_bytes_def
  by (intro reads_bind [OF reads_bind [OF reads_varint reads_hashes]] assms(2))
    (use assms(1) in \<open>simp_all add: hashes_ok_def list_all_iff unat_of_nat_56\<close>)

lemma reads_until_empty:
  "list_all (\<lambda>bs. bs \<noteq> [] \<and> length bs < 2 ^ 56 \<and> check bs = Ok bs) bss \<Longrightarrow>
     reads (read_until_empty check) (blobs_bytes bss) bss"
proof (induction bss)
  case Nil
  have "reads (rd_bind read_varint (\<lambda>n buf off. if n = 0 then rd_return [] buf off else f n buf off))
      (varint_bytes 0 @ []) ([] :: (u8 list) list)" for f
    by (intro reads_bind_varint) (simp_all add: reads_return)
  then show ?case by (simp add: reads_def read_until_empty.simps blobs_bytes_def)
next
  case (Cons bs bss)
  let ?body = "\<lambda>n :: u64. rd_bind (read_slice (unat n)) (\<lambda>bs. rd_bind (rd_check (check bs)) (\<lambda>x.
      rd_bind (\<lambda>buf off. read_until_empty check buf off) (\<lambda>xs. rd_return (x # xs))))"
  from Cons.prems have ok: "bs \<noteq> []" "length bs < 2 ^ 56" "check bs = Ok bs" by simp_all
  have nz: "(of_nat (length bs) :: u64) \<noteq> 0"
    using ok unat_of_nat_56 [of "length bs"] by (metis length_0_conv unat_0)
  have rest: "reads (\<lambda>buf off. read_until_empty check buf off) (blobs_bytes bss) bss" using Cons by simp
  have "reads (?body (of_nat (length bs))) (bs @ blobs_bytes bss @ []) (bs # bss)"
    by (intro reads_intros reads_bind [OF rest])
      ((use ok in \<open>simp_all add: unat_of_nat_56\<close>)?, rule reads_return)
  then have "reads (rd_bind read_varint (\<lambda>n buf off. if n = 0 then rd_return [] buf off else ?body n buf off))
      (varint_bytes (of_nat (length bs)) @ bs @ blobs_bytes bss @ []) (bs # bss)"
    using nz ok by (intro reads_bind_varint) (simp_all add: unat_of_nat_56)
  moreover have "reads (read_until_empty check) xs x = reads (rd_bind read_varint (\<lambda>n buf off.
      if n = 0 then rd_return [] buf off else ?body n buf off)) xs x" for xs x
    unfolding reads_def by (subst read_until_empty.simps) (rule refl)
  ultimately show ?case by (simp add: blobs_bytes_def string_bytes_def)
qed

lemma reads_bind_until_empty [reads_intros]:
  "list_all (\<lambda>bs. bs \<noteq> [] \<and> length bs < 2 ^ 56 \<and> check bs = Ok bs) bss \<Longrightarrow> reads (f bss) b2 y \<Longrightarrow>
     reads (rd_bind (read_until_empty check) f) (blobs_bytes bss @ b2) y"
  by (rule reads_bind [OF reads_until_empty])

lemma read_message_body_simps:
  "read_message_body HASH_RESPONSE =
     rd_bind read_hash_list (\<lambda>hashes. rd_return (Response (HashResponse hashes)))"
  "read_message_body POST_RESPONSE =
     rd_bind (read_until_empty Ok) (\<lambda>posts. rd_return (Response (PostResponse posts)))"
  "read_message_body POST_REQUEST =
     rd_bind read_ttl (\<lambda>ttl. rd_bind read_hash_list (\<lambda>hashes. rd_return (Request ttl (PostRequest hashes))))"
  "read_message_body CANCEL_REQUEST =
     rd_bind read_ttl (\<lambda>ttl. rd_bind (read_slice 4) (\<lambda>c. rd_return (Request ttl (CancelRequest c))))"
  "read_message_body CHANNEL_TIME_RANGE_REQUEST =
     rd_bind read_ttl (\<lambda>ttl. rd_bind read_string (\<lambda>ch. rd_bind read_varint (\<lambda>ts. rd_bind read_varint (\<lambda>te.
     rd_bind read_varint (\<lambda>limit. rd_return (Request ttl (ChannelTimeRangeRequest ch ts te limit)))))))"
  "read_message_body CHANNEL_STATE_REQUEST =
     rd_bind read_ttl (\<lambda>ttl. rd_bind read_string (\<lambda>ch. rd_bind read_varint (\<lambda>future.
     rd_return (Request ttl (ChannelStateRequest ch future)))))"
  "read_message_body CHANNEL_LIST_REQUEST =
     rd_bind read_ttl (\<lambda>ttl. rd_bind read_varint (\<lambda>skip. rd_bind read_varint (\<lambda>limit.
     rd_return (Request ttl (ChannelListRequest skip limit)))))"
  "read_message_body CHANNEL_LIST_RESPONSE =
     rd_bind (read_until_empty string_from_utf8) (\<lambda>channels. rd_return (Response (ChannelListResponse channels)))"
  by (simp_all add: read_message_body_def read_channel_bodies msg_type_defs)

lemma read_message_body_unknown: "7 < t \<Longrightarrow> read_message_body t = rd_return (UnrecognizedMsg t)"
  by (auto simp: read_message_body_def msg_type_defs)

lemma reads_message_body:
  assumes "message_body_ok b"
  shows "reads (read_message_body (body_message_type b)) (message_body_bytes b) b"
proof (rule reads_snoc_Nil)
  show "reads (read_message_body (body_message_type b)) (message_body_bytes b @ []) b"
  proof (cases "known_message b")
    case True
    then show ?thesis
      using assms
      by (cases b rule: body_message_type.cases;
          simp only: message_body_bytes.simps body_message_type.simps append_assoc read_message_body_simps
            message_body_ok.simps request_body_ok.simps response_body_ok.simps known_message.simps;
          intro reads_intros; auto simp: string_ok_def list_all_iff)
  next
    case False
    with assms show ?thesis by (cases b) (simp_all add: read_message_body_unknown reads_return)
  qed
qed

lemma body_message_type_less: "message_body_ok b \<Longrightarrow> unat (body_message_type b) < 2 ^ 56"
  by (cases b rule: body_message_type.cases) (simp_all add: msg_type_defs)

lemma reads_message_fields:
  assumes "message_ok m" and "length (message_content m) < 2 ^ 56"
  shows "reads read_message_fields (message_bytes m) m"
proof (rule reads_snoc_Nil)
  obtain h b where m: "m = \<lparr>m_header = h, m_body = b\<rparr>" by (cases m) auto
  obtain t c r where h: "h = \<lparr>mh_msg_type = t, mh_circuit_id = c, mh_req_id = r\<rparr>" by (cases h) auto
  from assms(1) m h have ok: "t = body_message_type b" "length c = 4" "length r = 4" "message_body_ok b"
    by (simp_all add: message_ok_def message_type_def)
  have len: "unat (of_nat (message_len_field m) :: u64) < 2 ^ 56"
    using message_len_field_eq [OF message_ok_typed [OF assms(1)] assms(2)] assms(2)
    by (subst unat_of_nat_56) auto
  have "reads read_message_fields (varint_bytes (of_nat (message_len_field m)) @ varint_bytes t @ c @ r @ message_body_bytes b @ [])
     (message_new (message_header_new t c r) b)"
    unfolding read_message_fields_def ok(1)
    by (intro reads_intros len body_message_type_less ok reads_bind [OF reads_message_body])
  then show "reads read_message_fields (message_bytes m @ []) m"
    by (simp add: m h ok(1) message_bytes_def message_content_def message_type_def message_new_def message_header_new_def)
qed

lemma varint_bytes_neq_Nil: "varint_bytes v \<noteq> []"
  by (subst varint_bytes.simps) simp

lemma message_from_bytes_message_bytes:
  assumes "message_ok m" and "length (message_content m) < 2 ^ 56"
  shows "message_from_bytes (message_bytes m @ rest) = Ok (length (message_bytes m), m)"
  using reads_whole [OF reads_message_fields [OF assms], of rest]
  by (simp add: message_from_bytes_def message_bytes_def varint_bytes_neq_Nil)

subsection \<open>Messages keep the contract of the codec traits\<close>

definition message_codec :: "message codec" where
  "message_codec =
     \<lparr>count_bytes = message_count_bytes, to_bytes = message_to_bytes, write_bytes = message_write_bytes,
      from_bytes = message_from_bytes, count_from_bytes = message_count_from_bytes\<rparr>"

definition message_encodable :: "message \<Rightarrow> bool" where
  "message_encodable m \<longleftrightarrow> message_ok m \<and> known_message (m_body m) \<and> length (message_content m) < 2 ^ 56"

interpretation message: codec message_codec message_encodable message_bytes
proof
  fix m and dst :: "u8 list"
  assume m: "message_encodable m" and le: "length (message_bytes m) \<le> length dst"
  then show "write_bytes message_codec m dst =
      Ok (message_bytes m @ drop (length (message_bytes m)) dst, length (message_bytes m))"
    using writesD [OF writes_message, of m 0 dst]
    by (simp add: message_codec_def message_write_bytes_def message_encodable_def message_ok_typed del: wr_run.simps)
qed (simp_all add: message_codec_def message_encodable_def length_message_bytes message_ok_typed message_to_bytes_eq
      message_from_bytes_message_bytes)

subsection \<open>Every decoded message is well formed\<close>

lemma read_until_empty_eq_Ok:
  "read_until_empty check buf off = Ok (xs, off') \<Longrightarrow>
     list_all (\<lambda>x. \<exists>bs. bs \<noteq> [] \<and> length bs < 2 ^ 56 \<and> check bs = Ok x) xs \<and> off < off' \<and> off' \<le> length buf"
proof (induction check buf off arbitrary: xs off' rule: read_until_empty.induct)
  case (1 check buf off)
  from "1.prems" obtain n o1 where n: "read_varint buf off = Ok (n, o1)"
    and rest: "(if n = 0 then rd_return [] buf o1 else
         rd_bind (read_slice (unat n)) (\<lambda>bs. rd_bind (rd_check (check bs)) (\<lambda>x.
         rd_bind (\<lambda>buf off. read_until_empty check buf off) (\<lambda>xs. rd_return (x # xs)))) buf o1) = Ok (xs, off')"
    by (subst (asm) read_until_empty.simps) (auto simp: rd_bind_eq_Ok)
  note pr = read_varint_progress [OF n]
  show ?case
  proof (cases "n = 0")
    case True
    with rest pr show ?thesis by simp
  next
    case False
    with rest obtain bs o2 x ys where
        bs: "read_slice (unat n) buf o1 = (Ok (bs, o2) :: (u8 list \<times> nat) res)" "check bs = Ok x"
      and r: "read_until_empty check buf o2 = Ok (ys, off')" "xs = x # ys"
      by (auto simp: rd_bind_eq_Ok rd_check_eq_Ok)
    have "length bs = unat n" using bs(1) by (auto simp: read_slice_eq_Ok)
    moreover have "unat n \<noteq> 0" using False by (auto simp: unat_eq_0)
    ultimately have "bs \<noteq> [] \<and> length bs < 2 ^ 56" using pr by auto
    with bs(2) have "\<exists>bs. bs \<noteq> [] \<and> length bs < 2 ^ 56 \<and> check bs = Ok x" by blast
    moreover have "list_all (\<lambda>x. \<exists>bs. bs \<noteq> [] \<and> length bs < 2 ^ 56 \<and> check bs = Ok x) ys \<and> o2 < off' \<and> off' \<le> length buf"
      by (rule "1.IH" [OF n False bs(1) _ r(1)]) (use bs(2) in \<open>simp add: rd_check_eq_Ok\<close>)
    ultimately show ?thesis
      using r(2) pr bs(1) by (simp add: read_slice_eq_Ok)
  qed
qed

lemma read_ttl_eq_Ok: "read_ttl buf off = Ok (ttl, off') \<Longrightarrow> off < off' \<and> off' \<le> length buf"
  by (auto simp: read_ttl_def rd_bind_eq_Ok dest!: read_varint_progress)

lemma read_hash_list_eq_Ok:
  "read_hash_list buf off = Ok (hs, off') \<Longrightarrow> hashes_ok hs \<and> off < off' \<and> off' \<le> length buf"
  by (auto simp: read_hash_list_def rd_bind_eq_Ok dest: read_hashes_ok)

lemma read_posts_eq_Ok:
  "read_until_empty Ok buf off = Ok (xs, off') \<Longrightarrow>
     list_all (\<lambda>p. p \<noteq> [] \<and> length p < 2 ^ 56) xs \<and> off < off' \<and> off' \<le> length buf"
  using read_until_empty_eq_Ok [of Ok buf off xs off'] by (auto simp: list_all_iff)

lemma read_channels_eq_Ok:
  "read_until_empty string_from_utf8 buf off = Ok (xs, off') \<Longrightarrow>
     list_all (\<lambda>ch. ch \<noteq> [] \<and> string_ok ch) xs \<and> off < off' \<and> off' \<le> length buf"
  using read_until_empty_eq_Ok [of string_from_utf8 buf off xs off']
  by (auto simp: list_all_iff string_from_utf8_eq_Ok string_ok_def)

lemma msg_type_cases:
  "t = HASH_RESPONSE \<or> t = POST_RESPONSE \<or> t = POST_REQUEST \<or> t = CANCEL_REQUEST \<or>
   t = CHANNEL_TIME_RANGE_REQUEST \<or> t = CHANNEL_STATE_REQUEST \<or> t = CHANNEL_LIST_REQUEST \<or>
   t = CHANNEL_LIST_RESPONSE \<or> 7 < t"
proof (cases "7 < t")
  case False
  then have "unat t \<le> 7" by (simp add: word_less_nat_alt)
  then have "unat t \<in> {0, 1, 2, 3, 4, 5, 6, 7}" by auto
  moreover have "t = of_nat (unat t)" by simp
  ultimately have "\<exists>n \<in> {0, 1, 2, 3, 4, 5, 6, 7 :: nat}. t = of_nat n" by blast
  then show ?thesis unfolding msg_type_defs by auto
qed simp

lemma read_message_body_eq_Ok:
  assumes "read_message_body t buf off = Ok (b, off')" and "unat t < 2 ^ 56" and "off \<le> length buf"
  shows "message_body_ok b \<and> body_message_type b = t \<and> off \<le> off' \<and> off' \<le> length buf"
  using msg_type_cases [of t] assms
  by (elim disjE)
    (auto simp: read_message_body_simps read_message_body_unknown rd_bind_eq_Ok read_slice_eq_Ok string_ok_def
      dest!: read_hash_list_eq_Ok read_ttl_eq_Ok read_posts_eq_Ok read_channels_eq_Ok read_string_eq_Ok
        read_varint_progress)

lemma message_from_bytes_ok:
  assumes "message_from_bytes buf = Ok (n, m)"
  shows "message_ok m \<and> 10 \<le> n \<and> n \<le> length buf"
proof -
  from assms obtain l o1 t o2 b where
      l: "read_varint buf 0 = Ok (l, o1)" and t: "read_varint buf o1 = Ok (t, o2)"
    and hd: "o2 + 4 + 4 \<le> length buf" and b: "read_message_body t buf (o2 + 4 + 4) = Ok (b, n)"
    and m: "m = message_new (message_header_new t (take 4 (drop o2 buf)) (take 4 (drop (o2 + 4) buf))) b"
    by (auto simp: message_from_bytes_def read_message_fields_def rd_bind_eq_Ok read_slice_eq_Ok and_then_eq_Ok
        raise_defs add.assoc split: if_splits)
  note pr = read_varint_progress [OF l] read_varint_progress [OF t]
  from read_message_body_eq_Ok [OF b _ hd] pr hd m show ?thesis
    by (auto simp: message_ok_def message_type_def message_new_def message_header_new_def)
qed

subsection \<open>Properties\<close>

text \<open>C6. Encoding then decoding a message. For every well-formed message of a known type, \<^verbatim>\<open>to_bytes\<close> succeeds, its
  buffer of \<^verbatim>\<open>count_bytes\<close> bytes is filled exactly, and \<^verbatim>\<open>from_bytes\<close> on these bytes, whatever follows them,
  consumes exactly them and returns the message.\<close>

theorem message_roundtrip:
  assumes "message_ok m" and "known_message (m_body m)" and "message_count_bytes m < 2 ^ 56"
  shows "\<exists>buf. message_to_bytes m = Ok buf \<and> length buf = message_count_bytes m \<and>
     (\<forall>rest. message_from_bytes (buf @ rest) = Ok (length buf, m))"
proof -
  have "length (message_content m) < 2 ^ 56"
    using assms(3) message_count_bytes_eq [OF message_ok_typed [OF assms(1)]] by simp
  then show ?thesis
    using assms message_ok_typed [OF assms(1)] message_to_bytes_eq length_message_bytes
      message_from_bytes_message_bytes by blast
qed

definition sample_message :: message where
  "sample_message = channel_time_range_request [0, 0, 0, 0] [1, 2, 3, 4] 1 (channel_options_new [100, 101] 0 300 20)"

lemma sample_message_ok: "message_ok sample_message" and sample_message_known: "known_message (m_body sample_message)"
  by (simp_all add: sample_message_def channel_time_range_request_def message_new_def message_header_new_def
      message_ok_def message_type_def channel_options_new_def string_ok_def utf8_valid_def)

lemma sample_message_count: "message_count_bytes sample_message = 18"
  by (simp add: message_count_bytes_def sample_message_def channel_time_range_request_def message_new_def
      message_type_def channel_options_new_def msg_type_defs varint_length_eq varint_bytes.simps Let_def)

theorem message_roundtrip_witness:
  "\<exists>buf. message_to_bytes sample_message = Ok buf \<and> length buf = message_count_bytes sample_message \<and>
     (\<forall>rest. message_from_bytes (buf @ rest) = Ok (length buf, sample_message))"
  by (rule message_roundtrip [OF sample_message_ok sample_message_known]) (simp add: sample_message_count)

text \<open>C28. The length prefix. Let \<open>n\<close> be the number of bytes of the message behind the prefix. \<^verbatim>\<open>count_from_bytes\<close> on
  the encoded message, the number that a receiver waits for, is the length of the encoding when \<open>n\<close> plus
  the length of its varint still fits in that many groups of seven bits, and is one byte too small for
  the other sizes (the first are 127, 16382 and 16383).\<close>

theorem message_length_prefix:
  assumes "message_ok m" and "known_message (m_body m)" and "message_count_bytes m < 2 ^ 56"
  shows "\<exists>buf. message_to_bytes m = Ok buf \<and>
     message_count_from_bytes buf =
       Ok (if prefix_exact (length (message_content m)) then length buf else length buf - 1)"
proof -
  let ?n = "length (message_content m)" and ?f = "message_len_field m"
  have n: "?n < 2 ^ 56"
    using assms(3) message_count_bytes_eq [OF message_ok_typed [OF assms(1)]] by simp
  note f = message_len_field_eq [OF message_ok_typed [OF assms(1)] n]
  have lt: "?f < 2 ^ 56" using f n by auto
  then have uf: "unat (of_nat ?f :: u64) = ?f" by (rule unat_of_nat_56)
  have "1 \<le> ?n" by (simp add: message_content_def varint_bytes_neq_Nil Suc_le_eq)
  moreover have "varint_decode (message_bytes m) = Ok (length (varint_bytes (of_nat ?f)), of_nat ?f)"
    unfolding message_bytes_def using lt uf by (intro varint_decode_bytes_56) simp
  then have "message_count_from_bytes (message_bytes m) = Ok (length (varint_bytes (of_nat ?f)) + ?f)"
    using uf by (simp add: message_count_from_bytes_def message_bytes_def varint_bytes_neq_Nil)
  moreover have "length (message_bytes m) = length (varint_bytes (of_nat ?f)) + ?n"
    by (simp add: message_bytes_def)
  ultimately have "message_count_from_bytes (message_bytes m) =
      Ok (if prefix_exact ?n then length (message_bytes m) else length (message_bytes m) - 1)"
    using f by (cases "prefix_exact ?n") (simp_all add: Suc_le_eq)
  then show ?thesis
    using message_to_bytes_eq [OF message_ok_typed [OF assms(1)] assms(2) n] by blast
qed

text \<open>A message at the first boundary: 127 bytes behind the prefix.\<close>

definition boundary_message :: message where
  "boundary_message = post_response [0, 0, 0, 0] [1, 2, 3, 4] [replicate 116 7]"

theorem message_length_prefix_witness:
  "\<exists>buf. message_to_bytes boundary_message = Ok buf \<and> message_count_from_bytes buf = Ok (length buf - 1)"
proof -
  have c: "length (message_content boundary_message) = 127"
    by (simp add: boundary_message_def post_response_def message_new_def message_header_new_def message_content_def
        message_type_def msg_type_defs blobs_bytes_def string_bytes_def varint_bytes.simps)
  have ok: "message_ok boundary_message" "known_message (m_body boundary_message)"
    by (simp_all add: boundary_message_def post_response_def message_new_def message_header_new_def message_ok_def
        message_type_def)
  have "varint_length (127 :: u64) = 1" by (simp add: varint_length_eq varint_bytes.simps)
  then have "\<not> prefix_exact 127" "message_count_bytes boundary_message < 2 ^ 56"
    using message_count_bytes_eq [OF message_ok_typed [OF ok(1)]] c by (simp_all add: prefix_exact_def)
  then show ?thesis using message_length_prefix [OF ok] c by simp
qed



text \<open>\<^verbatim>\<open>decrement_ttl\<close> lowers the hop count of a request by one and touches nothing else, leaves responses
  alone, and on a request whose hop count is already 0 panics with overflow checks and wraps to 255
  without them.\<close>

lemma decrement_ttl_spec:
  "decrement_ttl checks (message_new h (Response r)) = Ok (message_new h (Response r)) \<and>
   decrement_ttl checks (message_new h (Request 0 body)) =
     (if checks then Panic ArithmeticOverflow else Ok (message_new h (Request 255 body))) \<and>
   (0 < ttl \<longrightarrow> (\<exists>ttl'. decrement_ttl checks (message_new h (Request ttl body)) =
       Ok (message_new h (Request ttl' body)) \<and> unat ttl' = unat ttl - 1))"
proof -
  have "unat (ttl - 1) = unat ttl - 1" if "0 < ttl" for ttl :: u8
    using that by (intro unat_minus_one) auto
  then show ?thesis by (auto simp: decrement_ttl_def message_new_def)
qed

end
