(* ===== verification/Core_Manager.thy ===== *)
theory Core_Manager
  imports Core_Store_Inv Cable_Message
begin

text \<open>
  \<^verbatim>\<open>cable_core/src/manager.rs\<close>: the manager of a cable peer, which handles the messages of the connected
  peers, keeps the request bookkeeping and publishes local posts. Each field of \<^verbatim>\<open>CableManager\<close> is a field of
  the record \<open>manager\<close>, each method an operation on it.

  \<^item> A peer is the channel to its writer task: the messages sent to it and not yet written, and whether
    the receiving end is gone (then \<^verbatim>\<open>send\<close> fails). Waiting for room in the bounded channel is not
    represented.
  \<^item> The clock, the start value of the request identifiers and the cryptographic library are parameters.
    The parameter \<open>checks\<close> says whether the build checks arithmetic overflow.
  \<^item> A method is one atomic step. A lock that a method tries to take while it holds it already is the
    outcome \<open>Panic Deadlock\<close>.
\<close>

subsection \<open>State\<close>

definition TTL :: u8 where
  "TTL = 1"

type_synonym peer_id = nat

datatype live_request =
    LiveChannelState req_id channel
  | LiveChannelTimeRange req_id channel_options

fun live_req_id :: "live_request \<Rightarrow> req_id" where
  "live_req_id (LiveChannelState req_id _) = req_id"
| "live_req_id (LiveChannelTimeRange req_id _) = req_id"

datatype request_origin = Local | Remote

fun is_local :: "request_origin \<Rightarrow> bool" where
  "is_local Local = True"
| "is_local Remote = False"

record peer_channel =
  pc_queue :: "message list"
  pc_closed :: bool

record manager =
  mg_deleted_posts :: "hash hashset"
  mg_forwarded_requests :: "(req_id, peer_id hashset) hashmap"
  mg_handled_requests :: "req_id hashset"
  mg_last_peer_id :: peer_id
  mg_last_req_id :: u32
  mg_live_requests :: "(peer_id, live_request list) hashmap"
  mg_outbound_requests :: "(req_id, request_origin \<times> message) hashmap"
  mg_peers :: "(peer_id, peer_channel) hashmap"
  mg_requested_posts :: "hash hashset"
  mg_store :: store

definition manager_new :: "u32 \<Rightarrow> store \<Rightarrow> manager" where
  "manager_new random st =
     \<lparr>mg_deleted_posts = [], mg_forwarded_requests = [], mg_handled_requests = [], mg_last_peer_id = 0,
      mg_last_req_id = random, mg_live_requests = [], mg_outbound_requests = [], mg_peers = [],
      mg_requested_posts = [], mg_store = st\<rparr>"

text \<open>A method of the store, called on \<^verbatim>\<open>self.store\<close>.\<close>

definition on_store :: "(store, 'a) action \<Rightarrow> (manager, 'a) action" where
  "on_store m mg = (case m (mg_store mg) of (st, r) \<Rightarrow> (mg\<lparr>mg_store := st\<rparr>, r))"

abbreviation store_get :: "(store \<Rightarrow> 'a) \<Rightarrow> (manager, 'a) action" where
  "store_get f \<equiv> m_get (\<lambda>mg. f (mg_store mg))"

subsection \<open>Keys and identifiers\<close>

text \<open>The key pair that would be generated is irrelevant: the in-memory store always has one.\<close>

definition manager_keypair :: "(manager, keypair) action" where
  "manager_keypair = on_store (\<lambda>st. case get_or_create_keypair ([], []) st of (st', kp) \<Rightarrow> (st', Ok kp))"

definition manager_public_key :: "(manager, public_key) action" where
  "manager_public_key = m_bind manager_keypair (\<lambda>(pk, _). m_return pk)"

definition manager_secret_key :: "(manager, u8 list) action" where
  "manager_secret_key = m_bind manager_keypair (\<lambda>(_, sk). m_return sk)"

definition new_req_id :: "(manager, u32 \<times> req_id) action" where
  "new_req_id =
     m_then (m_modify (\<lambda>mg. mg\<lparr>mg_last_req_id := (if mg_last_req_id mg = - 1 then 0 else mg_last_req_id mg + 1)\<rparr>))
      (m_bind (m_get mg_last_req_id) (\<lambda>req_id. m_return (req_id, to_be_bytes req_id)))"

definition new_peer_id :: "(manager, peer_id) action" where
  "new_peer_id =
     m_then (m_modify (\<lambda>mg. mg\<lparr>mg_last_peer_id := mg_last_peer_id mg + 1\<rparr>)) (m_get mg_last_peer_id)"

subsection \<open>Sending\<close>

definition send_on :: "message \<Rightarrow> peer_channel \<Rightarrow> peer_channel res" where
  "send_on msg ch = (if pc_closed ch then Err SendError else Ok (ch\<lparr>pc_queue := pc_queue ch @ [msg]\<rparr>))"

definition send :: "peer_id \<Rightarrow> message \<Rightarrow> (manager, unit) action" where
  "send peer msg mg =
     (case hm_get (mg_peers mg) peer of
        Some ch \<Rightarrow>
          (case send_on msg ch of
             Ok ch' \<Rightarrow> (mg\<lparr>mg_peers := hm_insert peer ch' (mg_peers mg)\<rparr>, Ok ())
           | Err e \<Rightarrow> (mg, Err e)
           | Panic p \<Rightarrow> (mg, Panic p))
      | None \<Rightarrow> (mg, Ok ()))"

definition broadcast :: "message \<Rightarrow> (manager, unit) action" where
  "broadcast msg = m_bind (m_get (\<lambda>mg. map fst (mg_peers mg))) (m_each (\<lambda>peer. send peer msg))"

definition insert_outbound :: "req_id \<Rightarrow> request_origin \<Rightarrow> message \<Rightarrow> (manager, unit) action" where
  "insert_outbound req_id origin msg =
     m_modify (\<lambda>mg. mg\<lparr>mg_outbound_requests := hm_insert req_id (origin, msg) (mg_outbound_requests mg)\<rparr>)"

definition decrement_ttl_and_write_to_outbound :: "bool \<Rightarrow> req_id \<Rightarrow> message \<Rightarrow> (manager, unit) action" where
  "decrement_ttl_and_write_to_outbound checks req_id msg =
     m_bind (m_lift (decrement_ttl checks msg)) (insert_outbound req_id Remote)"

subsection \<open>Channels\<close>

definition open_channel :: "channel_options \<Rightarrow> (manager, post list \<times> nat) action" where
  "open_channel opts =
     m_bind new_req_id (\<lambda>(_, req_id).
       let request = channel_time_range_request NO_CIRCUIT req_id TTL opts
       in m_then (insert_outbound req_id Local request)
         (m_then (broadcast request)
         (m_bind new_req_id (\<lambda>(_, req_id).
            let request = channel_state_request NO_CIRCUIT req_id TTL (opt_channel opts) 1
            in m_then (insert_outbound req_id Local request)
              (m_then (broadcast request)
                      (on_store (get_posts_live opts)))))))"

definition is_local_time_range :: "channel \<Rightarrow> request_origin \<times> message \<Rightarrow> bool" where
  "is_local_time_range close_channel entry =
     (case (entry :: request_origin \<times> message) of (origin, msg) \<Rightarrow>
        (case m_body msg of
           Request _ (ChannelTimeRangeRequest ch _ _ _) \<Rightarrow> is_local origin \<and> ch = close_channel
         | _ \<Rightarrow> False))"

definition close_channel :: "channel \<Rightarrow> (manager, unit) action" where
  "close_channel ch =
     m_bind (m_get (\<lambda>mg. map fst (filter (\<lambda>(_, entry). is_local_time_range ch entry) (mg_outbound_requests mg))))
       (m_each (\<lambda>channel_req_id.
          m_bind new_req_id (\<lambda>(_, req_id).
          m_then (broadcast (cancel_request NO_CIRCUIT req_id TTL channel_req_id))
                 (m_modify (\<lambda>mg. mg\<lparr>mg_outbound_requests := hm_remove channel_req_id (mg_outbound_requests mg)\<rparr>)))))"

subsection \<open>Live requests\<close>

definition is_live_request :: "manager \<Rightarrow> peer_id \<Rightarrow> req_id \<Rightarrow> bool" where
  "is_live_request mg peer req_id =
     (case hm_get (mg_live_requests mg) peer of
        Some peer_requests \<Rightarrow> list_ex (\<lambda>r. live_req_id r = req_id) peer_requests
      | None \<Rightarrow> False)"

definition remove_live_request :: "peer_id \<Rightarrow> req_id \<Rightarrow> (manager, unit) action" where
  "remove_live_request peer req_id =
     m_modify (\<lambda>mg. case hm_get (mg_live_requests mg) peer of
         Some peer_requests \<Rightarrow>
           mg\<lparr>mg_live_requests :=
                hm_insert peer (filter (\<lambda>r. live_req_id r \<noteq> req_id) peer_requests) (mg_live_requests mg)\<rparr>
       | None \<Rightarrow> mg)"

definition add_live_request :: "peer_id \<Rightarrow> live_request \<Rightarrow> (manager, unit) action" where
  "add_live_request peer r =
     m_modify (\<lambda>mg. mg\<lparr>mg_live_requests := hm_push peer r (mg_live_requests mg)\<rparr>)"

subsection \<open>Hashes for a request\<close>

text \<open>\<^verbatim>\<open>hashes.push(result?); if n_limit != 0 && hashes.len() as u64 >= n_limit { break; }\<close>\<close>

fun collect_hashes :: "u64 \<Rightarrow> hash list \<Rightarrow> hash list \<Rightarrow> hash list" where
  "collect_hashes n_limit hashes [] = hashes"
| "collect_hashes n_limit hashes (h # rest) =
     (let hashes = hashes @ [h]
      in if n_limit \<noteq> 0 \<and> length hashes \<ge> unat n_limit then hashes
         else collect_hashes n_limit hashes rest)"

definition time_range_hashes :: "channel_options \<Rightarrow> (manager, hash list) action" where
  "time_range_hashes opts =
     m_bind (store_get (\<lambda>st. get_post_hashes st opts)) (\<lambda>r.
     m_bind (m_lift r) (\<lambda>stream. m_return (collect_hashes (min (opt_limit opts) 4096) [] stream)))"

text \<open>The hashes for a channel state request: the latest join or leave post of each peer, then the topic.\<close>

definition channel_state_hashes :: "store \<Rightarrow> channel \<Rightarrow> hash list" where
  "channel_state_hashes st ch =
     (case get_channel_membership_hashes st ch of Some hs \<Rightarrow> hs | None \<Rightarrow> []) @
     (case get_channel_topic_and_hash st ch of Some (_, h) \<Rightarrow> [h] | None \<Rightarrow> [])"

text \<open>A live channel state request also gets the delete posts and the name of each member and the name
  of each ex-member.\<close>

definition live_state_hashes :: "store \<Rightarrow> channel \<Rightarrow> hash list" where
  "live_state_hashes st ch =
     (let name_hash = (\<lambda>pk. case get_peer_name_and_hash st pk of Some (_, h) \<Rightarrow> [h] | None \<Rightarrow> [])
      in channel_state_hashes st ch @
         (case get_channel_members st ch of
            Some members \<Rightarrow>
              concat (map (\<lambda>pk. (case get_delete_hashes st pk of Some hs \<Rightarrow> hs | None \<Rightarrow> []) @ name_hash pk) members)
          | None \<Rightarrow> []) @
         (case get_ex_channel_members st ch of
            Some ex_members \<Rightarrow> concat (map name_hash ex_members)
          | None \<Rightarrow> []))"

definition answer_live_request :: "channel \<Rightarrow> peer_id \<Rightarrow> live_request \<Rightarrow> (manager, unit) action" where
  "answer_live_request ch peer r =
     (case r of
        LiveChannelState req_id req_channel \<Rightarrow>
          if req_channel = ch then
            m_bind (store_get (\<lambda>st. live_state_hashes st ch)) (\<lambda>hashes.
              send peer (hash_response NO_CIRCUIT req_id hashes))
          else m_return ()
      | LiveChannelTimeRange req_id opts \<Rightarrow>
          if opt_channel opts = ch then
            m_bind (time_range_hashes opts) (\<lambda>hashes.
              if hashes \<noteq> [] then send peer (hash_response NO_CIRCUIT req_id hashes) else m_return ())
          else m_return ())"

definition send_post_hashes :: "channel \<Rightarrow> (manager, unit) action" where
  "send_post_hashes ch =
     m_bind (m_get mg_live_requests) (m_each (\<lambda>(peer, live_requests).
       m_each (answer_live_request ch peer) live_requests))"

subsection \<open>Publishing\<close>

definition publish :: "crypto \<Rightarrow> post \<Rightarrow> (manager, hash) action" where
  "publish cr p =
     m_bind (if is_signed p then m_return p
             else m_bind manager_secret_key (\<lambda>sk. m_lift (post_sign cr p sk))) (\<lambda>p.
     m_bind (on_store (insert_post cr p)) (\<lambda>h.
     m_then
       (case get_channel p of
          Some ch \<Rightarrow> send_post_hashes ch
        | None \<Rightarrow>
            m_bind (store_get get_channels) (\<lambda>known.
              case known of
                Some channels \<Rightarrow>
                  m_each (\<lambda>ch.
                    m_bind (store_get (\<lambda>st. is_channel_member st ch (get_public_key p))) (\<lambda>member.
                      if member then send_post_hashes ch else m_return ())) channels
              | None \<Rightarrow> m_return ()))
       (m_return h)))"

text \<open>\<open>now\<close> is the result of reading the clock.\<close>

definition post_header_values :: "u64 res \<Rightarrow> channel \<Rightarrow> (manager, public_key \<times> hash list \<times> u64) action" where
  "post_header_values now ch =
     m_bind manager_public_key (\<lambda>pk.
     m_bind (store_get (\<lambda>st. get_latest_hashes st ch)) (\<lambda>latest.
     m_bind (m_lift now) (\<lambda>ts.
     m_return (pk, (case latest of Some links \<Rightarrow> links | None \<Rightarrow> []), ts))))"

definition manager_post_text :: "crypto \<Rightarrow> u64 res \<Rightarrow> channel \<Rightarrow> post_text \<Rightarrow> (manager, hash) action" where
  "manager_post_text cr now ch txt =
     m_bind (post_header_values now ch) (\<lambda>(pk, links, ts).
     m_bind (m_lift (validate_text txt)) (\<lambda>_.
     publish cr (Cable_Post.post_text pk links ts ch txt)))"

definition manager_post_delete :: "crypto \<Rightarrow> u64 res \<Rightarrow> hash list \<Rightarrow> (manager, hash) action" where
  "manager_post_delete cr now hashes =
     m_bind manager_public_key (\<lambda>pk.
     m_bind (m_lift now) (\<lambda>ts.
     m_then (m_modify (\<lambda>mg. mg\<lparr>mg_deleted_posts := fold hs_insert hashes (mg_deleted_posts mg)\<rparr>))
            (publish cr (Cable_Post.post_delete pk [] ts hashes))))"

definition manager_post_info_name :: "crypto \<Rightarrow> u64 res \<Rightarrow> rstring \<Rightarrow> (manager, hash) action" where
  "manager_post_info_name cr now username =
     m_bind manager_public_key (\<lambda>pk.
     m_bind (m_lift now) (\<lambda>ts.
     m_bind (m_lift (user_info_name username)) (\<lambda>name_info.
     publish cr (Cable_Post.post_info pk [] ts [name_info]))))"

definition manager_post_topic :: "crypto \<Rightarrow> u64 res \<Rightarrow> channel \<Rightarrow> topic \<Rightarrow> (manager, hash) action" where
  "manager_post_topic cr now ch tp =
     m_bind (post_header_values now ch) (\<lambda>(pk, links, ts).
     m_bind (m_lift (validate_topic tp)) (\<lambda>_.
     publish cr (Cable_Post.post_topic pk links ts ch tp)))"

definition manager_post_join :: "crypto \<Rightarrow> u64 res \<Rightarrow> channel \<Rightarrow> (manager, hash) action" where
  "manager_post_join cr now ch =
     m_bind (post_header_values now ch) (\<lambda>(pk, links, ts).
     m_bind (m_lift (validate_channel ch)) (\<lambda>_.
     publish cr (Cable_Post.post_join pk links ts ch)))"

definition manager_post_leave :: "crypto \<Rightarrow> u64 res \<Rightarrow> channel \<Rightarrow> (manager, hash) action" where
  "manager_post_leave cr now ch =
     m_bind (post_header_values now ch) (\<lambda>(pk, links, ts).
     m_bind (m_lift (validate_channel ch)) (\<lambda>_.
     publish cr (Cable_Post.post_leave pk links ts ch)))"

subsection \<open>Handling a request\<close>

definition forward_if_ttl :: "bool \<Rightarrow> req_id \<Rightarrow> u8 \<Rightarrow> message \<Rightarrow> (manager, unit) action" where
  "forward_if_ttl checks req_id ttl msg =
     (if ttl > 0 then decrement_ttl_and_write_to_outbound checks req_id msg else m_return ())"

definition handle_post_request :: "peer_id \<Rightarrow> circuit_id \<Rightarrow> req_id \<Rightarrow> hash list \<Rightarrow> (manager, unit) action" where
  "handle_post_request peer circuit_id req_id hashes =
     m_bind (store_get (\<lambda>st. get_post_payloads st hashes)) (\<lambda>posts.
       send peer (post_response circuit_id req_id posts))"

definition handle_cancel_request :: "bool \<Rightarrow> peer_id \<Rightarrow> req_id \<Rightarrow> message \<Rightarrow> req_id \<Rightarrow> (manager, unit) action" where
  "handle_cancel_request checks peer req_id msg cancel_id =
     m_then (decrement_ttl_and_write_to_outbound checks req_id msg)
    (m_then (remove_live_request peer cancel_id)
            (m_modify (\<lambda>mg. mg\<lparr>mg_outbound_requests := hm_remove cancel_id (mg_outbound_requests mg)\<rparr>)))"

definition handle_time_range_request ::
  "peer_id \<Rightarrow> circuit_id \<Rightarrow> req_id \<Rightarrow> channel_options \<Rightarrow> (manager, unit) action" where
  "handle_time_range_request peer circuit_id req_id opts =
     m_bind (time_range_hashes opts) (\<lambda>hashes.
       let response = hash_response circuit_id req_id hashes
       in if opt_time_end opts = 0
          then m_then (add_live_request peer (LiveChannelTimeRange req_id opts))
                 (if hashes \<noteq> [] then send peer response else m_return ())
          else send peer response)"

definition handle_channel_state_request ::
  "peer_id \<Rightarrow> circuit_id \<Rightarrow> req_id \<Rightarrow> channel \<Rightarrow> u64 \<Rightarrow> (manager, unit) action" where
  "handle_channel_state_request peer circuit_id req_id ch future =
     m_bind (store_get (\<lambda>st. channel_state_hashes st ch)) (\<lambda>hashes.
       let response = hash_response circuit_id req_id hashes
       in if future = 0 then
            if hashes \<noteq> [] then m_then (send peer response) (send peer (hash_response circuit_id req_id []))
            else send peer response
          else if future = 1 then
            m_then (add_live_request peer (LiveChannelState req_id ch))
              (if hashes \<noteq> [] then send peer response else m_return ())
          else m_return ())"

text \<open>\<^verbatim>\<open>all_channels.drain(skip..limit).collect()\<close>\<close>

definition list_channels :: "nat \<Rightarrow> nat \<Rightarrow> channel list \<Rightarrow> (channel list) res" where
  "list_channels skip limit all_channels =
     (let channels_len = length all_channels;
          limit = (if limit = 0 \<or> limit > channels_len then channels_len else limit)
      in if skip \<le> limit then Ok (take (limit - skip) (drop skip all_channels))
         else Panic SliceIndexOutOfRange)"

definition handle_channel_list_request ::
  "peer_id \<Rightarrow> circuit_id \<Rightarrow> req_id \<Rightarrow> u64 \<Rightarrow> u64 \<Rightarrow> (manager, unit) action" where
  "handle_channel_list_request peer circuit_id req_id skip limit =
     m_bind (store_get get_channels) (\<lambda>known.
     m_bind (case known of
               Some all_channels \<Rightarrow> m_lift (list_channels (unat skip) (unat limit) all_channels)
             | None \<Rightarrow> m_return []) (\<lambda>channels.
       send peer (channel_list_response circuit_id req_id channels)))"

subsection \<open>Handling a response\<close>

definition handle_hash_response :: "peer_id \<Rightarrow> circuit_id \<Rightarrow> hash list \<Rightarrow> (manager, unit) action" where
  "handle_hash_response peer circuit_id hashes =
     m_bind (store_get (\<lambda>st. want st hashes)) (\<lambda>wanted_hashes.
       if wanted_hashes \<noteq> [] then
         m_bind new_req_id (\<lambda>(_, new_req_id).
         m_then (send peer (post_request circuit_id new_req_id TTL wanted_hashes))
                (m_modify (\<lambda>mg. mg\<lparr>mg_requested_posts := fold hs_insert wanted_hashes (mg_requested_posts mg)\<rparr>)))
       else m_return ())"

text \<open>One round of the loop over the posts of a response; \<^verbatim>\<open>continue\<close> ends the round.\<close>

definition handle_post_bytes :: "crypto \<Rightarrow> payload \<Rightarrow> (manager, unit) action" where
  "handle_post_bytes cr bytes =
     (if \<not> post_verify cr bytes then m_return ()
      else
        m_bind (m_lift (post_from_bytes bytes)) (\<lambda>(s, p).
          if s \<noteq> length bytes then m_return ()
          else
            m_bind (m_lift (Cable_Post.post_hash cr p)) (\<lambda>h.
            m_bind (m_get mg_deleted_posts) (\<lambda>deleted_posts.
              if h \<in> set deleted_posts then m_return ()
              else
                m_bind (m_get mg_requested_posts) (\<lambda>requested_posts.
                  if h \<notin> set requested_posts then m_return ()
                  else
                    m_then (m_modify (\<lambda>mg. mg\<lparr>mg_requested_posts := hs_remove h (mg_requested_posts mg)\<rparr>))
                   (m_then (on_store (insert_post cr p))
                           (m_return ())))))))"

subsection \<open>The handler\<close>

definition is_stale :: "manager \<Rightarrow> peer_id \<Rightarrow> req_id \<Rightarrow> bool" where
  "is_stale mg peer req_id \<longleftrightarrow>
     req_id \<in> set (mg_handled_requests mg) \<and> \<not> is_live_request mg peer req_id \<and>
     \<not> hm_contains (mg_outbound_requests mg) req_id"

definition handle_body :: "crypto \<Rightarrow> bool \<Rightarrow> peer_id \<Rightarrow> message \<Rightarrow> (manager, unit) action" where
  "handle_body cr checks peer msg =
     (let circuit_id = mh_circuit_id (m_header msg); req_id = mh_req_id (m_header msg)
      in case m_body msg of
           Request ttl body \<Rightarrow>
             (case body of
                PostRequest hashes \<Rightarrow>
                  m_then (forward_if_ttl checks req_id ttl msg) (handle_post_request peer circuit_id req_id hashes)
              | CancelRequest cancel_id \<Rightarrow> handle_cancel_request checks peer req_id msg cancel_id
              | ChannelTimeRangeRequest ch time_start time_end limit \<Rightarrow>
                  m_then (forward_if_ttl checks req_id ttl msg)
                    (handle_time_range_request peer circuit_id req_id (channel_options_new ch time_start time_end limit))
              | ChannelStateRequest ch future \<Rightarrow>
                  m_then (forward_if_ttl checks req_id ttl msg)
                    (handle_channel_state_request peer circuit_id req_id ch future)
              | ChannelListRequest skip limit \<Rightarrow>
                  m_then (forward_if_ttl checks req_id ttl msg)
                    (handle_channel_list_request peer circuit_id req_id skip limit))
         | Response body \<Rightarrow>
             (case body of
                HashResponse hashes \<Rightarrow> handle_hash_response peer circuit_id hashes
              | PostResponse posts \<Rightarrow> m_each (handle_post_bytes cr) posts
              | ChannelListResponse channels \<Rightarrow>
                  m_each (\<lambda>ch. on_store (m_modify (insert_channel ch))) channels)
         | UnrecognizedMsg _ \<Rightarrow> m_return ())"

definition handle :: "crypto \<Rightarrow> bool \<Rightarrow> peer_id \<Rightarrow> message \<Rightarrow> (manager, unit) action" where
  "handle cr checks peer msg =
     m_bind (m_get (\<lambda>mg. is_stale mg peer (mh_req_id (m_header msg)))) (\<lambda>stale.
       if stale then m_return ()
       else m_then (handle_body cr checks peer msg)
              (m_modify (\<lambda>mg. mg\<lparr>mg_handled_requests :=
                 hs_insert (mh_req_id (m_header msg)) (mg_handled_requests mg)\<rparr>)))"

subsection \<open>Connections\<close>

text \<open>The write half of a connection: the bytes written so far, and whether writing still works.\<close>

record peer_stream =
  ps_written :: "u8 list"
  ps_open :: bool

definition write_all :: "u8 list \<Rightarrow> (manager \<times> peer_stream, unit) action" where
  "write_all bs s =
     (if ps_open (snd s) then ((fst s, (snd s)\<lparr>ps_written := ps_written (snd s) @ bs\<rparr>), Ok ())
      else (s, Err IoError))"

abbreviation modify_forwarded ::
  "((req_id, peer_id hashset) hashmap \<Rightarrow> (req_id, peer_id hashset) hashmap) \<Rightarrow> (manager \<times> peer_stream, unit) action" where
  "modify_forwarded f \<equiv>
     m_modify (\<lambda>(mg, ps). (mg\<lparr>mg_forwarded_requests := f (mg_forwarded_requests mg)\<rparr>, ps))"

text \<open>The first part of a round: a cancel request of remote origin. \<open>True\<close> is \<^verbatim>\<open>continue 'requests\<close>.\<close>

definition forward_cancel :: "peer_id \<Rightarrow> message \<Rightarrow> req_id \<Rightarrow> (manager \<times> peer_stream, bool) action" where
  "forward_cancel peer msg cancel_id =
     m_bind (m_get (\<lambda>(mg, _). hm_get (mg_forwarded_requests mg) cancel_id)) (\<lambda>found.
       case found of
         Some peers \<Rightarrow>
           if peer \<in> set peers then
             m_bind (m_lift (message_to_bytes msg)) (\<lambda>bs.
             m_then (write_all bs)
            (m_then (modify_forwarded (\<lambda>fr.
               let peers' = hs_remove peer peers
               in if peers' = [] then hm_remove cancel_id fr else hm_insert cancel_id peers' fr))
             (m_return False)))
           else m_return True
       | None \<Rightarrow> m_return False)"

text \<open>The second part: an exhausted request is removed from the map that the loop is reading, so the write
  lock is never granted; any other request is written to the peer and recorded as forwarded.\<close>

definition forward_request ::
  "peer_id \<Rightarrow> req_id \<Rightarrow> request_origin \<Rightarrow> u8 \<Rightarrow> message \<Rightarrow> (manager \<times> peer_stream, unit) action" where
  "forward_request peer req_id origin ttl msg =
     (if ttl = 0 then m_lift (Panic Deadlock)
      else
        m_bind (m_lift (message_to_bytes msg)) (\<lambda>bs.
        m_then (write_all bs)
          (case origin of
             Remote \<Rightarrow>
               modify_forwarded (\<lambda>fr.
                 case hm_get fr req_id of
                   Some peers \<Rightarrow> hm_insert req_id (hs_insert peer peers) fr
                 | None \<Rightarrow> hm_insert req_id [peer] fr)
           | Local \<Rightarrow> m_return ())))"

definition process_outbound_request ::
  "peer_id \<Rightarrow> req_id \<times> request_origin \<times> message \<Rightarrow> (manager \<times> peer_stream, unit) action" where
  "process_outbound_request peer entry =
     (case entry of (req_id, origin, msg) \<Rightarrow>
        (case m_body msg of
           Request ttl body \<Rightarrow>
             m_bind (case body of
                       CancelRequest cancel_id \<Rightarrow>
                         (case origin of
                            Remote \<Rightarrow> forward_cancel peer msg cancel_id
                          | Local \<Rightarrow> m_return False)
                     | _ \<Rightarrow> m_return False) (\<lambda>skip.
               if skip then m_return () else forward_request peer req_id origin ttl msg)
         | _ \<Rightarrow> m_return ()))"

definition process_and_send_outbound_requests :: "peer_id \<Rightarrow> (manager \<times> peer_stream, unit) action" where
  "process_and_send_outbound_requests peer =
     m_bind (m_get (\<lambda>(mg, _). mg_outbound_requests mg)) (m_each (process_outbound_request peer))"

text \<open>\<^verbatim>\<open>listen\<close> up to its loops: the new peer and the outbound requests; the rounds of its two loops (a received
  frame is decoded and handled by a task that only prints errors; a queued message is written to the
  stream); and the removal of the peer at the end.\<close>

definition listen_connect :: "(manager \<times> peer_stream, peer_id) action" where
  "listen_connect s =
     (case new_peer_id (fst s) of
        (mg, Ok peer) \<Rightarrow>
          m_then (process_and_send_outbound_requests peer) (m_return peer)
            (mg\<lparr>mg_peers := hm_insert peer \<lparr>pc_queue = [], pc_closed = False\<rparr> (mg_peers mg)\<rparr>, snd s)
      | (mg, Err e) \<Rightarrow> ((mg, snd s), Err e)
      | (mg, Panic p) \<Rightarrow> ((mg, snd s), Panic p))"

definition listen_receive :: "crypto \<Rightarrow> bool \<Rightarrow> peer_id \<Rightarrow> u8 list \<Rightarrow> (manager, unit) action" where
  "listen_receive cr checks peer buf =
     m_bind (m_lift (message_from_bytes buf)) (\<lambda>(_, msg) mg. (fst (handle cr checks peer msg mg), Ok ()))"

definition listen_write :: "peer_id \<Rightarrow> (manager \<times> peer_stream, unit) action" where
  "listen_write peer =
     m_bind (m_get (\<lambda>(mg, _). hm_get (mg_peers mg) peer)) (\<lambda>found.
       case found of
         Some ch \<Rightarrow>
           (case pc_queue ch of
              msg # rest \<Rightarrow>
                m_then (m_modify (\<lambda>(mg, ps). (mg\<lparr>mg_peers := hm_insert peer (ch\<lparr>pc_queue := rest\<rparr>) (mg_peers mg)\<rparr>, ps)))
               (m_bind (m_lift (message_to_bytes msg)) write_all)
            | [] \<Rightarrow> m_return ())
       | None \<Rightarrow> m_return ())"

definition listen_end :: "peer_id \<Rightarrow> (manager, unit) action" where
  "listen_end peer = m_modify (\<lambda>mg. mg\<lparr>mg_peers := hm_remove peer (mg_peers mg)\<rparr>)"

definition get_peer_ids :: "manager \<Rightarrow> peer_id list" where
  "get_peer_ids mg = map fst (mg_peers mg)"

definition get_links :: "manager \<Rightarrow> channel \<Rightarrow> hash list option" where
  "get_links mg ch = get_latest_hashes (mg_store mg) ch"

end
