(* ===== verification/Core_Manager_Inv.thy ===== *)
theory Core_Manager_Inv
  imports Core_Manager
begin

text \<open>
  What the methods of the manager leave alone, and its invariant: the invariant of its store, that every
  outbound request is a request message stored under its own identifier, and that the live requests of a peer
  are one entry and a live request for a time range has no end time.
\<close>

subsection \<open>Methods that do not touch the store\<close>

lemma keeps_send:
  assumes "\<And>mg ps. I (mg\<lparr>mg_peers := ps\<rparr>) = I mg"
  shows "keeps I (send peer msg)"
  using assms by (auto simp: keeps_def send_def send_on_def split: option.split)

lemma keeps_broadcast:
  assumes "\<And>mg ps. I (mg\<lparr>mg_peers := ps\<rparr>) = I mg"
  shows "keeps I (broadcast msg)"
  unfolding broadcast_def by (intro keeps_intros keeps_send assms)

lemma keeps_new_req_id:
  assumes "\<And>mg r. I (mg\<lparr>mg_last_req_id := r\<rparr>) = I mg"
  shows "keeps I new_req_id"
  unfolding new_req_id_def by (intro keeps_intros keeps_modify) (simp_all add: assms)

lemma keeps_time_range_hashes: "keeps I (time_range_hashes opts)"
  unfolding time_range_hashes_def by (intro keeps_intros)

text \<open>An invariant that looks at neither the peers nor the live requests.\<close>

lemma keeps_answer_live_request:
  assumes "\<And>mg ps. I (mg\<lparr>mg_peers := ps\<rparr>) = I mg"
  shows "keeps I (answer_live_request ch peer r)"
  by (cases r) (auto simp: answer_live_request_def intro!: keeps_intros keeps_send keeps_time_range_hashes assms)

lemma keeps_send_post_hashes:
  assumes "\<And>mg ps. I (mg\<lparr>mg_peers := ps\<rparr>) = I mg"
  shows "keeps I (send_post_hashes ch)"
  unfolding send_post_hashes_def
  by (intro keeps_intros) (auto intro!: keeps_intros keeps_answer_live_request assms split: prod.split)

lemma keeps_on_store:
  assumes "\<And>mg. I mg \<longleftrightarrow> J (mg_store mg)" and "keeps J m"
  shows "keeps I (on_store m)"
  using assms(2) unfolding keeps_def on_store_def assms(1) by (auto split: prod.split)

text \<open>Reads of the key pair change nothing.\<close>

lemma manager_keypair_eq: "manager_keypair mg = (mg, Ok (st_keypair (mg_store mg)))"
  by (simp add: manager_keypair_def on_store_def get_or_create_keypair_def get_keypair_def)

lemma manager_keys_eq:
  "manager_public_key mg = (mg, Ok (fst (st_keypair (mg_store mg))))"
  "manager_secret_key mg = (mg, Ok (snd (st_keypair (mg_store mg))))"
  by (simp_all add: manager_public_key_def manager_secret_key_def m_bind_def manager_keypair_eq m_return_def split_beta)

lemma keeps_keys: "keeps I manager_public_key" "keeps I manager_secret_key"
  by (simp_all add: keeps_def manager_keys_eq)

definition keeps_store :: "(manager, 'a) action \<Rightarrow> bool" where
  "keeps_store m \<longleftrightarrow> (\<forall>st. keeps (\<lambda>mg. mg_store mg = st) m)"

lemma keeps_store_iff: "keeps_store m \<longleftrightarrow> (\<forall>mg. mg_store (fst (m mg)) = mg_store mg)"
  by (auto simp: keeps_store_def keeps_def)

lemma keeps_store_send: "keeps_store (send peer msg)"
  unfolding keeps_store_def by (auto intro!: keeps_send)

lemma keeps_store_forward: "keeps_store (forward_if_ttl checks req_id ttl msg)"
  unfolding keeps_store_def forward_if_ttl_def decrement_ttl_and_write_to_outbound_def insert_outbound_def
  by (auto intro!: keeps_intros keeps_modify)

lemma keeps_store_handle_request:
  "keeps_store (handle_post_request peer c r hashes)"
  "keeps_store (handle_cancel_request checks peer r msg cancel_id)"
  "keeps_store (handle_time_range_request peer c r opts)"
  "keeps_store (handle_channel_state_request peer c r ch future)"
  "keeps_store (handle_channel_list_request peer c r skip limit)"
  "keeps_store (handle_hash_response peer c hashes)"
  unfolding keeps_store_def handle_post_request_def handle_cancel_request_def handle_time_range_request_def
    handle_channel_state_request_def handle_channel_list_request_def handle_hash_response_def
    decrement_ttl_and_write_to_outbound_def insert_outbound_def remove_live_request_def add_live_request_def
  by (auto intro!: keeps_intros keeps_modify keeps_send keeps_time_range_hashes keeps_new_req_id
      simp: Let_def split: option.split prod.split)

fun stores_posts :: "message_body \<Rightarrow> bool" where
  "stores_posts (Response (PostResponse _)) \<longleftrightarrow> True"
| "stores_posts _ \<longleftrightarrow> False"

fun stores_channels :: "message_body \<Rightarrow> bool" where
  "stores_channels (Response (ChannelListResponse _)) \<longleftrightarrow> True"
| "stores_channels _ \<longleftrightarrow> False"

lemma keeps_store_then: "keeps_store m \<Longrightarrow> keeps_store n \<Longrightarrow> keeps_store (m_then m n)"
  by (simp add: keeps_store_def keeps_then)

lemma keeps_store_handle_body:
  assumes "\<not> stores_posts (m_body msg)" and "\<not> stores_channels (m_body msg)"
  shows "keeps_store (handle_body cr checks peer msg)"
proof (cases "m_body msg")
  case (Request ttl body)
  then show ?thesis
    by (cases body)
      (simp_all add: handle_body_def Let_def keeps_store_then keeps_store_forward keeps_store_handle_request)
next
  case (Response body)
  with assms show ?thesis by (cases body) (simp_all add: handle_body_def Let_def keeps_store_handle_request)
next
  case (UnrecognizedMsg t)
  then show ?thesis by (simp add: handle_body_def Let_def keeps_store_def keeps_return)
qed

subsection \<open>Insertion into the store\<close>

lemma insert_post_new_payload:
  assumes "get_post_payload st g = None" and "get_post_payload (fst (insert_post cr p st)) g \<noteq> None"
  shows "Cable_Post.post_hash cr p = Ok g"
proof (rule ccontr)
  assume ng: "Cable_Post.post_hash cr p \<noteq> Ok g"
  have "get_post_payload (fst (insert_post cr p st)) g = None"
  proof (cases "\<exists>h. Cable_Post.post_hash cr p = Ok h")
    case True
    then obtain h bs where h: "Cable_Post.post_hash cr p = Ok h" "post_to_bytes p = Ok bs"
      by (auto simp: post_hash_eq_Ok)
    with ng have g: "g \<noteq> h" by auto
    show ?thesis
    proof (cases "\<exists>hs. p_body p = Delete hs")
      case True
      then obtain hs where b: "p_body p = Delete hs" by blast
      obtain st1 r1 where m: "m_each (delete_round p h) hs st = (st1, r1)" by fastforce
      have "get_post_payload st1 g = None" by (rule delete_rounds_none [OF m assms(1)])
      with m g show ?thesis by (cases r1) (simp_all add: insert_post_delete_eq [OF h b])
    next
      case False
      then show ?thesis using insert_post_eq [OF h, of st] g assms(1) by simp
    qed
  qed (use insert_post_failed_hash [of cr p st] assms(1) in simp)
  with assms(2) show False by contradiction
qed

subsection \<open>The posts of a response\<close>

text \<open>What a post must satisfy to be stored.\<close>

definition acceptable :: "crypto \<Rightarrow> manager \<Rightarrow> payload \<Rightarrow> hash \<Rightarrow> bool" where
  "acceptable cr mg bytes g \<longleftrightarrow>
     post_verify cr bytes \<and>
     (\<exists>p. post_from_bytes bytes = Ok (length bytes, p) \<and> Cable_Post.post_hash cr p = Ok g) \<and>
     g \<in> set (mg_requested_posts mg) \<and> g \<notin> set (mg_deleted_posts mg)"

lemma handle_post_bytes_cases:
  obtains (skip) "fst (handle_post_bytes cr bytes mg) = mg"
  | (insert) p g where "post_from_bytes bytes = Ok (length bytes, p)" and "Cable_Post.post_hash cr p = Ok g"
      and "acceptable cr mg bytes g"
      and "fst (handle_post_bytes cr bytes mg) =
        mg\<lparr>mg_requested_posts := hs_remove g (mg_requested_posts mg),
           mg_store := fst (insert_post cr p (mg_store mg))\<rparr>"
proof (cases "post_verify cr bytes \<and> (\<exists>p. post_from_bytes bytes = Ok (length bytes, p) \<and>
    (\<exists>g. Cable_Post.post_hash cr p = Ok g \<and> g \<notin> set (mg_deleted_posts mg) \<and> g \<in> set (mg_requested_posts mg)))")
  case True
  then obtain p g where v: "post_verify cr bytes" and p: "post_from_bytes bytes = Ok (length bytes, p)"
    "Cable_Post.post_hash cr p = Ok g" and g: "g \<notin> set (mg_deleted_posts mg)" "g \<in> set (mg_requested_posts mg)"
    by blast
  have "fst (handle_post_bytes cr bytes mg) =
      mg\<lparr>mg_requested_posts := hs_remove g (mg_requested_posts mg),
         mg_store := fst (insert_post cr p (mg_store mg))\<rparr>"
    using v p g
    by (simp add: handle_post_bytes_def m_then_def m_bind_def m_modify_def m_return_def m_lift_def m_get_def on_store_def
        split: prod.split result.split)
  with v p g show thesis by (intro insert) (auto simp: acceptable_def)
next
  case False
  have "fst (handle_post_bytes cr bytes mg) = mg"
  proof (cases "post_verify cr bytes")
    case verified: True
    show ?thesis
    proof (cases "post_from_bytes bytes")
      case (Ok r)
      obtain s p where r: "r = (s, p)" by (cases r)
      show ?thesis
      proof (cases "s = length bytes")
        case s: True
        show ?thesis
          by (cases "Cable_Post.post_hash cr p")
            (use False verified Ok r s in \<open>auto simp: handle_post_bytes_def m_return_def\<close>)
      qed (simp add: handle_post_bytes_def verified Ok r m_return_def)
    qed (simp_all add: handle_post_bytes_def verified)
  qed (simp add: handle_post_bytes_def m_return_def)
  then show thesis by (rule skip)
qed

lemma handle_post_bytes_frame:
  "mg_deleted_posts (fst (handle_post_bytes cr bytes mg)) = mg_deleted_posts mg"
  "set (mg_requested_posts (fst (handle_post_bytes cr bytes mg))) \<subseteq> set (mg_requested_posts mg)"
  by (cases rule: handle_post_bytes_cases [of cr bytes mg]; auto)+

lemma handle_posts_new_payload:
  assumes "get_post_payload (mg_store mg) g = None"
    and "get_post_payload (mg_store (fst (m_each (handle_post_bytes cr) posts mg))) g \<noteq> None"
  shows "\<exists>bytes \<in> set posts. acceptable cr mg bytes g"
  using assms
proof (induction posts arbitrary: mg)
  case Nil
  then show ?case by (simp add: m_return_def)
next
  case (Cons bytes posts)
  let ?m1 = "fst (handle_post_bytes cr bytes mg)"
  show ?case
  proof (cases "get_post_payload (mg_store ?m1) g = None")
    case True
    have "get_post_payload (mg_store (fst (m_each (handle_post_bytes cr) posts ?m1))) g \<noteq> None"
      using Cons.prems(2) True
      by (auto simp: m_then_def m_bind_def split: prod.splits result.splits)
    from Cons.IH [OF True this] obtain b where "b \<in> set posts" "acceptable cr ?m1 b g" by blast
    then show ?thesis using handle_post_bytes_frame [of cr bytes mg] by (auto simp: acceptable_def)
  next
    case False
    then show ?thesis
      by (cases rule: handle_post_bytes_cases [of cr bytes mg])
        (use Cons.prems(1) insert_post_new_payload [of "mg_store mg" g cr] in auto)
  qed
qed

subsection \<open>The invariant\<close>

fun is_request :: "message_body \<Rightarrow> bool" where
  "is_request (Request _ _) \<longleftrightarrow> True"
| "is_request _ \<longleftrightarrow> False"

definition outbound_ok :: "manager \<Rightarrow> bool" where
  "outbound_ok mg \<longleftrightarrow>
     list_all (\<lambda>(r, (_, m)). mh_req_id (m_header m) = r \<and> is_request (m_body m)) (mg_outbound_requests mg)"

text \<open>A live request for a time range has no end time; the live requests of a peer are one entry.\<close>

fun live_open :: "live_request \<Rightarrow> bool" where
  "live_open (LiveChannelTimeRange _ opts) \<longleftrightarrow> opt_time_end opts = 0"
| "live_open _ \<longleftrightarrow> True"

definition live_ok :: "manager \<Rightarrow> bool" where
  "live_ok mg \<longleftrightarrow> hm_wf (mg_live_requests mg) \<and> list_all (\<lambda>(_, rs). list_all live_open rs) (mg_live_requests mg)"

definition manager_inv :: "crypto \<Rightarrow> manager \<Rightarrow> bool" where
  "manager_inv cr mg \<longleftrightarrow> store_inv cr (mg_store mg) \<and> outbound_ok mg \<and> live_ok mg"

lemma live_ok_insert:
  assumes "live_ok mg" and "list_all live_open rs"
  shows "live_ok (mg\<lparr>mg_live_requests := hm_insert peer rs (mg_live_requests mg)\<rparr>)"
  using assms by (auto simp: live_ok_def list_all_iff set_hm_insert)

lemma live_ok_get: "live_ok mg \<Longrightarrow> hm_get (mg_live_requests mg) peer = Some rs \<Longrightarrow> list_all live_open rs"
  by (auto simp: live_ok_def list_all_iff hm_get_eq_Some)

lemma live_ok_push:
  assumes "live_ok mg" and "live_open r"
  shows "live_ok (mg\<lparr>mg_live_requests := hm_push peer r (mg_live_requests mg)\<rparr>)"
proof (cases "hm_get (mg_live_requests mg) peer")
  case (Some rs)
  with assms live_ok_insert [OF assms(1), of "rs @ [r]"] live_ok_get [OF assms(1) Some] show ?thesis
    by (simp add: hm_push_def)
qed (use assms live_ok_insert [OF assms(1), of "[r]"] in \<open>simp add: hm_push_def\<close>)

lemma outbound_ok_insert:
  "outbound_ok mg \<Longrightarrow> mh_req_id (m_header m) = r \<Longrightarrow> is_request (m_body m) \<Longrightarrow>
     outbound_ok (mg\<lparr>mg_outbound_requests := hm_insert r (o', m) (mg_outbound_requests mg)\<rparr>)"
  using set_hm_insert_subset [of r "(o', m)" "mg_outbound_requests mg"]
  by (fastforce simp: outbound_ok_def list_all_iff)

lemma outbound_ok_remove:
  "outbound_ok mg \<Longrightarrow> outbound_ok (mg\<lparr>mg_outbound_requests := hm_remove r (mg_outbound_requests mg)\<rparr>)"
  using set_hm_remove_subset [of r "mg_outbound_requests mg"]
  by (auto simp: outbound_ok_def list_all_iff)

text \<open>Fields that the invariant does not look at.\<close>

lemma manager_inv_update [simp]:
  "manager_inv cr (mg\<lparr>mg_peers := x1\<rparr>) = manager_inv cr mg"
  "manager_inv cr (mg\<lparr>mg_last_req_id := x2\<rparr>) = manager_inv cr mg"
  "manager_inv cr (mg\<lparr>mg_requested_posts := x4\<rparr>) = manager_inv cr mg"
  "manager_inv cr (mg\<lparr>mg_handled_requests := x5\<rparr>) = manager_inv cr mg"
  "manager_inv cr (mg\<lparr>mg_deleted_posts := x4\<rparr>) = manager_inv cr mg"
  "manager_inv cr (mg\<lparr>mg_forwarded_requests := x6\<rparr>) = manager_inv cr mg"
  "manager_inv cr (mg\<lparr>mg_last_peer_id := x7\<rparr>) = manager_inv cr mg"
  by (simp_all add: manager_inv_def outbound_ok_def live_ok_def)

lemma keeps_inv_store: "keeps (store_inv cr) m \<Longrightarrow> keeps (manager_inv cr) (on_store m)"
  by (auto simp: keeps_def manager_inv_def outbound_ok_def live_ok_def on_store_def split: prod.split)

lemma keeps_inv_outbound:
  assumes "mh_req_id (m_header m) = r" and "is_request (m_body m)"
  shows "keeps (manager_inv cr) (insert_outbound r o' m)"
  unfolding insert_outbound_def
  by (rule keeps_modify) (use assms outbound_ok_insert in \<open>auto simp: manager_inv_def live_ok_def\<close>)

lemma keeps_inv_decrement:
  assumes "mh_req_id (m_header msg) = r" and "is_request (m_body msg)"
  shows "keeps (manager_inv cr) (decrement_ttl_and_write_to_outbound checks r msg)"
proof (cases "decrement_ttl checks msg")
  case (Ok m)
  have "mh_req_id (m_header m) = r" "is_request (m_body m)"
    using Ok assms by (auto simp: decrement_ttl_def split: message_body.splits if_splits)
  then show ?thesis
    using keeps_inv_outbound [of m r cr Remote] Ok
    by (simp add: decrement_ttl_and_write_to_outbound_def keeps_def)
qed (simp_all add: decrement_ttl_and_write_to_outbound_def keeps_def)

lemma keeps_inv_remove_outbound:
  "keeps (manager_inv cr) (m_modify (\<lambda>mg. mg\<lparr>mg_outbound_requests := hm_remove r (mg_outbound_requests mg)\<rparr>))"
  by (rule keeps_modify) (auto simp: manager_inv_def live_ok_def outbound_ok_remove)

lemma keeps_inv_insert_post: "keeps (store_inv cr) (insert_post cr p)"
  by (simp add: keeps_def insert_post_inv)

lemma keeps_inv_live:
  "live_open r \<Longrightarrow> keeps (manager_inv cr) (add_live_request peer r)" "keeps (manager_inv cr) (remove_live_request peer q)"
proof -
  show "live_open r \<Longrightarrow> keeps (manager_inv cr) (add_live_request peer r)"
    unfolding add_live_request_def
    by (rule keeps_modify) (simp add: manager_inv_def outbound_ok_def live_ok_push)
  have "list_all live_open (filter P rs)" if "list_all live_open rs" for P rs
    using that by (simp add: list_all_iff)
  then show "keeps (manager_inv cr) (remove_live_request peer q)"
    unfolding remove_live_request_def
    by (intro keeps_modify) (auto simp: manager_inv_def outbound_ok_def live_ok_get intro!: live_ok_insert split: option.split)
qed

lemmas keeps_inv_intros = keeps_intros keeps_send keeps_broadcast keeps_new_req_id keeps_time_range_hashes
  keeps_inv_store keeps_inv_insert_post keeps_inv_live keeps_inv_remove_outbound keeps_send_post_hashes keeps_keys

lemma keeps_inv_forward:
  assumes "mh_req_id (m_header msg) = r" and "is_request (m_body msg)"
  shows "keeps (manager_inv cr) (forward_if_ttl checks r ttl msg)"
  unfolding forward_if_ttl_def by (auto intro!: keeps_intros keeps_inv_decrement assms)

lemma keeps_inv_handle_post_bytes: "keeps (manager_inv cr) (handle_post_bytes cr bytes)"
  unfolding handle_post_bytes_def
  by (auto intro!: keeps_inv_intros keeps_modify split: prod.split)

lemma keeps_inv_handle_body: "keeps (manager_inv cr) (handle_body cr checks peer msg)"
proof (cases "m_body msg")
  case (Request ttl body)
  let ?r = "mh_req_id (m_header msg)"
  have fw: "keeps (manager_inv cr) (forward_if_ttl checks ?r ttl msg)"
    "keeps (manager_inv cr) (decrement_ttl_and_write_to_outbound checks ?r msg)"
    using Request by (simp_all add: keeps_inv_forward keeps_inv_decrement)
  show ?thesis
    by (cases body)
      (auto simp: Request handle_body_def Let_def handle_post_request_def handle_cancel_request_def
        handle_time_range_request_def handle_channel_state_request_def handle_channel_list_request_def
        intro!: keeps_inv_intros fw split: option.split)
next
  case (Response body)
  show ?thesis
    by (cases body)
      (auto simp: Response handle_body_def Let_def handle_hash_response_def
        intro!: keeps_inv_intros keeps_modify keeps_inv_handle_post_bytes store_inv_insert_channel split: prod.split)
qed (simp add: handle_body_def Let_def keeps_return)

lemma keeps_inv_handle: "keeps (manager_inv cr) (handle cr checks peer msg)"
  unfolding handle_def by (auto intro!: keeps_intros keeps_inv_handle_body keeps_modify)

lemma keeps_inv_publish: "keeps (manager_inv cr) (publish cr p)"
  unfolding publish_def by (auto intro!: keeps_inv_intros split: option.split)

lemma keeps_inv_header_values: "keeps (manager_inv cr) (post_header_values now ch)"
  unfolding post_header_values_def by (intro keeps_inv_intros)

lemma keeps_inv_posts:
  "keeps (manager_inv cr) (manager_post_text cr now ch t)"
  "keeps (manager_inv cr) (manager_post_delete cr now hashes)"
  "keeps (manager_inv cr) (manager_post_info_name cr now name)"
  "keeps (manager_inv cr) (manager_post_topic cr now ch tp)"
  "keeps (manager_inv cr) (manager_post_join cr now ch)"
  "keeps (manager_inv cr) (manager_post_leave cr now ch)"
  unfolding manager_post_text_def manager_post_delete_def manager_post_info_name_def manager_post_topic_def
    manager_post_join_def manager_post_leave_def
  by (auto intro!: keeps_inv_intros keeps_modify keeps_inv_publish keeps_inv_header_values split: prod.split)

lemma keeps_inv_open: "keeps (manager_inv cr) (open_channel opts)"
proof -
  have "keeps (store_inv cr) (get_posts_live opts)" by (simp add: keeps_def inv_get_posts_live)
  then show ?thesis
    unfolding open_channel_def Let_def
    by (auto intro!: keeps_inv_intros keeps_inv_outbound split: prod.split
        simp: channel_time_range_request_def channel_state_request_def message_new_def message_header_new_def)
qed

lemma keeps_inv_close: "keeps (manager_inv cr) (close_channel ch)"
  unfolding close_channel_def by (auto intro!: keeps_inv_intros split: prod.split)

subsection \<open>Connections\<close>

definition conn_inv :: "crypto \<Rightarrow> manager \<times> peer_stream \<Rightarrow> bool" where
  "conn_inv cr s \<longleftrightarrow> manager_inv cr (fst s)"

lemma keeps_conn_write: "keeps (conn_inv cr) (write_all bs)"
  by (simp add: keeps_def conn_inv_def write_all_def)

lemma keeps_conn_forwarded: "keeps (conn_inv cr) (modify_forwarded f)"
  by (rule keeps_modify) (auto simp: conn_inv_def)

lemma keeps_conn_outbound: "keeps (conn_inv cr) (process_and_send_outbound_requests peer)"
proof -
  have "keeps (conn_inv cr) (process_outbound_request peer entry)" for entry
    unfolding process_outbound_request_def forward_cancel_def forward_request_def
    by (auto intro!: keeps_intros keeps_conn_write keeps_conn_forwarded
        split: prod.split message_body.split request_body.split request_origin.split option.split)
  then show ?thesis unfolding process_and_send_outbound_requests_def by (intro keeps_intros)
qed

lemma keeps_conn_connect: "keeps (conn_inv cr) listen_connect"
proof -
  have "keeps (conn_inv cr) (m_then (process_and_send_outbound_requests peer) (m_return peer))" for peer :: peer_id
    by (intro keeps_intros keeps_conn_outbound)
  then show ?thesis
    by (auto simp: keeps_def conn_inv_def listen_connect_def new_peer_id_def m_get_def)
qed

lemma keeps_conn_listen_write: "keeps (conn_inv cr) (listen_write peer)"
proof -
  have "keeps (conn_inv cr) (m_modify (\<lambda>(mg, ps). (mg\<lparr>mg_peers := f mg\<rparr>, ps)))" for f
    by (rule keeps_modify) (auto simp: conn_inv_def)
  then show ?thesis
    unfolding listen_write_def by (auto intro!: keeps_intros keeps_conn_write split: option.split list.split)
qed

lemma keeps_inv_receive: "keeps (manager_inv cr) (listen_receive cr checks peer buf)"
proof -
  have "keeps (manager_inv cr) (\<lambda>mg. (fst (handle cr checks peer msg mg), Ok ()))" for msg
    using keeps_inv_handle [of cr checks peer msg] by (simp add: keeps_def)
  then show ?thesis unfolding listen_receive_def by (auto intro!: keeps_intros split: prod.split)
qed

subsection \<open>Reachable managers\<close>

text \<open>A peer from its start: it is used locally and by any number of remote peers that send arbitrary frames,
  in any interleaving; a stream may fail at any time.\<close>

inductive manager_reach :: "crypto \<Rightarrow> bool \<Rightarrow> manager \<Rightarrow> bool" for cr checks where
  start: "manager_reach cr checks (manager_new random (store_default kp))"
| connect: "manager_reach cr checks mg \<Longrightarrow> manager_reach cr checks (fst (fst (listen_connect (mg, ps))))"
| receive: "manager_reach cr checks mg \<Longrightarrow> manager_reach cr checks (fst (listen_receive cr checks peer buf mg))"
| write_out: "manager_reach cr checks mg \<Longrightarrow> manager_reach cr checks (fst (fst (listen_write peer (mg, ps))))"
| hang_up: "manager_reach cr checks mg \<Longrightarrow> hm_get (mg_peers mg) peer = Some ch \<Longrightarrow>
    manager_reach cr checks (mg\<lparr>mg_peers := hm_insert peer (ch\<lparr>pc_closed := True\<rparr>) (mg_peers mg)\<rparr>)"
| disconnect: "manager_reach cr checks mg \<Longrightarrow> manager_reach cr checks (fst (listen_end peer mg))"
| post_text: "manager_reach cr checks mg \<Longrightarrow> manager_reach cr checks (fst (manager_post_text cr now ch t mg))"
| post_delete: "manager_reach cr checks mg \<Longrightarrow> manager_reach cr checks (fst (manager_post_delete cr now hashes mg))"
| post_info: "manager_reach cr checks mg \<Longrightarrow> manager_reach cr checks (fst (manager_post_info_name cr now name mg))"
| post_topic: "manager_reach cr checks mg \<Longrightarrow> manager_reach cr checks (fst (manager_post_topic cr now ch tp mg))"
| post_join: "manager_reach cr checks mg \<Longrightarrow> manager_reach cr checks (fst (manager_post_join cr now ch mg))"
| post_leave: "manager_reach cr checks mg \<Longrightarrow> manager_reach cr checks (fst (manager_post_leave cr now ch mg))"
| open_channel: "manager_reach cr checks mg \<Longrightarrow> manager_reach cr checks (fst (open_channel opts mg))"
| close_channel: "manager_reach cr checks mg \<Longrightarrow> manager_reach cr checks (fst (close_channel ch mg))"

lemma keeps_conn_fst: "keeps (conn_inv cr) m \<Longrightarrow> manager_inv cr mg \<Longrightarrow> manager_inv cr (fst (fst (m (mg, ps))))"
  unfolding keeps_def conn_inv_def by fastforce

lemma manager_reach_inv: "manager_reach cr checks mg \<Longrightarrow> manager_inv cr mg"
proof (induction rule: manager_reach.induct)
  case start
  then show ?case by (simp add: manager_inv_def manager_new_def outbound_ok_def live_ok_def store_inv_default)
next
  case (disconnect mg peer)
  then show ?case by (simp add: listen_end_def m_modify_def)
qed (simp_all add: keepsD [OF keeps_inv_receive] keepsD [OF keeps_inv_posts(1)] keepsD [OF keeps_inv_posts(2)]
      keepsD [OF keeps_inv_posts(3)] keepsD [OF keeps_inv_posts(4)] keepsD [OF keeps_inv_posts(5)]
      keepsD [OF keeps_inv_posts(6)] keepsD [OF keeps_inv_open] keepsD [OF keeps_inv_close]
      keeps_conn_fst [OF keeps_conn_connect] keeps_conn_fst [OF keeps_conn_listen_write])

end
