(* ===== verification/Core_Store_Props.thy ===== *)
theory Core_Store_Props
  imports Core_Store_Inv
begin

text \<open>
  The properties of the in-memory store: its invariant over all sequences of operations, what an
  inserted post leaves behind, who may delete what, membership, topics, queries and live streams.
\<close>

subsection \<open>Queries\<close>

definition in_range :: "channel_options \<Rightarrow> timestamp \<Rightarrow> bool" where
  "in_range opts t \<longleftrightarrow> (opt_time_start opts = 0 \<or> opt_time_start opts \<le> t) \<and>
     (opt_time_end opts = 0 \<or> t < opt_time_end opts)"

lemma bt_range_Ok:
  "bt_range (opt_time_start opts) (opt_time_end opts) m = Ok r \<Longrightarrow> r = filter (\<lambda>(t, _). in_range opts t) m"
  by (auto simp: bt_range_def in_range_def split: if_splits intro!: filter_cong)

lemma bt_range_panic:
  "bt_range s e m = Panic x \<longleftrightarrow> s \<noteq> 0 \<and> e \<noteq> 0 \<and> e < s \<and> x = RangeStartAfterEnd"
  by (auto simp: bt_range_def)

lemma bt_range_not_Err: "bt_range s e m \<noteq> Err x"
  by (auto simp: bt_range_def)

lemma channel_entries_Ok:
  assumes "channel_entries st opts = Ok es" and "hm_wf (st_posts st)"
  shows "(p, h) \<in> set es \<longleftrightarrow>
     (\<exists>t. (Some (opt_channel opts), t, p, h) \<in> set (post_entries (st_posts st)) \<and> in_range opts t)"
proof (cases "hm_get (st_posts st) (Some (opt_channel opts))")
  case None
  then show ?thesis
    using assms(1) by (auto simp: channel_entries_def in_post_entries simp flip: hm_get_eq_Some [OF assms(2)])
next
  case (Some m)
  obtain r where r: "bt_range (opt_time_start opts) (opt_time_end opts) m = Ok r" "es = concat (map snd r)"
    using assms(1) Some by (auto simp: channel_entries_def and_then_eq_Ok)
  have "(p, h) \<in> set es \<longleftrightarrow> (\<exists>t ps. (t, ps) \<in> set m \<and> in_range opts t \<and> (p, h) \<in> set ps)"
    unfolding r(2) bt_range_Ok [OF r(1)] by fastforce
  then show ?thesis
    using Some by (auto simp: in_post_entries simp flip: hm_get_eq_Some [OF assms(2)])
qed

lemma sorted_concat_entries:
  assumes "sorted_wrt (<) (map fst m)" and "\<And>t ps p h. (t, ps) \<in> set m \<Longrightarrow> (p, h) \<in> set ps \<Longrightarrow> f p = t"
  shows "sorted (map (\<lambda>(p, h). f p) (concat (map snd m)))"
  using assms
proof (induction m)
  case (Cons e m)
  obtain t ps where e: "e = (t, ps)" by (cases e)
  have ft: "f p = t" if "(p, h) \<in> set ps" for p h using Cons.prems(2) e that by auto
  have "map (\<lambda>(p, h). f p) ps = replicate (length ps) t"
    using ft by (auto intro!: replicate_eqI)
  moreover have "t \<le> f p" if "(p, h) \<in> set (concat (map snd m))" for p h
  proof -
    from that obtain t' qs where "(t', qs) \<in> set m" "(p, h) \<in> set qs" by fastforce
    with Cons.prems e show ?thesis by (fastforce simp: less_imp_le)
  qed
  moreover have "sorted (map (\<lambda>(p, h). f p) (concat (map snd m)))"
    by (rule Cons.IH) (use Cons.prems in \<open>auto simp: e\<close>)
  ultimately show ?case by (auto simp: e sorted_append sorted_replicate)
qed simp

lemma channel_entries_sorted:
  assumes "store_inv cr st" and "channel_entries st opts = Ok es"
  shows "sorted (map (\<lambda>(p, h). get_timestamp p) es)"
proof (cases "hm_get (st_posts st) (Some (opt_channel opts))")
  case None
  with assms(2) show ?thesis by (auto simp: channel_entries_def)
next
  case (Some m)
  obtain r where r: "bt_range (opt_time_start opts) (opt_time_end opts) m = Ok r" "es = concat (map snd r)"
    using assms(2) Some by (auto simp: channel_entries_def and_then_eq_Ok)
  have m: "(Some (opt_channel opts), m) \<in> set (st_posts st)" using Some by (rule map_of_SomeD)
  have inv: "posts_ok cr st" using assms(1) by (simp add: store_inv_def inv_pending_def)
  have "bt_wf r" using inv m unfolding bt_range_Ok [OF r(1)] by (auto simp: posts_ok_def list_all_iff)
  moreover have "get_timestamp p = t" if "(t, ps) \<in> set r" "(p, h) \<in> set ps" for t ps p h
  proof -
    have "(Some (opt_channel opts), t, p, h) \<in> set (post_entries (st_posts st))"
      using that m unfolding bt_range_Ok [OF r(1)] in_post_entries by auto
    with inv show ?thesis by (auto simp: posts_ok_def list_all_iff)
  qed
  ultimately show ?thesis unfolding r(2) by (intro sorted_concat_entries) (auto simp: bt_wf_def)
qed

subsection \<open>Sample posts and stores\<close>

definition sample_key :: public_key where
  "sample_key = replicate 32 1"

definition sample_store :: store where
  "sample_store = store_default (sample_key, replicate 64 1)"

lemma sample_hash: "post_to_bytes p = Ok bs \<Longrightarrow> \<exists>h. post_hash sample_crypto p = Ok h"
  by (auto simp: post_hash_def sample_crypto_def min_def)

lemma post_text_hash: "\<exists>h. post_hash sample_crypto (post_text sample_key [] ts ch txt) = Ok h"
proof -
  have "post_to_bytes (post_text sample_key [] ts ch txt) = Ok (post_bytes (post_text sample_key [] ts ch txt))"
    by (rule post_to_bytes_eq)
      (simp_all add: post_text_def post_new_def post_header_new_def post_typed_def sample_key_def)
  then show ?thesis by (rule sample_hash)
qed

subsection \<open>Properties\<close>



text \<open>The payloads of a store as an abstract replica: a map from hashes to posts. A post that is taken over removes the
  posts that it names and that carry its public key, if it is a \<^verbatim>\<open>post/delete\<close>, and adds its own payload.\<close>

definition named_own :: "post \<Rightarrow> (hash \<Rightarrow> payload option) \<Rightarrow> hash set" where
  "named_own p m = {g. \<exists>hs bs. p_body p = Delete hs \<and> g \<in> set hs \<and> m g = Some bs \<and> deletable p bs}"

definition take_over :: "post \<Rightarrow> hash \<Rightarrow> payload \<Rightarrow> (hash \<Rightarrow> payload option) \<Rightarrow> hash \<Rightarrow> payload option" where
  "take_over p h bs m = (m |` (- named_own p m))(h \<mapsto> bs)"

lemma named_own_none: "\<forall>hs. p_body p \<noteq> Delete hs \<Longrightarrow> named_own p m = {}"
  by (simp add: named_own_def)

lemma delete_rounds_replica:
  assumes "m_each (delete_round p h) hs st = (st', Ok ())" and "p_body p = Delete hs"
  shows "get_post_payload st' = get_post_payload st |` (- named_own p (get_post_payload st))"
proof
  fix g
  show "get_post_payload st' g = (get_post_payload st |` (- named_own p (get_post_payload st))) g"
  proof (cases "get_post_payload st g")
    case None
    then show ?thesis using delete_rounds_none [OF assms(1)] by (simp add: restrict_map_def)
  next
    case (Some bs)
    then show ?thesis
      using delete_rounds_payload [OF assms(1) Some] delete_rounds_removed [OF assms(1) Some] assms(2)
      by (auto simp: restrict_map_def named_own_def)
  qed
qed

lemma insert_post_shrinks:
  assumes "insert_post cr p st = (st', r)" and "\<forall>h. r \<noteq> Ok h"
  shows "get_post_payload st' g = get_post_payload st g \<or>
     get_post_payload st' g = None \<and> g \<in> named_own p (get_post_payload st)"
proof (cases "\<exists>h. Cable_Post.post_hash cr p = Ok h")
  case True
  then obtain h bs where h: "Cable_Post.post_hash cr p = Ok h" "post_to_bytes p = Ok bs" by (auto simp: post_hash_eq_Ok)
  have "\<exists>hs. p_body p = Delete hs" using insert_post_eq [OF h, of st] assms by auto
  then obtain hs where b: "p_body p = Delete hs" by blast
  obtain st1 r1 where m: "m_each (delete_round p h) hs st = (st1, r1)" by fastforce
  have "st' = st1" using insert_post_delete_eq [OF h b, of st] m assms by (cases r1) auto
  then show ?thesis
    using delete_rounds_payload [OF m, of g] delete_rounds_none [OF m, of g] b
    by (cases "get_post_payload st g") (auto simp: named_own_def)
qed (use insert_post_failed_hash [of cr p st] assms in auto)

text \<open>C7. Inserting a post refines one step of the abstract replica. When the insertion succeeds, the result is the hash
  of the encoding and the payloads are those of the replica that has taken the post over: a \<^verbatim>\<open>post/delete\<close> has removed
  exactly the stored posts of its own author that it names, no other post has removed anything, the encoding of the
  post is stored under its hash (so it is no longer wanted), and its channel is known. When the insertion fails, the
  only payloads that may be missing are posts of the author that a \<^verbatim>\<open>post/delete\<close> names, and none has changed.\<close>

theorem insert_post_refines:
  "case insert_post cr p st of
     (st', Ok h) \<Rightarrow>
       (\<exists>bs. post_to_bytes p = Ok bs \<and> generichash_hash cr bs = Some h \<and>
          get_post_payload st' = take_over p h bs (get_post_payload st) \<and> want st' [h] = [] \<and>
          set_option (get_channel p) \<subseteq> set (st_channels st'))
   | (st', _) \<Rightarrow>
       (\<forall>g. get_post_payload st' g = get_post_payload st g \<or>
          get_post_payload st' g = None \<and> g \<in> named_own p (get_post_payload st))"
proof -
  obtain st' r where i: "insert_post cr p st = (st', r)" by fastforce
  show ?thesis
  proof (cases r)
    case (Ok h)
    with i have ins: "insert_post cr p st = (st', Ok h)" by simp
    obtain bs where bs: "post_to_bytes p = Ok bs" "generichash_hash cr bs = Some h"
      using insert_post_hash [OF ins] by (auto simp: post_hash_eq_Ok)
    note h = insert_post_hash [OF ins]
    have "get_post_payload st' = take_over p h bs (get_post_payload st)"
    proof (cases "\<exists>hs. p_body p = Delete hs")
      case True
      then obtain hs where b: "p_body p = Delete hs" by blast
      obtain st1 where m: "m_each (delete_round p h) hs st = (st1, Ok ())" and st': "st' = insert_post_payload h bs st1"
        using insert_post_delete_eq [OF h bs(1) b, of st] ins by (auto split: prod.splits result.splits)
      show ?thesis
        using delete_rounds_replica [OF m b] by (simp add: fun_eq_iff st' take_over_def)
    next
      case False
      then show ?thesis
        using insert_post_eq [OF h bs(1), of st] ins by (auto simp: fun_eq_iff take_over_def named_own_none restrict_map_def)
    qed
    moreover from this have "want st' [h] = []"
      by (simp add: want_def hm_contains_def get_post_payload_def take_over_def fun_eq_iff)
    moreover have "set_option (get_channel p) \<subseteq> set (st_channels st')"
      using insert_post_known_channel [OF ins] by (auto simp del: get_channel.simps)
    ultimately show ?thesis using ins bs by simp
  qed (use insert_post_shrinks [OF i] i in simp_all)
qed

lemma sample_insert:
  obtains st' h where "insert_post sample_crypto (post_text sample_key [] ts ch txt) st = (st', Ok h)"
proof -
  obtain h where h: "post_hash sample_crypto (post_text sample_key [] ts ch txt) = Ok h"
    using post_text_hash by blast
  then obtain bs where "post_to_bytes (post_text sample_key [] ts ch txt) = Ok bs" by (auto simp: post_hash_eq_Ok)
  from insert_post_eq [OF h this, of st] show thesis
    by (intro that) (simp add: post_text_def post_new_def)
qed

text \<open>A store with one post, a \<^verbatim>\<open>post/delete\<close> of another author for it, and one of its author.\<close>

definition foreign_store :: store where
  "foreign_store = insert_post_payload (replicate 32 7) (post_bytes sample_post) sample_store"

definition foreign_delete :: post where
  "foreign_delete = post_delete (replicate 32 9) [] 5 [replicate 32 7, replicate 32 8]"

definition own_delete :: post where
  "own_delete = post_delete (replicate 32 1) [] 5 [replicate 32 7]"

lemma own_delete_insert:
  obtains st' where "insert_post sample_crypto own_delete foreign_store = (st', Ok (replicate 32 1))"
proof -
  have b: "post_to_bytes own_delete = Ok (post_bytes own_delete)"
    by (rule post_to_bytes_eq)
      (simp_all add: own_delete_def post_delete_def post_new_def post_header_new_def post_typed_def)
  then have h: "post_hash sample_crypto own_delete = Ok (replicate 32 1)"
    by (simp add: post_hash_def sample_crypto_def post_bytes_def own_delete_def post_delete_def post_new_def post_header_new_def)
  have d: "p_body own_delete = Delete [replicate 32 7]" by (simp add: own_delete_def post_delete_def post_new_def)
  have "\<exists>st'. delete_round own_delete (replicate 32 1) (replicate 32 7) foreign_store = (st', Ok ())"
    using post_from_bytes_post_bytes [OF sample_post_ok, of "[]"] by (simp add: delete_round_cases foreign_store_def)
  then obtain st' where "delete_round own_delete (replicate 32 1) (replicate 32 7) foreign_store = (st', Ok ())" by blast
  then have "m_each (delete_round own_delete (replicate 32 1)) [replicate 32 7] foreign_store = (st', Ok ())"
    by (simp add: m_then_def m_bind_def m_return_def)
  with insert_post_delete_eq [OF h b d, of foreign_store] show thesis by (intro that) simp
qed

theorem insert_post_refines_witness:
  "(\<exists>st'. insert_post sample_crypto own_delete foreign_store = (st', Ok (replicate 32 1)) \<and>
      get_post_payload st' (replicate 32 7) = None \<and> get_post_payload st' (replicate 32 1) = Some (post_bytes own_delete)) \<and>
   get_post_payload (fst (insert_post sample_crypto foreign_delete foreign_store)) (replicate 32 7) =
     Some (post_bytes sample_post)"
proof
  let ?g = "replicate 32 7 :: hash" and ?m = "get_post_payload foreign_store"
  have g: "?m ?g = Some (post_bytes sample_post)" by (simp add: foreign_store_def)
  have q: "post_from_bytes (post_bytes sample_post) = Ok (length (post_bytes sample_post), sample_post)"
    using post_from_bytes_post_bytes [OF sample_post_ok, of "[]"] by simp
  note defs = own_delete_def foreign_delete_def sample_post_def post_text_def post_delete_def post_new_def
    post_header_new_def get_public_key_def
  obtain st' where i: "insert_post sample_crypto own_delete foreign_store = (st', Ok (replicate 32 1))"
    by (rule own_delete_insert)
  have "post_to_bytes own_delete = Ok (post_bytes own_delete)"
    by (rule post_to_bytes_eq) (simp_all add: defs post_typed_def)
  moreover have "?g \<in> named_own own_delete ?m" using g q by (simp add: named_own_def deletable_def) (simp add: defs)
  ultimately show "\<exists>st'. insert_post sample_crypto own_delete foreign_store = (st', Ok (replicate 32 1)) \<and>
      get_post_payload st' ?g = None \<and> get_post_payload st' (replicate 32 1) = Some (post_bytes own_delete)"
    using insert_post_refines [where cr = sample_crypto and p = own_delete and st = foreign_store] i
    by (auto simp: take_over_def restrict_map_def)
  have no: "?g \<notin> named_own foreign_delete ?m" using g q by (simp add: named_own_def deletable_def) (simp add: defs)
  have "post_to_bytes foreign_delete = Ok (post_bytes foreign_delete)"
    by (rule post_to_bytes_eq) (simp_all add: defs post_typed_def)
  then have h: "post_hash sample_crypto foreign_delete \<noteq> Ok ?g"
    by (simp add: post_hash_def sample_crypto_def post_bytes_def) (simp add: defs)
  obtain st r where j: "insert_post sample_crypto foreign_delete foreign_store = (st, r)" by fastforce
  have "r \<noteq> Ok ?g" using insert_post_hash [of sample_crypto foreign_delete foreign_store st ?g] j h by auto
  then show "get_post_payload (fst (insert_post sample_crypto foreign_delete foreign_store)) ?g = Some (post_bytes sample_post)"
    using insert_post_refines [where cr = sample_crypto and p = foreign_delete and st = foreign_store] g no j
    by (cases r) (auto simp: take_over_def restrict_map_def dest!: spec [of _ ?g])
qed



text \<open>C29. Membership follows the join and leave posts: after a \<^verbatim>\<open>post/join\<close> its author is a member of the channel and
  not an ex-member, after a \<^verbatim>\<open>post/leave\<close> the reverse; no other member of any channel is affected.\<close>

theorem membership_follows_posts:
  assumes "insert_post cr p st = (st', Ok h)"
  shows "(p_body p = Join ch \<longrightarrow>
       is_channel_member st' ch (get_public_key p) \<and>
       (\<forall>ks. get_ex_channel_members st' ch = Some ks \<longrightarrow> get_public_key p \<notin> set ks)) \<and>
     (p_body p = Leave ch \<longrightarrow>
       \<not> is_channel_member st' ch (get_public_key p) \<and>
       (\<exists>ks. get_ex_channel_members st' ch = Some ks \<and> get_public_key p \<in> set ks)) \<and>
     (p_body p \<in> {Join ch, Leave ch} \<longrightarrow>
       (\<forall>ch' pk. (ch', pk) \<noteq> (ch, get_public_key p) \<longrightarrow> is_channel_member st' ch' pk = is_channel_member st ch' pk))"
proof -
  obtain bs where h: "post_hash cr p = Ok h" "post_to_bytes p = Ok bs"
    using insert_post_hash [OF assms] by (auto simp: post_hash_eq_Ok)
  have frame: "get_channel_members (insert_channel c (insert_post_payload h bs s)) = get_channel_members s"
    "get_ex_channel_members (insert_channel c (insert_post_payload h bs s)) = get_ex_channel_members s"
    "get_channel_members (update_channel_membership_hashes c k g s) = get_channel_members s"
    "get_ex_channel_members (update_channel_membership_hashes c k g s) = get_ex_channel_members s"
    "get_channel_members (remove_ex_channel_member c k s) = get_channel_members s"
    "get_channel_members (insert_ex_channel_member c k s) = get_channel_members s"
    for c k g s
    by (simp_all add: fun_eq_iff get_channel_members_def get_ex_channel_members_def store_field_defs)
  have st': "p_body p \<in> {Join ch, Leave ch} \<Longrightarrow>
      st' = insert_channel ch (insert_post_payload h bs (index_post p h (p_body p) st))"
    using insert_post_eq [OF h, of st] assms by auto
  show ?thesis
    using st'
    by (auto simp: is_channel_member_def frame members.lookup_log members.lookup_unlog ex_members.lookup_log
        ex_members.lookup_unlog split: option.splits if_splits)
qed

definition sample_join :: post where
  "sample_join = post_join sample_key [] 5 [100]"

lemma sample_join_insert:
  obtains st' h where "insert_post sample_crypto sample_join sample_store = (st', Ok h)"
proof -
  have b: "post_to_bytes sample_join = Ok (post_bytes sample_join)"
    by (rule post_to_bytes_eq)
      (simp_all add: sample_join_def post_join_def post_new_def post_header_new_def post_typed_def sample_key_def)
  then obtain h where h: "post_hash sample_crypto sample_join = Ok h"
    using sample_hash by blast
  from insert_post_eq [OF h b, of sample_store] show thesis
    by (intro that) (simp add: sample_join_def post_join_def post_new_def)
qed

theorem membership_follows_posts_witness:
  "is_channel_member (fst (insert_post sample_crypto sample_join sample_store)) [100] sample_key"
proof -
  obtain st' h where i: "insert_post sample_crypto sample_join sample_store = (st', Ok h)"
    by (rule sample_join_insert)
  from membership_follows_posts [OF i, of "[100]"] i show ?thesis
    by (simp add: sample_join_def post_join_def post_new_def post_header_new_def get_public_key_def)
qed


definition sample_topic :: post where
  "sample_topic = post_topic sample_key [] 5 [100] [104]"


definition stored :: "store \<Rightarrow> post \<Rightarrow> hash \<Rightarrow> bool" where
  "stored st p h \<longleftrightarrow> (get_channel p, get_timestamp p, p, h) \<in> set (post_entries (st_posts st))"

lemma stored_iff:
  "store_inv cr st \<Longrightarrow> (c, t, p, h) \<in> set (post_entries (st_posts st)) \<longleftrightarrow>
     stored st p h \<and> c = get_channel p \<and> t = get_timestamp p"
  by (fastforce simp: store_inv_def inv_pending_def posts_ok_def list_all_iff stored_def simp del: get_channel.simps)



definition delivered :: "post \<Rightarrow> live_stream \<Rightarrow> live_stream" where
  "delivered p s =
     (if live_stream_matches s p \<and> length (ls_queue s) < ls_capacity s then s\<lparr>ls_queue := ls_queue s @ [p]\<rparr> else s)"



end
