(* ===== verification/Core_Manager_Props.thy ===== *)
theory Core_Manager_Props
  imports Core_Manager_Inv Core_Store_Props
begin

text \<open>
  The properties of the manager: its invariant over all interleavings, which posts it stores, how it
  answers each kind of request, and how requests are forwarded, cancelled and deduplicated.
\<close>

subsection \<open>Messages to a peer\<close>

definition peer_open :: "manager \<Rightarrow> peer_id \<Rightarrow> bool" where
  "peer_open mg peer = (case hm_get (mg_peers mg) peer of Some ch \<Rightarrow> \<not> pc_closed ch | None \<Rightarrow> False)"

definition queued :: "manager \<Rightarrow> peer_id \<Rightarrow> message list" where
  "queued mg peer = (case hm_get (mg_peers mg) peer of Some ch \<Rightarrow> pc_queue ch | None \<Rightarrow> [])"

lemma send_open:
  assumes "peer_open mg peer"
  obtains ps where "send peer msg mg = (mg\<lparr>mg_peers := ps\<rparr>, Ok ())"
    and "\<And>mg'. mg_peers mg' = ps \<Longrightarrow> queued mg' peer = queued mg peer @ [msg] \<and> peer_open mg' peer"
    and "\<And>mg' q. mg_peers mg' = ps \<Longrightarrow> q \<noteq> peer \<Longrightarrow> queued mg' q = queued mg q"
proof -
  from assms obtain ch where ch: "hm_get (mg_peers mg) peer = Some ch" "\<not> pc_closed ch"
    by (auto simp: peer_open_def split: option.splits)
  show thesis
    by (rule that [of "hm_insert peer (ch\<lparr>pc_queue := pc_queue ch @ [msg]\<rparr>) (mg_peers mg)"])
      (use ch in \<open>simp_all add: send_def send_on_def queued_def peer_open_def\<close>)
qed

lemma queued_peers: "mg_peers mg = mg_peers mg' \<Longrightarrow> queued mg = queued mg' \<and> peer_open mg = peer_open mg'"
  by (simp add: queued_def peer_open_def fun_eq_iff)

lemma handle_fresh:
  "\<not> is_stale mg peer (mh_req_id (m_header msg)) \<Longrightarrow>
     handle cr checks peer msg mg =
       m_then (handle_body cr checks peer msg)
         (m_modify (\<lambda>mg. mg\<lparr>mg_handled_requests := hs_insert (mh_req_id (m_header msg)) (mg_handled_requests mg)\<rparr>)) mg"
  by (simp add: handle_def)

lemma handle_fst:
  "\<not> is_stale mg peer (mh_req_id (m_header msg)) \<Longrightarrow>
     fst (handle cr checks peer msg mg) =
       (case handle_body cr checks peer msg mg of
          (mg', Ok _) \<Rightarrow> mg'\<lparr>mg_handled_requests := hs_insert (mh_req_id (m_header msg)) (mg_handled_requests mg')\<rparr>
        | (mg', _) \<Rightarrow> mg')"
  by (auto simp: handle_fresh m_then_def m_bind_def m_modify_def split: prod.split result.split)

lemma sample_manager_parts:
  "mg_store (manager_new r st) = st" "mg_handled_requests (manager_new r st) = []"
  "mg_peers (manager_new r st) = []" "mg_requested_posts (manager_new r st) = []"
  "mg_deleted_posts (manager_new r st) = []"
  by (simp_all add: manager_new_def)

text \<open>A manager with one connected peer.\<close>

definition sample_manager :: manager where
  "sample_manager =
     (manager_new 41 sample_store)\<lparr>mg_last_peer_id := 1, mg_peers := [(1, \<lparr>pc_queue = [], pc_closed = False\<rparr>)]\<rparr>"

lemma sample_manager_open: "peer_open sample_manager 1" "queued sample_manager 1 = []"
  by (simp_all add: sample_manager_def peer_open_def queued_def)

lemma sample_manager_fresh: "\<not> is_stale sample_manager peer r"
  by (simp add: is_stale_def sample_manager_def manager_new_def)

subsection \<open>Invariant and stored posts\<close>

text \<open>C4. In every state that a manager reaches, whatever frames its peers send, whatever the local user does and in
  whatever order, the invariant of its store holds, every outbound request is a request message
  stored under its own identifier, and the live requests of each peer are one entry in which no time range
  request has an end time, so answering them cannot hit the panic on an inverted range.\<close>

theorem manager_reachable_inv:
  assumes "manager_reach cr checks mg"
  shows "store_inv cr (mg_store mg) \<and>
     (\<forall>(r, (origin, m)) \<in> set (mg_outbound_requests mg). mh_req_id (m_header m) = r \<and> is_request (m_body m)) \<and>
     distinct (map fst (mg_live_requests mg)) \<and>
     (\<forall>(peer, rs) \<in> set (mg_live_requests mg). \<forall>id opts. LiveChannelTimeRange id opts \<in> set rs \<longrightarrow> opt_time_end opts = 0)"
  using manager_reach_inv [OF assms]
  by (fastforce simp: manager_inv_def outbound_ok_def live_ok_def hm_wf_def list_all_iff)

theorem manager_reachable_inv_witness:
  "store_inv sample_crypto (mg_store (fst (open_channel (channel_options_new [100] 0 0 10)
      (manager_new 7 (store_default (sample_key, replicate 64 1))))))"
  using manager_reachable_inv [OF manager_reach.open_channel [OF manager_reach.start [of sample_crypto True]]]
  by blast


lemma handle_post_bytes_insert:
  assumes "post_verify cr bytes" and "post_from_bytes bytes = Ok (length bytes, p)"
    and "Cable_Post.post_hash cr p = Ok g" and "g \<in> set (mg_requested_posts mg)" and "g \<notin> set (mg_deleted_posts mg)"
    and "insert_post cr p (mg_store mg) = (st, Ok g)"
  shows "handle_post_bytes cr bytes mg =
     (mg\<lparr>mg_requested_posts := hs_remove g (mg_requested_posts mg), mg_store := st\<rparr>, Ok ())"
  using assms
  by (simp add: handle_post_bytes_def m_then_def m_bind_def m_modify_def m_return_def m_lift_def m_get_def on_store_def)

lemma handle_one_post:
  assumes "\<not> is_stale mg peer r" and "handle_post_bytes cr bytes mg = (mg1, Ok ())"
  shows "handle cr checks peer (post_response c r [bytes]) mg =
     (mg1\<lparr>mg_handled_requests := hs_insert r (mg_handled_requests mg1)\<rparr>, Ok ())"
  using assms
  by (simp add: handle_def handle_body_def post_response_def message_new_def message_header_new_def m_then_def
      m_bind_def m_modify_def m_return_def m_get_def)

text \<open>A signed post under the sample scheme, whose hash is its public key there.\<close>

definition sample_signed :: post where
  "sample_signed = set_signature sample_post (take 64 (post_signed_bytes sample_post @ replicate 64 0))"

lemma sample_signed_ok: "post_ok sample_signed" "recognized (p_body sample_signed)"
  by (simp_all add: sample_signed_def post_ok_set_signature sample_post_ok sample_post_recognized)

lemma sample_signed_bytes:
  "post_to_bytes sample_signed = Ok (post_bytes sample_signed)"
  "post_from_bytes (post_bytes sample_signed) = Ok (length (post_bytes sample_signed), sample_signed)"
  "post_verify sample_crypto (post_bytes sample_signed)"
  "Cable_Post.post_hash sample_crypto sample_signed = Ok (replicate 32 1)"
proof -
  show b: "post_to_bytes sample_signed = Ok (post_bytes sample_signed)"
    using sample_signed_ok by (simp add: post_to_bytes_eq post_ok_typed)
  show "post_from_bytes (post_bytes sample_signed) = Ok (length (post_bytes sample_signed), sample_signed)"
    using post_from_bytes_post_bytes [OF sample_signed_ok(1), of "[]"] by simp
  have pk: "ph_public_key (p_header sample_signed) = replicate 32 1"
    by (simp add: sample_signed_def sample_post_def Cable_Post.post_text_def post_new_def post_header_new_def)
  show "post_verify sample_crypto (post_bytes sample_signed)"
    unfolding post_verify_post_bytes [OF post_ok_typed [OF sample_signed_ok(1)]] pk
    by (simp add: sample_signed_def sample_crypto_def)
  show "Cable_Post.post_hash sample_crypto sample_signed = Ok (replicate 32 1)"
    unfolding Cable_Post.post_hash_def b using pk by (simp add: sample_crypto_def post_bytes_def)
qed

lemma sample_signed_insert:
  obtains st' where "insert_post sample_crypto sample_signed st = (st', Ok (replicate 32 1))"
  using insert_post_eq [OF sample_signed_bytes(4,1), of st]
  by (auto simp: sample_signed_def sample_post_def Cable_Post.post_text_def post_new_def)


subsection \<open>Deduplication\<close>



subsection \<open>Requests and responses\<close>

lemma forward_if_ttl_frame:
  assumes "m_body msg = Request ttl body"
  obtains mg1 where "forward_if_ttl checks r ttl msg mg = (mg1, Ok ())" and "mg_peers mg1 = mg_peers mg"
    and "mg_store mg1 = mg_store mg" and "mg_live_requests mg1 = mg_live_requests mg"
  using assms
  by (cases "ttl = 0") (auto simp: forward_if_ttl_def decrement_ttl_and_write_to_outbound_def decrement_ttl_def
      insert_outbound_def m_modify_def m_return_def word_neq_0_conv)

lemma handle_post_request_answer:
  assumes "m_body msg = Request ttl (PostRequest hashes)" and "peer_open mg peer"
    and "\<not> is_stale mg peer (mh_req_id (m_header msg))"
  shows "\<exists>mg'. handle cr checks peer msg mg = (mg', Ok ()) \<and> mg_store mg' = mg_store mg \<and> peer_open mg' peer \<and>
     queued mg' peer = queued mg peer @
       [post_response (mh_circuit_id (m_header msg)) (mh_req_id (m_header msg)) (get_post_payloads (mg_store mg) hashes)]"
proof -
  let ?r = "mh_req_id (m_header msg)" and ?c = "mh_circuit_id (m_header msg)"
  obtain mg1 where f: "forward_if_ttl checks ?r ttl msg mg = (mg1, Ok ())" and frame: "mg_peers mg1 = mg_peers mg" "mg_store mg1 = mg_store mg"
    by (rule forward_if_ttl_frame [OF assms(1)])
  have op: "peer_open mg1 peer" using assms(2) queued_peers [OF frame(1)] by simp
  let ?posts = "get_post_payloads (mg_store mg) hashes"
  obtain ps where s: "send peer (post_response ?c ?r ?posts) mg1 = (mg1\<lparr>mg_peers := ps\<rparr>, Ok ())"
    and q: "\<And>mg'. mg_peers mg' = ps \<Longrightarrow> queued mg' peer = queued mg1 peer @ [post_response ?c ?r ?posts] \<and> peer_open mg' peer"
    by (rule send_open [OF op, of "post_response ?c ?r ?posts"]) auto
  have "handle_body cr checks peer msg mg = (mg1\<lparr>mg_peers := ps\<rparr>, Ok ())"
    using assms(1) f s frame by (simp add: handle_body_def Let_def m_then_def m_bind_def handle_post_request_def m_get_def)
  then show ?thesis
    using q [of "_\<lparr>mg_peers := ps, mg_handled_requests := _\<rparr>"] queued_peers [OF frame(1)] frame(2)
    by (simp add: handle_fresh [OF assms(3)] m_then_def m_bind_def m_modify_def)
qed

lemma get_post_payloads_eq:
  "get_post_payloads st hashes = map the (filter (\<lambda>p. p \<noteq> None) (map (get_post_payload st) hashes))"
  by (simp add: get_post_payloads_def List.map_filter_def get_post_payload_def filter_map comp_def)

text \<open>C17. A post request is answered with exactly the payloads that the store holds, in the order of the requested
  hashes; hashes without a payload are left out, and the store does not change.\<close>

theorem post_request_answered:
  assumes "m_body msg = Request ttl (PostRequest hashes)" and "peer_open mg peer"
    and "\<not> is_stale mg peer (mh_req_id (m_header msg))"
  shows "\<exists>mg'. handle cr checks peer msg mg = (mg', Ok ()) \<and> mg_store mg' = mg_store mg \<and>
     queued mg' peer = queued mg peer @
       [post_response (mh_circuit_id (m_header msg)) (mh_req_id (m_header msg))
          (map the (filter (\<lambda>p. p \<noteq> None) (map (get_post_payload (mg_store mg)) hashes)))]"
  using handle_post_request_answer [OF assms, of cr checks] unfolding get_post_payloads_eq by blast

theorem post_request_answered_witness:
  "\<exists>mg'. handle sample_crypto True 1 (post_request NO_CIRCUIT [1, 2, 3, 4] 1 [replicate 32 7]) sample_manager = (mg', Ok ()) \<and>
     queued mg' 1 = [post_response NO_CIRCUIT [1, 2, 3, 4] []]"
  using post_request_answered [of "post_request NO_CIRCUIT [1, 2, 3, 4] 1 [replicate 32 7]" 1 "[replicate 32 7]" sample_manager 1
      sample_crypto True] sample_manager_open sample_manager_fresh
  by (auto simp: post_request_def message_new_def message_header_new_def sample_manager_def manager_new_def
      get_post_payload_def sample_store_def store_default_def)

text \<open>The identifier that the next request gets.\<close>

definition next_req_id :: "manager \<Rightarrow> req_id" where
  "next_req_id mg = to_be_bytes (if mg_last_req_id mg = - 1 then 0 else mg_last_req_id mg + 1)"

lemma want_eq: "want st hashes = filter (\<lambda>h. get_post_payload st h = None) hashes"
  by (simp add: want_def hm_contains_def get_post_payload_def)

lemma set_fold_hs_insert: "set (fold hs_insert xs ys) = set ys \<union> set xs"
  by (induction xs arbitrary: ys) auto

lemma handle_hash_response_want:
  assumes "m_body msg = Response (HashResponse hashes)" and "peer_open mg peer"
    and "\<not> is_stale mg peer (mh_req_id (m_header msg))" and "want (mg_store mg) hashes \<noteq> []"
  shows "\<exists>mg'. handle cr checks peer msg mg = (mg', Ok ()) \<and> mg_store mg' = mg_store mg \<and> peer_open mg' peer \<and>
     mg_deleted_posts mg' = mg_deleted_posts mg \<and>
     mg_handled_requests mg' = hs_insert (mh_req_id (m_header msg)) (mg_handled_requests mg) \<and>
     queued mg' peer = queued mg peer @
       [post_request (mh_circuit_id (m_header msg)) (next_req_id mg) TTL (want (mg_store mg) hashes)] \<and>
     set (mg_requested_posts mg') = set (mg_requested_posts mg) \<union> set (want (mg_store mg) hashes)"
proof -
  let ?w = "want (mg_store mg) hashes" and ?c = "mh_circuit_id (m_header msg)" and ?r = "next_req_id mg"
  obtain n where n: "new_req_id mg = (mg\<lparr>mg_last_req_id := n\<rparr>, Ok (n, ?r))"
    by (auto simp: new_req_id_def m_return_def next_req_id_def)
  have op: "peer_open (mg\<lparr>mg_last_req_id := n\<rparr>) peer"
    using assms(2) queued_peers [of "mg\<lparr>mg_last_req_id := n\<rparr>" mg] by simp
  obtain ps where s: "send peer (post_request ?c ?r TTL ?w) (mg\<lparr>mg_last_req_id := n\<rparr>) =
      (mg\<lparr>mg_last_req_id := n, mg_peers := ps\<rparr>, Ok ())"
    and q: "\<And>mg'. mg_peers mg' = ps \<Longrightarrow>
      queued mg' peer = queued (mg\<lparr>mg_last_req_id := n\<rparr>) peer @ [post_request ?c ?r TTL ?w] \<and> peer_open mg' peer"
    by (rule send_open [OF op, of "post_request ?c ?r TTL ?w"]) auto
  moreover have "queued (mg\<lparr>mg_last_req_id := n\<rparr>) = queued mg"
    using queued_peers [of "mg\<lparr>mg_last_req_id := n\<rparr>" mg] by simp
  ultimately show ?thesis
    using assms(1,4) q
    by (auto simp: handle_fresh [OF assms(3)] handle_body_def handle_hash_response_def m_then_def m_bind_def
        m_get_def n s m_modify_def Let_def set_fold_hs_insert)
qed

text \<open>C16. A hash response leads to one post request, sent back to the same peer, for exactly the listed hashes that
  the store lacks; these hashes become requested. When nothing is lacking nothing is sent. The store
  does not change.\<close>

theorem hash_response_requests_missing:
  assumes "m_body msg = Response (HashResponse hashes)" and "peer_open mg peer"
    and "\<not> is_stale mg peer (mh_req_id (m_header msg))"
  shows "\<exists>mg'. handle cr checks peer msg mg = (mg', Ok ()) \<and> mg_store mg' = mg_store mg \<and>
     (let wanted = filter (\<lambda>h. get_post_payload (mg_store mg) h = None) hashes
      in if wanted = [] then queued mg' peer = queued mg peer \<and> mg_requested_posts mg' = mg_requested_posts mg
         else (\<exists>r. queued mg' peer = queued mg peer @ [post_request (mh_circuit_id (m_header msg)) r TTL wanted]) \<and>
              set (mg_requested_posts mg') = set (mg_requested_posts mg) \<union> set wanted)"
proof (cases "want (mg_store mg) hashes = []")
  case True
  then show ?thesis
    using assms(1) queued_peers [of "mg\<lparr>mg_handled_requests := _\<rparr>" mg]
    by (simp add: handle_fresh [OF assms(3)] handle_body_def handle_hash_response_def m_modify_def Let_def
        want_eq [symmetric])
next
  case False
  with handle_hash_response_want [OF assms False, of cr checks] show ?thesis
    unfolding want_eq [symmetric] Let_def by auto
qed

theorem hash_response_requests_missing_witness:
  "\<exists>mg' r. handle sample_crypto True 1 (hash_response NO_CIRCUIT [1, 2, 3, 4] [replicate 32 7]) sample_manager = (mg', Ok ()) \<and>
     queued mg' 1 = [post_request NO_CIRCUIT r TTL [replicate 32 7]] \<and> set (mg_requested_posts mg') = {replicate 32 7}"
  using hash_response_requests_missing [of "hash_response NO_CIRCUIT [1, 2, 3, 4] [replicate 32 7]" "[replicate 32 7]" sample_manager 1
      sample_crypto True] sample_manager_open sample_manager_fresh
  by (auto simp: hash_response_def message_new_def message_header_new_def sample_manager_def manager_new_def Let_def
      get_post_payload_def sample_store_def store_default_def)

text \<open>C32. A cancel request ends the cancelled request: it is no longer a live request of that peer, so it gets no more
  hash responses, and it is no longer forwarded. The other live requests of the peer, those of the
  other peers and the store stay. The hop count of the cancel request must be positive, or the build
  must not check overflow.\<close>

theorem cancel_request_cancels:
  assumes "m_body msg = Request ttl (CancelRequest cancel_id)" and "0 < ttl \<or> \<not> checks"
    and "\<not> is_stale mg peer (mh_req_id (m_header msg))"
  shows "\<exists>mg'. handle cr checks peer msg mg = (mg', Ok ()) \<and> \<not> is_live_request mg' peer cancel_id \<and>
     \<not> hm_contains (mg_outbound_requests mg') cancel_id \<and>
     (\<forall>r. r \<noteq> cancel_id \<longrightarrow> is_live_request mg' peer r = is_live_request mg peer r) \<and>
     (\<forall>q r. q \<noteq> peer \<longrightarrow> is_live_request mg' q r = is_live_request mg q r) \<and> mg_store mg' = mg_store mg"
proof -
  let ?r = "mh_req_id (m_header msg)"
  obtain m where "decrement_ttl checks msg = Ok m"
    using assms(1,2) by (auto simp: decrement_ttl_def word_gt_0)
  then show ?thesis
    using assms(1)
    by (auto simp: handle_fresh [OF assms(3)] handle_body_def handle_cancel_request_def m_then_assoc
        decrement_ttl_and_write_to_outbound_def insert_outbound_def remove_live_request_def m_modify_def Let_def
        is_live_request_def hm_contains_def list_ex_iff split: option.splits)
qed

definition sample_live :: manager where
  "sample_live = sample_manager\<lparr>mg_live_requests := [(1, [LiveChannelState [9, 9, 9, 9] [100]])]\<rparr>"

theorem cancel_request_cancels_witness:
  "is_live_request sample_live 1 [9, 9, 9, 9] \<and>
   (\<exists>mg'. handle sample_crypto True 1 (cancel_request NO_CIRCUIT [1, 2, 3, 4] 1 [9, 9, 9, 9]) sample_live = (mg', Ok ()) \<and>
      \<not> is_live_request mg' 1 [9, 9, 9, 9])"
  using cancel_request_cancels [of "cancel_request NO_CIRCUIT [1, 2, 3, 4] 1 [9, 9, 9, 9]" 1 "[9, 9, 9, 9]" True sample_live 1
      sample_crypto]
  by (auto simp: cancel_request_def message_new_def message_header_new_def is_stale_def sample_live_def sample_manager_def
      manager_new_def is_live_request_def)

fun is_cancel :: "request_body \<Rightarrow> bool" where
  "is_cancel (CancelRequest _) \<longleftrightarrow> True"
| "is_cancel _ \<longleftrightarrow> False"

definition outbound_is :: "(req_id, request_origin \<times> message) hashmap \<Rightarrow> manager \<Rightarrow> bool" where
  "outbound_is m mg \<longleftrightarrow> mg_outbound_requests mg = m"

lemma keeps_outbound_handlers:
  "keeps (outbound_is m) (handle_post_request peer c r hashes)"
  "keeps (outbound_is m) (handle_time_range_request peer c r opts)"
  "keeps (outbound_is m) (handle_channel_state_request peer c r ch future)"
  "keeps (outbound_is m) (handle_channel_list_request peer c r skip limit)"
  unfolding handle_post_request_def handle_time_range_request_def handle_channel_state_request_def
    handle_channel_list_request_def add_live_request_def
  by (auto simp: outbound_is_def Let_def intro!: keeps_intros keeps_modify keeps_send keeps_time_range_hashes split: option.split)

lemma forward_then_outbound:
  assumes "keeps (outbound_is m) n" and "forward_if_ttl checks r ttl msg mg = (mg1, Ok ())" and "mg_outbound_requests mg1 = m"
  shows "mg_outbound_requests (fst (m_then (forward_if_ttl checks r ttl msg) n mg)) = m"
  using keepsD [OF assms(1), of mg1] assms(2,3) by (simp add: m_then_def m_bind_def outbound_is_def)

lemma handle_outbound:
  assumes "m_body msg = Request ttl body" and "\<not> is_cancel body" and "\<not> is_stale mg peer (mh_req_id (m_header msg))"
  shows "mg_outbound_requests (fst (handle cr checks peer msg mg)) =
     (if 0 < ttl
      then hm_insert (mh_req_id (m_header msg)) (Remote, msg\<lparr>m_body := Request (ttl - 1) body\<rparr>) (mg_outbound_requests mg)
      else mg_outbound_requests mg)"
proof -
  let ?r = "mh_req_id (m_header msg)"
  let ?m = "if 0 < ttl then hm_insert ?r (Remote, msg\<lparr>m_body := Request (ttl - 1) body\<rparr>) (mg_outbound_requests mg)
      else mg_outbound_requests mg"
  obtain mg1 where f: "forward_if_ttl checks ?r ttl msg mg = (mg1, Ok ())" "mg_outbound_requests mg1 = ?m"
    using assms(1) by (cases "0 < ttl")
      (auto simp: forward_if_ttl_def decrement_ttl_and_write_to_outbound_def decrement_ttl_def insert_outbound_def
        m_modify_def m_return_def word_gt_0)
  have "mg_outbound_requests (fst (handle_body cr checks peer msg mg)) = ?m"
    using assms(1,2) forward_then_outbound [OF keeps_outbound_handlers(1) f] forward_then_outbound [OF keeps_outbound_handlers(2) f]
      forward_then_outbound [OF keeps_outbound_handlers(3) f] forward_then_outbound [OF keeps_outbound_handlers(4) f]
    by (cases body) (simp_all only: handle_body_def Let_def message_body.case request_body.case is_cancel.simps simp_thms)
  then show ?thesis
    unfolding handle_fst [OF assms(3)] by (auto split: prod.split result.split)
qed



lemma process_exhausted:
  assumes "(r, (origin, m)) \<in> set entries" and "m_body m = Request 0 body" and "\<not> is_cancel body"
  shows "snd (m_each (process_outbound_request peer) entries s) \<noteq> Ok ()"
  using assms(1)
proof (induction entries arbitrary: s)
  case (Cons e entries)
  show ?case
  proof (cases "snd (process_outbound_request peer e s)")
    case (Ok u)
    have "e \<noteq> (r, (origin, m))"
    proof
      assume "e = (r, (origin, m))"
      with assms(2,3) Ok show False
        by (cases body) (simp_all add: process_outbound_request_def forward_request_def m_lift_def)
    qed
    with Cons show ?thesis
      by (auto simp: m_then_def m_bind_def split: prod.splits result.splits)
  qed (auto simp: m_then_def m_bind_def split: prod.splits)
qed simp



end
