(* ===== verification/Core_Requests.thy ===== *)
theory Core_Requests
  imports Core_Manager_Props
begin

text \<open>
  The answers to the two requests whose size the remote peer chooses: a channel time range request, with its
  cap of 4096 hashes, and a channel list request, with its window over the known channels.
\<close>

subsection \<open>Time ranges\<close>

lemma collect_hashes_eq:
  "n = 0 \<or> length acc < unat n \<Longrightarrow>
     collect_hashes n acc xs = (if n = 0 then acc @ xs else take (unat n) (acc @ xs))"
proof (induction xs arbitrary: acc)
  case (Cons x xs)
  show ?case
  proof (cases "n \<noteq> 0 \<and> Suc (length acc) \<ge> unat n")
    case True
    with Cons.prems have "unat n = Suc (length acc)" by auto
    with True show ?thesis by simp
  next
    case False
    with Cons.IH [of "acc @ [x]"] show ?thesis by auto
  qed
qed auto

definition time_range_answer :: "u64 \<Rightarrow> hash list \<Rightarrow> hash list" where
  "time_range_answer limit hashes = (if limit = 0 then hashes else take (unat (min limit 4096)) hashes)"

lemma collect_hashes_limit: "collect_hashes (min limit 4096) [] hashes = time_range_answer limit hashes"
proof -
  have "min limit 4096 = 0 \<longleftrightarrow> limit = 0" by (auto simp: min_def)
  moreover have "min limit 4096 = 0 \<or> length ([] :: hash list) < unat (min limit 4096)"
    by (cases "min limit 4096 = 0") (simp_all only: unat_gt_0 list.size simp_thms)
  note collect_hashes_eq [OF this, of hashes]
  ultimately show ?thesis by (simp only: time_range_answer_def append_Nil)
qed

lemma length_time_range_answer: "limit \<noteq> 0 \<Longrightarrow> length (time_range_answer limit hashes) \<le> 4096"
proof -
  have "unat (min limit (4096 :: u64)) \<le> unat (4096 :: u64)" by (simp only: word_le_nat_alt [symmetric] min.cobounded2)
  then show "limit \<noteq> 0 \<Longrightarrow> ?thesis" by (auto simp: time_range_answer_def)
qed

lemma is_live_request_push:
  "is_live_request (mg\<lparr>mg_live_requests := hm_push peer l (mg_live_requests mg)\<rparr>) peer r \<longleftrightarrow>
     live_req_id l = r \<or> is_live_request mg peer r"
  by (auto simp: is_live_request_def hm_push_def split: option.splits)

lemma is_live_request_cong: "mg_live_requests mg = mg_live_requests mg' \<Longrightarrow> is_live_request mg = is_live_request mg'"
  by (simp add: is_live_request_def fun_eq_iff)

text \<open>C18. A time range request is answered with the hashes of the matching posts, in the order of the query: all of them
  when its limit is 0, else the first of them up to the limit and never more than 4096. A request without
  an end time stays live and gets an answer at once only when there is a matching post; one with an end
  time gets exactly one answer and does not become live. The store does not change.\<close>

theorem time_range_request_answered:
  assumes "m_body msg = Request ttl (ChannelTimeRangeRequest ch ts te limit)" and "peer_open mg peer"
    and "\<not> is_stale mg peer (mh_req_id (m_header msg))"
    and "get_post_hashes (mg_store mg) (channel_options_new ch ts te limit) = Ok hashes"
  shows "\<exists>mg'. handle cr checks peer msg mg = (mg', Ok ()) \<and> mg_store mg' = mg_store mg \<and>
     queued mg' peer = queued mg peer @
       (if te = 0 \<and> hashes = [] then []
        else [hash_response (mh_circuit_id (m_header msg)) (mh_req_id (m_header msg)) (time_range_answer limit hashes)]) \<and>
     (limit \<noteq> 0 \<longrightarrow> length (time_range_answer limit hashes) \<le> 4096) \<and>
     (is_live_request mg' peer (mh_req_id (m_header msg)) \<longleftrightarrow>
        te = 0 \<or> is_live_request mg peer (mh_req_id (m_header msg)))"
proof -
  let ?r = "mh_req_id (m_header msg)" and ?c = "mh_circuit_id (m_header msg)" and ?a = "time_range_answer limit hashes"
  define opts where "opts = channel_options_new ch ts te limit"
  obtain mg1 where f: "forward_if_ttl checks ?r ttl msg mg = (mg1, Ok ())"
    and frame: "mg_peers mg1 = mg_peers mg" "mg_store mg1 = mg_store mg" "mg_live_requests mg1 = mg_live_requests mg"
    by (rule forward_if_ttl_frame [OF assms(1)])
  have h: "time_range_hashes opts mg1 = (mg1, Ok ?a)"
    using assms(4) frame(2)
    by (simp add: time_range_hashes_def m_return_def opts_def [symmetric]) (simp add: opts_def channel_options_new_def collect_hashes_limit)
  have te: "opt_time_end opts = te" by (simp add: opts_def channel_options_new_def)
  have e: "?a = [] \<longleftrightarrow> hashes = []"
    by (auto simp: time_range_answer_def min_def unat_eq_zero split: if_splits)
  define mg2 where "mg2 = (if te = 0 then mg1\<lparr>mg_live_requests :=
      hm_push peer (LiveChannelTimeRange ?r opts) (mg_live_requests mg1)\<rparr> else mg1)"
  have m2: "mg_peers mg2 = mg_peers mg" "mg_store mg2 = mg_store mg" by (simp_all add: mg2_def frame)
  have op: "peer_open mg2 peer" using assms(2) queued_peers [OF m2(1)] by simp
  obtain ps where s: "send peer (hash_response ?c ?r ?a) mg2 = (mg2\<lparr>mg_peers := ps\<rparr>, Ok ())"
    and q: "\<And>mg'. mg_peers mg' = ps \<Longrightarrow> queued mg' peer = queued mg2 peer @ [hash_response ?c ?r ?a] \<and> peer_open mg' peer"
    by (rule send_open [OF op, of "hash_response ?c ?r ?a"]) auto
  define ps' where "ps' = (if te = 0 \<and> hashes = [] then mg_peers mg else ps)"
  have "handle_time_range_request peer ?c ?r opts mg1 = (mg2\<lparr>mg_peers := ps'\<rparr>, Ok ())"
    using s e m2(1)
    by (cases "te = 0"; cases "hashes = []")
      (simp_all add: handle_time_range_request_def h m_bind_def Let_def add_live_request_def mg2_def te
        m_return_def m_then_def m_modify_def ps'_def frame)
  then have "handle_body cr checks peer msg mg = (mg2\<lparr>mg_peers := ps'\<rparr>, Ok ())"
    using assms(1) f by (simp add: handle_body_def Let_def m_then_def m_bind_def opts_def)
  moreover have "queued mg' peer = queued mg peer @ (if te = 0 \<and> hashes = [] then [] else [hash_response ?c ?r ?a])"
    if "mg_peers mg' = ps'" for mg'
    using that q [of mg'] queued_peers [OF m2(1)] queued_peers [of mg' mg] by (auto simp: ps'_def)
  moreover have "is_live_request (mg2\<lparr>mg_peers := ps', mg_handled_requests := x\<rparr>) peer ?r \<longleftrightarrow>
      te = 0 \<or> is_live_request mg peer ?r" for x
    using is_live_request_push [of peer "LiveChannelTimeRange ?r opts" mg1 ?r] is_live_request_cong [OF frame(3)]
      is_live_request_cong [of "mg2\<lparr>mg_peers := ps', mg_handled_requests := x\<rparr>" mg2]
    by (simp add: mg2_def)
  ultimately show ?thesis
    using m2(2) length_time_range_answer
    by (simp add: handle_fresh [OF assms(3)] m_then_def m_bind_def m_modify_def)
qed

theorem time_range_request_answered_witness:
  "\<exists>mg'. handle sample_crypto True 1
       (channel_time_range_request NO_CIRCUIT [1, 2, 3, 4] 1 (channel_options_new [100] 0 9 20)) sample_manager = (mg', Ok ()) \<and>
     queued mg' 1 = [hash_response NO_CIRCUIT [1, 2, 3, 4] []] \<and> \<not> is_live_request mg' 1 [1, 2, 3, 4]"
proof -
  have "get_post_hashes (mg_store sample_manager) (channel_options_new [100] 0 9 20) = Ok []"
    by (simp add: sample_manager_def manager_new_def sample_store_def store_default_def get_post_hashes_def
        channel_entries_def channel_options_new_def)
  moreover have "\<not> is_live_request sample_manager 1 [1, 2, 3, 4]"
    by (simp add: sample_manager_def manager_new_def is_live_request_def)
  ultimately show ?thesis
    using time_range_request_answered [of "channel_time_range_request NO_CIRCUIT [1, 2, 3, 4] 1 (channel_options_new [100] 0 9 20)"
        1 "[100]" 0 9 20 sample_manager 1 "[]" sample_crypto True] sample_manager_open sample_manager_fresh
    by (auto simp: channel_time_range_request_def message_new_def message_header_new_def channel_options_new_def
        time_range_answer_def)
qed

subsection \<open>Channel lists\<close>

text \<open>C33. A channel list request with \<open>skip\<close> and \<open>limit\<close> is answered with the known channels from position \<open>skip\<close> up
  to, but without, position \<open>limit\<close> (the number of known channels when the limit is 0 or larger than it). So
  \<open>limit\<close> bounds a position, not the number of channels, and a remote peer that skips past it makes the
  handler panic before it answers.\<close>

theorem channel_list_request_window:
  assumes "m_body msg = Request ttl (ChannelListRequest skip limit)" and "peer_open mg peer"
    and "\<not> is_stale mg peer (mh_req_id (m_header msg))"
  defines "channels \<equiv> st_channels (mg_store mg)"
  defines "stop \<equiv> (if limit = 0 \<or> length channels < unat limit then length channels else unat limit)"
  shows "if channels \<noteq> [] \<and> stop < unat skip
     then snd (handle cr checks peer msg mg) = Panic SliceIndexOutOfRange \<and>
       queued (fst (handle cr checks peer msg mg)) peer = queued mg peer
     else snd (handle cr checks peer msg mg) = Ok () \<and>
       queued (fst (handle cr checks peer msg mg)) peer = queued mg peer @
         [channel_list_response (mh_circuit_id (m_header msg)) (mh_req_id (m_header msg))
            (take (stop - unat skip) (drop (unat skip) channels))]"
proof -
  let ?r = "mh_req_id (m_header msg)" and ?c = "mh_circuit_id (m_header msg)"
  let ?a = "take (stop - unat skip) (drop (unat skip) channels)"
  obtain mg1 where f: "forward_if_ttl checks ?r ttl msg mg = (mg1, Ok ())" and frame: "mg_peers mg1 = mg_peers mg" "mg_store mg1 = mg_store mg"
    by (rule forward_if_ttl_frame [OF assms(1)])
  have op: "peer_open mg1 peer" using assms(2) queued_peers [OF frame(1)] by simp
  have u: "(if unat limit = 0 \<or> length channels < unat limit then length channels else unat limit) = stop"
    by (auto simp: stop_def unat_eq_zero)
  have body: "handle_body cr checks peer msg mg = handle_channel_list_request peer ?c ?r skip limit mg1"
    using assms(1) f by (simp add: handle_body_def Let_def m_then_def m_bind_def)
  have lc: "list_channels (unat skip) (unat limit) channels =
      (if stop < unat skip then Panic SliceIndexOutOfRange else Ok ?a)"
    using u by (auto simp: list_channels_def Let_def)
  show ?thesis
  proof (cases "channels \<noteq> [] \<and> stop < unat skip")
    case True
    then have "handle_body cr checks peer msg mg = (mg1, Panic SliceIndexOutOfRange)"
      using lc by (simp add: body handle_channel_list_request_def get_channels_def frame m_bind_def m_get_def m_lift_def
          channels_def)
    then show ?thesis
      using True queued_peers [OF frame(1)] by (simp add: handle_fresh [OF assms(3)] m_then_def m_bind_def)
  next
    case False
    obtain ps where s: "send peer (channel_list_response ?c ?r ?a) mg1 = (mg1\<lparr>mg_peers := ps\<rparr>, Ok ())"
      and q: "\<And>mg'. mg_peers mg' = ps \<Longrightarrow> queued mg' peer = queued mg1 peer @ [channel_list_response ?c ?r ?a] \<and> peer_open mg' peer"
      by (rule send_open [OF op, of "channel_list_response ?c ?r ?a"]) auto
    have "handle_body cr checks peer msg mg = (mg1\<lparr>mg_peers := ps\<rparr>, Ok ())"
      using False lc s
      by (cases "channels = []")
        (simp_all add: body handle_channel_list_request_def get_channels_def frame m_bind_def m_get_def m_lift_def
          m_return_def channels_def)
    then show ?thesis
      using False q queued_peers [OF frame(1)] by (simp add: handle_fresh [OF assms(3)] m_then_def m_bind_def m_modify_def)
  qed
qed

definition sample_channels :: manager where
  "sample_channels = sample_manager\<lparr>mg_store := (mg_store sample_manager)\<lparr>st_channels := [[97], [98], [99]]\<rparr>\<rparr>"

theorem channel_list_request_window_witness:
  "queued (fst (handle sample_crypto True 1 (channel_list_request NO_CIRCUIT [1, 2, 3, 4] 1 1 2) sample_channels)) 1 =
     [channel_list_response NO_CIRCUIT [1, 2, 3, 4] [[98]]] \<and>
   snd (handle sample_crypto True 1 (channel_list_request NO_CIRCUIT [1, 2, 3, 4] 1 2 1) sample_channels) =
     Panic SliceIndexOutOfRange"
proof -
  have o: "peer_open sample_channels 1" "queued sample_channels 1 = []" "\<not> is_stale sample_channels 1 [1, 2, 3, 4]"
    "st_channels (mg_store sample_channels) = [[97], [98], [99]]"
    by (simp_all add: sample_channels_def sample_manager_def manager_new_def peer_open_def queued_def is_stale_def)
  show ?thesis
    using channel_list_request_window [of "channel_list_request NO_CIRCUIT [1, 2, 3, 4] 1 1 2" 1 1 2 sample_channels 1 sample_crypto True]
      channel_list_request_window [of "channel_list_request NO_CIRCUIT [1, 2, 3, 4] 1 2 1" 1 2 1 sample_channels 1 sample_crypto True] o
    by (simp add: channel_list_request_def message_new_def message_header_new_def)
qed

end
