(* ===== verification/Length_Prefixed.thy ===== *)
theory Length_Prefixed
  imports Rust_State Desert_Varint
begin

text \<open>
  \<^verbatim>\<open>length_prefixed_stream/src\<close>: the decoder that cuts the bytes of a connection into messages, each behind
  a varint with its length. \<^verbatim>\<open>Decoder::next\<close> reads into a buffer of \<^verbatim>\<open>max_size\<close> bytes, of which the first
  \<^verbatim>\<open>write_offset\<close> are received and the others are left over from earlier messages, returns one message
  and keeps the other complete ones in a queue.

  The connection is any \<^verbatim>\<open>AsyncRead\<close>: the list of the pieces it will deliver, in order. A read returns the
  next piece, or as much of it as the destination holds; a read at the end, or into an empty destination,
  returns 0 bytes; a failing read is a piece of its own. \<^verbatim>\<open>unfold\<close> makes the decoder a stream.

  The theorems (\<^verbatim>\<open>Length_Prefixed_Props\<close>): no byte of the connection is lost, repeated or reordered, however the reads cut it; the
  messages come out exactly when no read ends within a length prefix that it leaves at the start of the
  buffer; and a read that does end there makes the decoder read a length from left-over bytes.
\<close>

subsection \<open>The connection\<close>

datatype piece = Data "u8 list" | ReadFails

primrec piece_bytes :: "piece \<Rightarrow> u8 list" where
  "piece_bytes (Data bs) = bs"
| "piece_bytes ReadFails = []"

fun io_read :: "nat \<Rightarrow> piece list \<Rightarrow> piece list \<times> (u8 list) res" where
  "io_read cap [] = ([], Ok [])"
| "io_read cap (ReadFails # rest) = (rest, Err IoError)"
| "io_read cap (Data bs # rest) =
     (if cap = 0 then (Data bs # rest, Ok [])
      else if length bs \<le> cap then (rest, Ok bs)
      else (Data (drop cap bs) # rest, Ok (take cap bs)))"

subsection \<open>The decoder\<close>

record decode_options =
  max_size :: nat
  include_len :: bool

definition default_options :: decode_options where
  "default_options = \<lparr>max_size = 50000, include_len = False\<rparr>"

record decoder =
  dc_input :: "piece list"
  dc_buffer :: "u8 list"
  dc_queue :: "u8 list list"
  dc_write_offset :: nat
  dc_options :: decode_options

definition decoder_new :: "piece list \<Rightarrow> decode_options \<Rightarrow> decoder" where
  "decoder_new input options =
     \<lparr>dc_input = input, dc_buffer = replicate (max_size options) 0, dc_queue = [], dc_write_offset = 0,
      dc_options = options\<rparr>"

text \<open>\<^verbatim>\<open>let n = self.input.read(&mut self.buffer[self.write_offset..]).await?; self.write_offset += n;\<close> The
  source adds \<open>n\<close> only behind its check that \<open>n\<close> is not 0.\<close>

definition decoder_read :: "(decoder, nat) action" where
  "decoder_read d =
     (let off = dc_write_offset d; buf = dc_buffer d
      in if off > length buf then (d, Panic SliceIndexOutOfRange)
         else case io_read (length buf - off) (dc_input d) of
                (input', Ok bs) \<Rightarrow>
                  (d\<lparr>dc_input := input', dc_buffer := take off buf @ bs @ drop (off + length bs) buf,
                     dc_write_offset := off + length bs\<rparr>, Ok (length bs))
              | (input', Err e) \<Rightarrow> (d\<lparr>dc_input := input'\<rparr>, Err e)
              | (input', Panic p) \<Rightarrow> (d\<lparr>dc_input := input'\<rparr>, Panic p))"

lemma io_read_bounds:
  "io_read cap inp = (inp', Ok bs) \<Longrightarrow> length bs \<le> cap \<and> concat (map piece_bytes inp) = bs @ concat (map piece_bytes inp')"
  by (induction cap inp rule: io_read.induct) (auto split: if_splits)

lemma decoder_read_Ok:
  assumes "decoder_read d = (d', Ok n)"
  shows "dc_write_offset d' = dc_write_offset d + n" and "dc_write_offset d' \<le> length (dc_buffer d')"
    and "length (dc_buffer d') = length (dc_buffer d)" and "dc_queue d' = dc_queue d" and "dc_options d' = dc_options d"
    and "take (dc_write_offset d') (dc_buffer d') @ concat (map piece_bytes (dc_input d')) =
         take (dc_write_offset d) (dc_buffer d) @ concat (map piece_bytes (dc_input d))"
proof -
  from assms obtain input' bs where off: "dc_write_offset d \<le> length (dc_buffer d)"
    and r: "io_read (length (dc_buffer d) - dc_write_offset d) (dc_input d) = (input', Ok bs)" and n: "n = length bs"
    and d': "d' = d\<lparr>dc_input := input',
      dc_buffer := take (dc_write_offset d) (dc_buffer d) @ bs @ drop (dc_write_offset d + length bs) (dc_buffer d),
      dc_write_offset := dc_write_offset d + length bs\<rparr>"
    by (auto simp: decoder_read_def Let_def split: if_splits prod.splits result.splits)
  from io_read_bounds [OF r] off
  show "dc_write_offset d' = dc_write_offset d + n" and "dc_write_offset d' \<le> length (dc_buffer d')"
    and "length (dc_buffer d') = length (dc_buffer d)" and "dc_queue d' = dc_queue d" and "dc_options d' = dc_options d"
    and "take (dc_write_offset d') (dc_buffer d') @ concat (map piece_bytes (dc_input d')) =
         take (dc_write_offset d) (dc_buffer d) @ concat (map piece_bytes (dc_input d))"
    by (auto simp: d' n)
qed

lemma decoder_read_less:
  assumes "decoder_read d = (d', Ok n)" and "n \<noteq> 0"
  shows "length (dc_buffer d') - dc_write_offset d' < length (dc_buffer d) - dc_write_offset d"
  using decoder_read_Ok [OF assms(1)] assms(2) by linarith

text \<open>The first loop of \<^verbatim>\<open>next\<close>: read until a length can be decoded. \<^verbatim>\<open>None\<close> is the end of the connection. The varint is
  decoded from the whole buffer, the bytes behind \<^verbatim>\<open>write_offset\<close> included.\<close>

function prefix_loop :: "(decoder, (nat \<times> nat) option) action" where
  "prefix_loop d =
     (case decoder_read d of
        (d', Ok n) \<Rightarrow>
          if n = 0 \<and> dc_write_offset d = 0 then (d', Ok None)
          else if n = 0 then (d', raise_decode UnexpectedEndVarint)
          else (case varint_decode (dc_buffer d') of
                  Ok (s, len) \<Rightarrow> (d', Ok (Some (s, unat len)))
                | Err e \<Rightarrow> if dc_write_offset d' \<ge> 10 then (d', Err e) else prefix_loop d'
                | Panic p \<Rightarrow> (d', Panic p))
      | (d', Err e) \<Rightarrow> (d', Err e)
      | (d', Panic p) \<Rightarrow> (d', Panic p))"
  by pat_completeness auto
termination
  by (relation "measure (\<lambda>d. length (dc_buffer d) - dc_write_offset d)") (auto dest: decoder_read_less [OF sym])

declare prefix_loop.simps [simp del]

text \<open>The second loop: read until the whole message is in the buffer.\<close>

function body_loop :: "nat \<Rightarrow> nat \<Rightarrow> (decoder, unit) action" where
  "body_loop msg_len read_offset d =
     (if msg_len = 0 then (d, Ok ())
      else if msg_len + read_offset > dc_write_offset d
      then (case decoder_read d of
              (d', Ok n) \<Rightarrow>
                if n = 0 then (d', raise_decode UnexpectedEndMessage) else body_loop msg_len read_offset d'
            | (d', Err e) \<Rightarrow> (d', Err e)
            | (d', Panic p) \<Rightarrow> (d', Panic p))
      else (d, Ok ()))"
  by pat_completeness auto
termination
  by (relation "measure (\<lambda>(_, _, d). length (dc_buffer d) - dc_write_offset d)")
    (auto dest: decoder_read_less [OF sym])

declare body_loop.simps [simp del]

text \<open>The message that starts at \<open>offset\<close> with a length of \<open>vlen\<close> bytes, with or without the length.\<close>

definition cut_message :: "decoder \<Rightarrow> nat \<Rightarrow> nat \<Rightarrow> nat \<Rightarrow> (u8 list) res" where
  "cut_message d offset vlen msg_len =
     (if include_len (dc_options d) then slice (dc_buffer d) offset (offset + vlen + msg_len)
      else slice (dc_buffer d) (offset + vlen) (offset + vlen + msg_len))"

text \<open>The third loop: queue the other complete messages of the buffer. It returns the offset behind them.\<close>

function queue_loop :: "nat \<Rightarrow> (decoder, nat) action" where
  "queue_loop offset d =
     (case slice_from (dc_buffer d) offset of
        Ok rest \<Rightarrow>
          (case varint_decode rest of
             Ok (vlen, len) \<Rightarrow>
               (let msg_len = unat len
                in if msg_len = 0 \<or> offset + vlen + msg_len > dc_write_offset d then (d, Ok offset)
                   else (case cut_message d offset vlen msg_len of
                           Ok qbuf \<Rightarrow> queue_loop (offset + vlen + msg_len) (d\<lparr>dc_queue := dc_queue d @ [qbuf]\<rparr>)
                         | Err e \<Rightarrow> (d, Err e)
                         | Panic p \<Rightarrow> (d, Panic p)))
           | _ \<Rightarrow> (d, Ok offset))
      | Err e \<Rightarrow> (d, Err e)
      | Panic p \<Rightarrow> (d, Panic p))"
  by pat_completeness auto
termination
  by (relation "measure (\<lambda>(offset, d). dc_write_offset d - offset)") auto

declare queue_loop.simps [simp del]

text \<open>\<^verbatim>\<open>self.buffer.copy_within(offset.., 0); self.write_offset -= offset;\<close> The subtraction is on \<^verbatim>\<open>usize\<close>.\<close>

definition shift_buffer :: "bool \<Rightarrow> nat \<Rightarrow> (decoder, unit) action" where
  "shift_buffer checks offset d =
     (let buf = dc_buffer d; off = dc_write_offset d
      in if offset > length buf then (d, Panic SliceIndexOutOfRange)
         else let d' = d\<lparr>dc_buffer := drop offset buf @ drop (length buf - offset) buf\<rparr>
              in if offset \<le> off then (d'\<lparr>dc_write_offset := off - offset\<rparr>, Ok ())
                 else if checks then (d', Panic ArithmeticOverflow)
                 else (d'\<lparr>dc_write_offset := 2 ^ 64 + off - offset\<rparr>, Ok ()))"

definition decoder_next :: "bool \<Rightarrow> (decoder, (u8 list) option) action" where
  "decoder_next checks d =
     (case dc_queue d of
        buf # queue \<Rightarrow> (d\<lparr>dc_queue := queue\<rparr>, Ok (Some buf))
      | [] \<Rightarrow>
          m_bind prefix_loop (\<lambda>found.
            case found of
              None \<Rightarrow> m_return None
            | Some (read_offset, msg_len) \<Rightarrow>
                m_then (body_loop msg_len read_offset)
               (m_bind (\<lambda>d. (d, cut_message d 0 read_offset msg_len)) (\<lambda>buf.
                m_bind (queue_loop (read_offset + msg_len)) (\<lambda>offset.
                m_then (shift_buffer checks offset)
                       (m_return (Some buf)))))) d)"

subsection \<open>The stream\<close>

text \<open>\<^verbatim>\<open>unfold\<close> keeps the state in an option, which it takes for the time of a step. A step that ends the stream does
  not put it back, and polling again then unwraps the missing future. A poll that returns \<^verbatim>\<open>Pending\<close> changes
  nothing but the waker, so a poll here is one that runs to completion.\<close>

definition unfold_poll :: "('s \<Rightarrow> (('i \<times> 's) option) res) \<Rightarrow> 's option \<Rightarrow> 's option \<times> 'i option res" where
  "unfold_poll f state =
     (case state of
        Some s \<Rightarrow>
          (case f s of
             Ok (Some (item, next_state)) \<Rightarrow> (Some next_state, Ok (Some item))
           | Ok None \<Rightarrow> (None, Ok None)
           | Err e \<Rightarrow> (None, Err e)
           | Panic p \<Rightarrow> (None, Panic p))
      | None \<Rightarrow> (None, Panic UnwrapNone))"

definition decoder_step :: "bool \<Rightarrow> decoder \<Rightarrow> (((u8 list) res \<times> decoder) option) res" where
  "decoder_step checks d =
     (case decoder_next checks d of
        (d', Ok (Some x)) \<Rightarrow> Ok (Some (Ok x, d'))
      | (d', Ok None) \<Rightarrow> Ok None
      | (d', Err e) \<Rightarrow> Ok (Some (Err e, d'))
      | (d', Panic p) \<Rightarrow> Panic p)"

definition decode_with_options :: "piece list \<Rightarrow> decode_options \<Rightarrow> decoder option" where
  "decode_with_options input options = Some (decoder_new input options)"

definition decode :: "piece list \<Rightarrow> decoder option" where
  "decode input = decode_with_options input default_options"

text \<open>The first \<open>k\<close> items that the consumer of the stream polls; it stops polling at the end of the stream.\<close>

primrec poll_items :: "nat \<Rightarrow> bool \<Rightarrow> decoder option \<Rightarrow> (u8 list) res list" where
  "poll_items 0 checks st = []"
| "poll_items (Suc k) checks st =
     (case unfold_poll (decoder_step checks) st of
        (st', Ok (Some item)) \<Rightarrow> item # poll_items k checks st'
      | (st', Ok None) \<Rightarrow> []
      | (st', Err e) \<Rightarrow> [Err e]
      | (st', Panic p) \<Rightarrow> [Panic p])"

subsection \<open>No byte is lost\<close>

definition pending :: "decoder \<Rightarrow> u8 list" where
  "pending d = take (dc_write_offset d) (dc_buffer d) @ concat (map piece_bytes (dc_input d))"

definition unread :: "decoder \<Rightarrow> u8 list" where
  "unread d = concat (dc_queue d) @ pending d"

definition decoder_ok :: "decoder \<Rightarrow> bool" where
  "decoder_ok d \<longleftrightarrow> dc_write_offset d \<le> length (dc_buffer d)"

text \<open>What the reading loops leave alone.\<close>

definition same_frame :: "decoder \<Rightarrow> decoder \<Rightarrow> bool" where
  "same_frame d d' \<longleftrightarrow>
     length (dc_buffer d') = length (dc_buffer d) \<and> dc_queue d' = dc_queue d \<and> dc_options d' = dc_options d \<and>
     pending d' = pending d \<and> dc_write_offset d \<le> dc_write_offset d'"

lemma same_frame_trans: "same_frame d1 d2 \<Longrightarrow> same_frame d2 d3 \<Longrightarrow> same_frame d1 d3"
  by (auto simp: same_frame_def)

lemma decoder_read_frame: "decoder_read d = (d', Ok n) \<Longrightarrow> same_frame d d' \<and> decoder_ok d'"
  using decoder_read_Ok [of d d' n] by (auto simp: same_frame_def decoder_ok_def pending_def)

lemma prefix_loop_Ok:
  "prefix_loop d = (d', Ok (Some (s, len))) \<Longrightarrow> same_frame d d' \<and> decoder_ok d'"
proof (induction d rule: prefix_loop.induct)
  case (1 d)
  from 1(2) obtain d1 n where rd: "decoder_read d = (d1, Ok n)" "n \<noteq> 0" and
    "(\<exists>r. varint_decode (dc_buffer d1) = Ok r) \<and> d' = d1 \<or>
     (\<exists>e. varint_decode (dc_buffer d1) = Err e) \<and> \<not> 10 \<le> dc_write_offset d1 \<and>
       prefix_loop d1 = (d', Ok (Some (s, len)))"
    by (subst (asm) prefix_loop.simps) (auto split: prod.splits result.splits if_splits simp: raise_decode_def)
  then show ?case
    using decoder_read_frame [OF rd(1)] 1(1) [OF rd(1) [symmetric] refl] rd(2)
    by (auto dest: same_frame_trans)
qed

lemma body_loop_Ok:
  "body_loop msg_len ro d = (d', Ok ()) \<Longrightarrow> decoder_ok d \<Longrightarrow>
     same_frame d d' \<and> decoder_ok d' \<and> (msg_len \<noteq> 0 \<longrightarrow> ro + msg_len \<le> dc_write_offset d')"
proof (induction msg_len ro d rule: body_loop.induct)
  case (1 msg_len ro d)
  show ?case
  proof (cases "msg_len \<noteq> 0 \<and> msg_len + ro > dc_write_offset d")
    case True
    with 1(2) obtain d1 n where rd: "decoder_read d = (d1, Ok n)" "n \<noteq> 0" and "body_loop msg_len ro d1 = (d', Ok ())"
      by (subst (asm) body_loop.simps) (auto split: prod.splits result.splits if_splits simp: raise_decode_def)
    then show ?thesis
      using decoder_read_frame [OF rd(1)] 1(1) [OF _ _ rd(1) [symmetric] refl] rd(2) True
      by (auto dest: same_frame_trans)
  next
    case False
    with 1(2) have "d' = d" by (subst (asm) body_loop.simps) (auto split: if_splits)
    with False 1(3) show ?thesis by (auto simp: same_frame_def)
  qed
qed

lemma queue_loop_Ok:
  "queue_loop off d = (d', Ok off') \<Longrightarrow> include_len (dc_options d) \<Longrightarrow> decoder_ok d \<Longrightarrow>
     \<exists>qs. d' = d\<lparr>dc_queue := dc_queue d @ qs\<rparr> \<and> off \<le> off' \<and> (off' = off \<or> off' \<le> dc_write_offset d) \<and>
       concat qs = take (off' - off) (drop off (dc_buffer d))"
proof (induction off d rule: queue_loop.induct)
  case (1 off d)
  show ?case
  proof (cases "d' = d \<and> off' = off")
    case True
    then show ?thesis by (intro exI [of _ "[]"]) simp
  next
    case False
    with 1(2) obtain vlen len qbuf where off: "slice_from (dc_buffer d) off = (Ok (drop off (dc_buffer d)) :: (u8 list) res)"
      and v: "varint_decode (drop off (dc_buffer d)) = Ok (vlen, len)"
      and le: "\<not> (unat len = 0 \<or> off + vlen + unat len > dc_write_offset d)"
      and q: "cut_message d off vlen (unat len) = Ok qbuf"
      and r: "queue_loop (off + vlen + unat len) (d\<lparr>dc_queue := dc_queue d @ [qbuf]\<rparr>) = (d', Ok off')"
      by (subst (asm) queue_loop.simps)
        (auto split: result.splits if_splits simp: Let_def slice_from_def)
    have "decoder_ok (d\<lparr>dc_queue := dc_queue d @ [qbuf]\<rparr>)" using 1(4) by (simp add: decoder_ok_def)
    with 1(1) [OF off v refl refl le q r] 1(3) obtain qs where
      qs: "d' = d\<lparr>dc_queue := dc_queue d @ qbuf # qs\<rparr>" "off + vlen + unat len \<le> off'"
        "off' = off + vlen + unat len \<or> off' \<le> dc_write_offset d"
        "concat qs = take (off' - (off + vlen + unat len)) (drop (off + vlen + unat len) (dc_buffer d))"
      by auto
    moreover have "qbuf = take (vlen + unat len) (drop off (dc_buffer d))"
      using q 1(3) by (auto simp: cut_message_def slice_eq_Ok add.assoc)
    moreover have "take (off' - off) (drop off (dc_buffer d)) =
        take (vlen + unat len) (drop off (dc_buffer d)) @
        take (off' - (off + vlen + unat len)) (drop (off + vlen + unat len) (dc_buffer d))"
      using take_between [of off "off + vlen + unat len" off' "dc_buffer d"] qs(2) by (simp add: add.assoc)
    ultimately show ?thesis
      using le by (intro exI [of _ "qbuf # qs"]) (auto simp: ac_simps)
  qed
qed

lemma shift_buffer_Ok:
  assumes "shift_buffer checks off d = (d', Ok ())" and "decoder_ok d" and "off \<le> dc_write_offset d"
  shows "dc_queue d' = dc_queue d \<and> dc_options d' = dc_options d \<and> dc_input d' = dc_input d \<and>
     length (dc_buffer d') = length (dc_buffer d) \<and> dc_write_offset d' = dc_write_offset d - off \<and>
     take (dc_write_offset d') (dc_buffer d') = drop off (take (dc_write_offset d) (dc_buffer d))"
  using assms by (auto simp: shift_buffer_def decoder_ok_def Let_def drop_take split: if_splits)

lemma decoder_next_conserves:
  assumes "decoder_next True d = (d', Ok (Some x))" and "include_len (dc_options d)" and "decoder_ok d"
  shows "unread d = x @ unread d' \<and> include_len (dc_options d') \<and> decoder_ok d'"
proof (cases "dc_queue d")
  case Nil
  with assms(1) obtain d1 s len d2 d3 off where p: "prefix_loop d = (d1, Ok (Some (s, len)))"
    and b: "body_loop len s d1 = (d2, Ok ())" and c: "cut_message d2 0 s len = Ok x"
    and q: "queue_loop (s + len) d2 = (d3, Ok off)" and sh: "shift_buffer True off d3 = (d', Ok ())"
    by (auto simp: decoder_next_def m_then_def m_bind_eq_Ok m_return_def split: option.splits prod.splits)
  from prefix_loop_Ok [OF p] have 1: "same_frame d d1" "decoder_ok d1" by auto
  from body_loop_Ok [OF b 1(2)] 1(1) have 2: "same_frame d d2" "decoder_ok d2"
    by (auto intro: same_frame_trans)
  then have opt: "include_len (dc_options d2)" using assms(2) by (simp add: same_frame_def)
  from queue_loop_Ok [OF q opt 2(2)] obtain qs where d3: "d3 = d2\<lparr>dc_queue := dc_queue d2 @ qs\<rparr>"
    and off: "s + len \<le> off" "off = s + len \<or> off \<le> dc_write_offset d2"
    and qs: "concat qs = take (off - (s + len)) (drop (s + len) (dc_buffer d2))"
    by auto
  have "off \<le> dc_write_offset d2"
    using sh by (auto simp: shift_buffer_def d3 Let_def split: if_splits)
  then have le: "off \<le> dc_write_offset d3" and ok: "decoder_ok d3" using 2(2) by (simp_all add: d3 decoder_ok_def)
  note sh' = shift_buffer_Ok [OF sh ok le]
  have "x = take (s + len) (dc_buffer d2)"
    using c opt by (auto simp: cut_message_def slice_eq_Ok)
  then have "x @ concat qs = take off (take (dc_write_offset d2) (dc_buffer d2))"
    using qs off(1) \<open>off \<le> dc_write_offset d2\<close> by (simp add: take_add [symmetric] min_absorb2)
  then have "x @ concat qs @ drop off (take (dc_write_offset d2) (dc_buffer d2)) = take (dc_write_offset d2) (dc_buffer d2)"
    by (metis append.assoc append_take_drop_id)
  moreover have "unread d' = concat qs @ drop off (take (dc_write_offset d2) (dc_buffer d2)) @ concat (map piece_bytes (dc_input d2))"
    using sh' 2(1) Nil by (auto simp: unread_def pending_def d3 same_frame_def)
  ultimately have "x @ unread d' = pending d2"
    by (metis append.assoc pending_def)
  then show ?thesis
    using 2(1) Nil sh' opt ok by (auto simp: unread_def same_frame_def d3 decoder_ok_def)
next
  case (Cons a list)
  with assms show ?thesis by (auto simp: decoder_next_def unread_def pending_def decoder_ok_def)
qed

lemma poll_items_conserve:
  assumes "poll_items k True (Some d) = map Ok xs @ rest" and "include_len (dc_options d)" and "decoder_ok d"
  shows "\<exists>ys. unread d = concat xs @ ys"
  using assms
proof (induction k arbitrary: d xs)
  case (Suc k)
  show ?case
  proof (cases xs)
    case (Cons x xs')
    with Suc.prems(1) obtain d' where "decoder_next True d = (d', Ok (Some x))"
      and "poll_items k True (Some d') = map Ok xs' @ rest"
      by (auto simp: unfold_poll_def decoder_step_def split: prod.splits result.splits option.splits)
    with decoder_next_conserves [OF this(1) Suc.prems(2,3)] Suc.IH [of d' xs'] Cons show ?thesis by auto
  qed simp
qed simp

end
