(* ===== verification/Length_Prefixed_Props.thy ===== *)
theory Length_Prefixed_Props
  imports Length_Prefixed
begin

text \<open>
  The properties of the length-prefixed decoder: how a connection that carries a sequence of messages is
  cut into these messages again.
\<close>

subsection \<open>Messages on a connection\<close>

definition len_bytes :: "u8 list \<Rightarrow> u8 list" where
  "len_bytes b = varint_bytes (of_nat (length b))"

definition framed :: "u8 list \<Rightarrow> u8 list" where
  "framed b = len_bytes b @ b"

definition item_of :: "decode_options \<Rightarrow> u8 list \<Rightarrow> u8 list" where
  "item_of options b = (if include_len options then framed b else b)"

text \<open>Whether the position \<open>n\<close> in the sequence of messages is outside of every length prefix.\<close>

fun cut_ok :: "u8 list list \<Rightarrow> nat \<Rightarrow> bool" where
  "cut_ok [] n \<longleftrightarrow> True"
| "cut_ok (b # bs) n \<longleftrightarrow>
     n = 0 \<or> length (len_bytes b) \<le> n \<and> (n < length (framed b) \<or> cut_ok bs (n - length (framed b)))"

definition frame_fits :: "nat \<Rightarrow> u8 list \<Rightarrow> bool" where
  "frame_fits space b \<longleftrightarrow> b \<noteq> [] \<and> length b < 2 ^ 56 \<and> length (framed b) \<le> space"

lemma cut_ok_drop: "cut_ok (qs @ bs) (length (concat (map framed qs)) + n) \<Longrightarrow> cut_ok bs n"
  by (induction qs) (auto simp: framed_def len_bytes_def)

lemma cut_ok_small: "\<forall>b \<in> set bs. length b < 128 \<Longrightarrow> cut_ok bs n"
proof (induction bs arbitrary: n)
  case (Cons b bs)
  then have "unat (of_nat (length b) :: u64) < 128" by (simp add: unat_of_nat_u64)
  then have "length (len_bytes b) = 1"
    using length_varint_bytes_le [of "of_nat (length b)" 1] length_varint_bytes_pos [of "of_nat (length b)"]
    by (simp add: len_bytes_def le_antisym Suc_le_eq)
  with Cons show ?case by auto
qed simp

lemma varint_decode_framed:
  assumes "length b < 2 ^ 56"
  shows "varint_decode (len_bytes b @ rest) = Ok (length (len_bytes b), of_nat (length b))"
    and "unat (of_nat (length b) :: u64) = length b"
proof -
  show *: "unat (of_nat (length b) :: u64) = length b"
    using assms by (simp add: unat_of_nat_u64)
  show "varint_decode (len_bytes b @ rest) = Ok (length (len_bytes b), of_nat (length b))"
    unfolding len_bytes_def by (rule varint_decode_bytes_56) (use * assms in simp)
qed

text \<open>A length of which only a part was received: whatever follows, decoding it uses bytes beyond that part.\<close>

lemma varint_decode_partial:
  assumes "length b < 2 ^ 56" and "len_bytes b = w @ w'" and "w' \<noteq> []" and "varint_decode (w @ rest) = Ok (s, v)"
  shows "length w < s"
proof (rule ccontr)
  assume "\<not> length w < s"
  with varint_decode_local [OF assms(4), of "len_bytes b @ []"] assms(2)
  have "varint_decode (len_bytes b @ []) = Ok (s, v)" by simp
  with varint_decode_framed(1) [OF assms(1), of "[]"] have "s = length (len_bytes b)" by simp
  with \<open>\<not> length w < s\<close> assms(2,3) show False by simp
qed

subsection \<open>The decoder within such a connection\<close>

definition carries :: "decoder \<Rightarrow> u8 list list \<Rightarrow> bool" where
  "carries d bs \<longleftrightarrow>
     decoder_ok d \<and> pending d = concat (map framed bs) \<and> (\<forall>b \<in> set bs. frame_fits (length (dc_buffer d)) b) \<and>
     (\<exists>ps. dc_input d = map Data ps \<and> [] \<notin> set ps \<and>
        (\<forall>i < length ps. cut_ok bs (dc_write_offset d + length (concat (take (Suc i) ps)))))"

lemma decoder_read_carries:
  assumes "carries d bs" and "dc_write_offset d < length (dc_buffer d)" and "dc_write_offset d < length (pending d)"
  obtains d' n where "decoder_read d = (d', Ok n)" and "0 < n" and "carries d' bs"
    and "dc_write_offset d' = length (dc_buffer d') \<or> cut_ok bs (dc_write_offset d')"
proof -
  let ?cap = "length (dc_buffer d) - dc_write_offset d"
  from assms(1) obtain ps where ps: "dc_input d = map Data ps" "[] \<notin> set ps"
    "\<forall>i < length ps. cut_ok bs (dc_write_offset d + length (concat (take (Suc i) ps)))"
    by (auto simp: carries_def)
  from assms(1) have ok: "decoder_ok d" by (simp add: carries_def)
  have "ps \<noteq> []" using assms(3) ps(1) ok by (auto simp: pending_def decoder_ok_def)
  then obtain p rest where p: "ps = p # rest" by (cases ps) auto
  let ?ps' = "if length p \<le> ?cap then rest else drop ?cap p # rest"
  obtain d' n where rd: "decoder_read d = (d', Ok n)" and n: "n = min ?cap (length p)" and inp: "dc_input d' = map Data ?ps'"
    using assms(2) ps(1) p by (cases "length p \<le> ?cap") (auto simp: decoder_read_def Let_def min_def)
  note facts = decoder_read_Ok [OF rd]
  have "0 < n" using n p ps(2) assms(2) by (cases p) auto
  moreover have cuts: "\<forall>i < length ?ps'. cut_ok bs (dc_write_offset d' + length (concat (take (Suc i) ?ps')))"
  proof (intro allI impI)
    fix i assume i: "i < length ?ps'"
    show "cut_ok bs (dc_write_offset d' + length (concat (take (Suc i) ?ps')))"
    proof (cases "length p \<le> ?cap")
      case True
      with i p ps(3) [rule_format, of "Suc i"] facts(1) n show ?thesis by (simp add: add.assoc)
    next
      case False
      with i p ps(3) [rule_format, of i] facts(1) n show ?thesis by (simp add: add.assoc)
    qed
  qed
  have "[] \<notin> set ?ps'" using ps(2) p by auto
  with cuts inp have "\<exists>ps. dc_input d' = map Data ps \<and> [] \<notin> set ps \<and>
      (\<forall>i < length ps. cut_ok bs (dc_write_offset d' + length (concat (take (Suc i) ps))))"
    by (intro exI [of _ ?ps'] conjI)
  then have "carries d' bs"
    using assms(1) decoder_read_frame [OF rd] unfolding carries_def same_frame_def by simp
  moreover have "dc_write_offset d' = length (dc_buffer d') \<or> cut_ok bs (dc_write_offset d')"
  proof (cases "length p \<le> ?cap")
    case True
    with ps(3) p facts(1) n show ?thesis by auto
  next
    case False
    with facts(1,3) n assms(2) show ?thesis by simp
  qed
  ultimately show thesis using that [OF rd] by blast
qed

text \<open>The first loop finds the length after one read: the read ends behind the length prefix, or the buffer is full and
  so holds the whole message.\<close>

lemma pending_split:
  assumes "carries d (b # bs)"
  shows "pending d = framed b @ concat (map framed bs)" and "length b < 2 ^ 56" and "b \<noteq> []"
    and "length (framed b) \<le> length (dc_buffer d)" and "length (framed b) = length (len_bytes b) + length b"
  using assms by (auto simp: carries_def frame_fits_def framed_def)

lemma received_prefix:
  assumes "carries d (b # bs)" and "n \<le> dc_write_offset d" and "n \<le> length (framed b)"
  shows "take n (dc_buffer d) = take n (framed b)"
proof -
  have "take n (pending d) = take n (framed b)"
    using pending_split(1) [OF assms(1)] assms(3) by simp
  moreover have "dc_write_offset d \<le> length (dc_buffer d)"
    using assms(1) by (simp add: carries_def decoder_ok_def)
  then have "take n (pending d) = take n (dc_buffer d)"
    using assms(2) by (simp add: pending_def)
  ultimately show ?thesis by simp
qed

lemma prefix_loop_carries:
  assumes "carries d (b # bs)" and "dc_write_offset d < length (framed b)"
  obtains d' where "prefix_loop d = (d', Ok (Some (length (len_bytes b), length b)))" and "carries d' (b # bs)"
    and "same_frame d d'"
proof -
  note b = pending_split [OF assms(1)]
  from b assms(2) have w: "dc_write_offset d < length (dc_buffer d)" "dc_write_offset d < length (pending d)" by auto
  from decoder_read_carries [OF assms(1) w] obtain d' n where rd: "decoder_read d = (d', Ok n)" and n: "0 < n"
    and c: "carries d' (b # bs)" and cut: "dc_write_offset d' = length (dc_buffer d') \<or> cut_ok (b # bs) (dc_write_offset d')"
    by blast
  have "length (len_bytes b) \<le> dc_write_offset d'"
    using cut pending_split(4,5) [OF c] decoder_read_Ok(1) [OF rd] n by auto
  then have "take (length (len_bytes b)) (dc_buffer d') = len_bytes b"
    using received_prefix [OF c] by (simp add: framed_def)
  then have "dc_buffer d' = len_bytes b @ drop (length (len_bytes b)) (dc_buffer d')"
    by (metis append_take_drop_id)
  then have "varint_decode (dc_buffer d') = Ok (length (len_bytes b), of_nat (length b))"
    using varint_decode_framed(1) [OF b(2)] by metis
  then have "prefix_loop d = (d', Ok (Some (length (len_bytes b), length b)))"
    using rd n varint_decode_framed(2) [OF b(2)] by (subst prefix_loop.simps) simp
  with c decoder_read_frame [OF rd] that show thesis by blast
qed

lemma body_loop_carries:
  assumes "carries d (b # bs)"
  shows "\<exists>d'. body_loop (length b) (length (len_bytes b)) d = (d', Ok ()) \<and> carries d' (b # bs) \<and> same_frame d d' \<and>
     length (framed b) \<le> dc_write_offset d'"
  using assms
proof (induction "length (dc_buffer d) - dc_write_offset d" arbitrary: d rule: less_induct)
  case less
  note b = pending_split [OF less.prems]
  show ?case
  proof (cases "length b + length (len_bytes b) > dc_write_offset d")
    case True
    with b have w: "dc_write_offset d < length (dc_buffer d)" "dc_write_offset d < length (pending d)" by auto
    from decoder_read_carries [OF less.prems w] obtain d1 n where rd: "decoder_read d = (d1, Ok n)" and n: "0 < n"
      and c: "carries d1 (b # bs)"
      by blast
    from less.hyps [OF decoder_read_less [OF rd] c] n obtain d' where
      "body_loop (length b) (length (len_bytes b)) d1 = (d', Ok ())" "carries d' (b # bs)" "same_frame d1 d'"
      "length (framed b) \<le> dc_write_offset d'"
      by auto
    moreover have "body_loop (length b) (length (len_bytes b)) d = body_loop (length b) (length (len_bytes b)) d1"
      using True rd n b(3) by (subst body_loop.simps) simp
    ultimately show ?thesis using decoder_read_frame [OF rd] same_frame_trans [of d d1] by auto
  next
    case False
    then show ?thesis
      using less.prems b by (subst body_loop.simps) (auto simp: same_frame_def)
  qed
qed

lemma queue_loop_stop:
  assumes "off \<le> length (dc_buffer d)"
    and "\<And>s len. varint_decode (drop off (dc_buffer d)) = Ok (s, len) \<Longrightarrow> dc_write_offset d < off + s + unat len"
  shows "queue_loop off d = (d, Ok off)"
  using assms varint_decode_no_panic [of "drop off (dc_buffer d)"]
  by (subst queue_loop.simps) (auto simp: slice_from_def Let_def split: result.splits prod.splits)

lemma queue_loop_step:
  assumes "drop off (dc_buffer d) = framed b @ rest" and "off + length (framed b) \<le> dc_write_offset d"
    and "decoder_ok d" and "b \<noteq> []" and "length b < 2 ^ 56"
  shows "queue_loop off d = queue_loop (off + length (framed b)) (d\<lparr>dc_queue := dc_queue d @ [item_of (dc_options d) b]\<rparr>)"
proof -
  have "off \<le> length (dc_buffer d)" using assms(2,3) by (simp add: decoder_ok_def)
  moreover have "varint_decode (drop off (dc_buffer d)) = Ok (length (len_bytes b), of_nat (length b))"
    unfolding assms(1) framed_def append.assoc by (rule varint_decode_framed(1) [OF assms(5)])
  moreover have "cut_message d off (length (len_bytes b)) (length b) = Ok (item_of (dc_options d) b)"
  proof -
    have "drop (length (len_bytes b)) (drop off (dc_buffer d)) = b @ rest"
      unfolding assms(1) framed_def by simp
    then have "drop (off + length (len_bytes b)) (dc_buffer d) = b @ rest"
      by (simp add: add.commute)
    then show ?thesis
      using assms(1,2,3) by (auto simp: cut_message_def slice_eq_Ok item_of_def framed_def decoder_ok_def)
  qed
  ultimately show ?thesis
    using assms(2,4) varint_decode_framed(2) [OF assms(5)]
    by (subst queue_loop.simps) (simp add: slice_from_def framed_def Let_def add.assoc)
qed

lemma queue_loop_incomplete:
  assumes "decoder_ok d" and "off \<le> dc_write_offset d" and "length b < 2 ^ 56"
    and "framed b = drop off (take (dc_write_offset d) (dc_buffer d)) @ w'" and "w' \<noteq> []"
  shows "queue_loop off d = (d, Ok off)"
proof (rule queue_loop_stop)
  let ?w = "drop off (take (dc_write_offset d) (dc_buffer d))"
  have len: "length ?w = dc_write_offset d - off" using assms(1) by (simp add: decoder_ok_def)
  show "off \<le> length (dc_buffer d)" using assms(1,2) by (simp add: decoder_ok_def)
  fix s v
  assume v: "varint_decode (drop off (dc_buffer d)) = Ok (s, v)"
  have split: "drop off (dc_buffer d) = ?w @ drop (dc_write_offset d) (dc_buffer d)"
    by (rule drop_between [OF assms(2)])
  show "dc_write_offset d < off + s + unat v"
  proof (cases "length (len_bytes b) \<le> length ?w")
    case True
    then have "?w = len_bytes b @ drop (length (len_bytes b)) ?w"
      using append_split_le(1) [of "len_bytes b" b ?w w'] assms(4) by (simp add: framed_def)
    then have "varint_decode (drop off (dc_buffer d)) = Ok (length (len_bytes b), of_nat (length b))"
      unfolding split using varint_decode_framed(1) [OF assms(3)] by (metis append.assoc)
    then have "s = length (len_bytes b)" "unat v = length b" using v varint_decode_framed(2) [OF assms(3)] by auto
    moreover have "length ?w < length (framed b)" using assms(4,5) by simp
    ultimately show ?thesis using assms(2) len by (simp add: framed_def)
  next
    case False
    then have "len_bytes b = ?w @ drop (length ?w) (len_bytes b)"
      using append_split_le(1) [of ?w w' "len_bytes b" b] assms(4) by (simp add: framed_def)
    moreover have "drop (length ?w) (len_bytes b) \<noteq> []" using False by simp
    ultimately have "length ?w < s"
      using varint_decode_partial [OF assms(3)] v unfolding split by blast
    then show ?thesis using len by linarith
  qed
qed

lemma queue_loop_carries:
  assumes "decoder_ok d" and "off \<le> dc_write_offset d" and "\<forall>b \<in> set bs. b \<noteq> [] \<and> length b < 2 ^ 56"
    and "drop off (take (dc_write_offset d) (dc_buffer d)) @ rest = concat (map framed bs)"
  shows "\<exists>qs bs' off'. bs = qs @ bs' \<and> off' = off + length (concat (map framed qs)) \<and> off' \<le> dc_write_offset d \<and>
     queue_loop off d = (d\<lparr>dc_queue := dc_queue d @ map (item_of (dc_options d)) qs\<rparr>, Ok off') \<and>
     (bs' \<noteq> [] \<longrightarrow> dc_write_offset d < off' + length (framed (hd bs')))"
  using assms
proof (induction bs arbitrary: off d)
  case Nil
  then have "off = dc_write_offset d" by (auto simp: decoder_ok_def)
  then have "queue_loop off d = (d, Ok off)"
    using Nil.prems(1) by (intro queue_loop_stop) (auto simp: decoder_ok_def dest: varint_decode_bounds(1))
  then show ?case using Nil.prems(2) by (intro exI [of _ "[]"]) simp
next
  case (Cons b bs)
  let ?w = "drop off (take (dc_write_offset d) (dc_buffer d))"
  have len: "length ?w = dc_write_offset d - off" using Cons.prems(1) by (simp add: decoder_ok_def)
  have b: "b \<noteq> []" "length b < 2 ^ 56" using Cons.prems(3) by auto
  show ?case
  proof (cases "off + length (framed b) \<le> dc_write_offset d")
    case True
    then have le: "length (framed b) \<le> length ?w" using len by linarith
    note w = append_split_le [of "framed b" "concat (map framed bs)" ?w rest]
    have "drop off (dc_buffer d) = framed b @ drop (length (framed b)) ?w @ drop (dc_write_offset d) (dc_buffer d)"
    proof -
      have "?w = framed b @ drop (length (framed b)) ?w" using w(1) Cons.prems(4) le by simp
      with drop_between [OF Cons.prems(2), of "dc_buffer d"] show ?thesis by (metis append.assoc)
    qed
    note step = queue_loop_step [OF this True Cons.prems(1) b]
    let ?d = "d\<lparr>dc_queue := dc_queue d @ [item_of (dc_options d) b]\<rparr>"
    have "drop (off + length (framed b)) (take (dc_write_offset d) (dc_buffer d)) @ rest = concat (map framed bs)"
      using Cons.prems(4) w(2) le by (simp add: add.commute)
    with Cons.IH [of ?d "off + length (framed b)"] Cons.prems(1,3) True obtain qs bs' off' where
      "bs = qs @ bs'" "off' = off + length (framed b) + length (concat (map framed qs))" "off' \<le> dc_write_offset d"
      "queue_loop (off + length (framed b)) ?d =
        (d\<lparr>dc_queue := dc_queue d @ item_of (dc_options d) b # map (item_of (dc_options d)) qs\<rparr>, Ok off')"
      "bs' \<noteq> [] \<longrightarrow> dc_write_offset d < off' + length (framed (hd bs'))"
      by (auto simp: decoder_ok_def)
    with step show ?thesis by (intro exI [of _ "b # qs"] exI [of _ bs'] exI [of _ off']) simp
  next
    case False
    then have "length ?w < length (framed b)" using len Cons.prems(2) by linarith
    then have "framed b = ?w @ drop (length ?w) (framed b)"
      using append_split_le(1) [of ?w rest "framed b" "concat (map framed bs)"] Cons.prems(4) by simp
    moreover have "drop (length ?w) (framed b) \<noteq> []" using \<open>length ?w < length (framed b)\<close> by simp
    ultimately have "queue_loop off d = (d, Ok off)"
      using queue_loop_incomplete [OF Cons.prems(1,2) b(2)] by blast
    then show ?thesis using False Cons.prems(2) by (intro exI [of _ "[]"] exI [of _ "b # bs"] exI [of _ off]) simp
  qed
qed

lemma shift_carries:
  assumes "carries d (qs @ bs)" and "off = length (concat (map framed qs))" and "off \<le> dc_write_offset d"
  obtains d' where "shift_buffer checks off d = (d', Ok ())" and "carries d' bs" and "dc_queue d' = dc_queue d"
    and "dc_options d' = dc_options d" and "dc_write_offset d' = dc_write_offset d - off"
proof -
  have ok: "decoder_ok d" using assms(1) by (simp add: carries_def)
  then obtain d' where sh: "shift_buffer checks off d = (d', Ok ())"
    using assms(3) by (auto simp: shift_buffer_def decoder_ok_def Let_def)
  note f = shift_buffer_Ok [OF sh ok assms(3)]
  from assms(1) obtain ps where ps: "dc_input d = map Data ps" "[] \<notin> set ps"
    "\<forall>i < length ps. cut_ok (qs @ bs) (dc_write_offset d + length (concat (take (Suc i) ps)))"
    by (auto simp: carries_def)
  have "cut_ok bs (dc_write_offset d' + length (concat (take (Suc i) ps)))" if "i < length ps" for i
  proof (rule cut_ok_drop)
    have "length (concat (map framed qs)) + (dc_write_offset d' + n) = dc_write_offset d + n" for n
      using f assms(2,3) by simp
    then show "cut_ok (qs @ bs) (length (concat (map framed qs)) + (dc_write_offset d' + length (concat (take (Suc i) ps))))"
      using ps(3) that by (metis (no_types))
  qed
  moreover have "pending d' = concat (map framed bs)"
  proof -
    have "pending d = concat (map framed qs) @ concat (map framed bs)"
      using assms(1) by (simp add: carries_def)
    moreover have "pending d' = drop off (pending d)"
      using f assms(3) ok by (auto simp: pending_def decoder_ok_def)
    ultimately show ?thesis by (simp add: assms(2))
  qed
  ultimately have "carries d' bs"
    using assms(1) f ps by (auto simp: carries_def decoder_ok_def)
  with sh f that show thesis by blast
qed

text \<open>One call of \<^verbatim>\<open>next\<close> with an empty queue: it returns the first message and queues some that follow it.\<close>

lemma decoder_next_carries:
  assumes "carries d (b # bs)" and "dc_queue d = []" and "dc_write_offset d < length (framed b)"
  obtains d' qs bs' where "decoder_next checks d = (d', Ok (Some (item_of (dc_options d) b)))" and "bs = qs @ bs'"
    and "dc_queue d' = map (item_of (dc_options d)) qs" and "carries d' bs'" and "dc_options d' = dc_options d"
    and "bs' \<noteq> [] \<longrightarrow> dc_write_offset d' < length (framed (hd bs'))"
proof -
  obtain d1 where p: "prefix_loop d = (d1, Ok (Some (length (len_bytes b), length b)))" and c1: "carries d1 (b # bs)"
    and f1: "same_frame d d1"
    by (rule prefix_loop_carries [OF assms(1,3)])
  from body_loop_carries [OF c1] obtain d2 where bl: "body_loop (length b) (length (len_bytes b)) d1 = (d2, Ok ())"
    and c2: "carries d2 (b # bs)" and f2: "same_frame d1 d2" and le: "length (framed b) \<le> dc_write_offset d2"
    by auto
  have ok: "decoder_ok d2" using c2 by (simp add: carries_def)
  have buf: "take (length (framed b)) (dc_buffer d2) = framed b"
    using received_prefix [OF c2 le] by simp
  have cm: "cut_message d2 0 (length (len_bytes b)) (length b) = Ok (item_of (dc_options d) b)"
    using buf f1 f2 ok le
    by (auto simp: cut_message_def slice_eq_Ok item_of_def framed_def same_frame_def decoder_ok_def take_add)
  have "drop (length (framed b)) (take (dc_write_offset d2) (dc_buffer d2)) @ concat (map piece_bytes (dc_input d2)) =
      drop (length (framed b)) (pending d2)"
    using le ok by (simp add: pending_def decoder_ok_def)
  also have "\<dots> = concat (map framed bs)" using pending_split(1) [OF c2] by simp
  finally have rest: "drop (length (framed b)) (take (dc_write_offset d2) (dc_buffer d2)) @ concat (map piece_bytes (dc_input d2)) =
      concat (map framed bs)" .
  have "\<forall>b \<in> set bs. b \<noteq> [] \<and> length b < 2 ^ 56" using c2 by (auto simp: carries_def frame_fits_def)
  from queue_loop_carries [OF ok le this rest] obtain qs bs' off' where bs: "bs = qs @ bs'"
    and off: "off' = length (framed b) + length (concat (map framed qs))" "off' \<le> dc_write_offset d2"
    and q: "queue_loop (length (framed b)) d2 = (d2\<lparr>dc_queue := dc_queue d2 @ map (item_of (dc_options d2)) qs\<rparr>, Ok off')"
    and hd: "bs' \<noteq> [] \<longrightarrow> dc_write_offset d2 < off' + length (framed (hd bs'))"
    by blast
  let ?d3 = "d2\<lparr>dc_queue := dc_queue d2 @ map (item_of (dc_options d2)) qs\<rparr>"
  have "carries ?d3 ((b # qs) @ bs')" using c2 bs by (simp add: carries_def decoder_ok_def pending_def)
  moreover have "off' = length (concat (map framed (b # qs)))" using off(1) by simp
  moreover have "off' \<le> dc_write_offset ?d3" using off(2) by simp
  ultimately obtain d' where sh: "shift_buffer checks off' ?d3 = (d', Ok ())" and c: "carries d' bs'"
    and f: "dc_queue d' = dc_queue ?d3" "dc_options d' = dc_options ?d3" "dc_write_offset d' = dc_write_offset ?d3 - off'"
    by (rule shift_carries)
  have "decoder_next checks d = (d', Ok (Some (item_of (dc_options d) b)))"
    using assms(2) p bl cm q sh by (simp add: decoder_next_def m_bind_def m_then_def m_return_def framed_def)
  moreover have "dc_queue d' = map (item_of (dc_options d)) qs" "dc_options d' = dc_options d"
    using f f1 f2 assms(2) by (simp_all add: same_frame_def)
  moreover have "bs' \<noteq> [] \<longrightarrow> dc_write_offset d' < length (framed (hd bs'))" using hd f(3) off(2) by auto
  ultimately show thesis using that bs c by blast
qed

lemma poll_items_Some:
  "decoder_next checks d = (d', Ok (Some x)) \<Longrightarrow>
     poll_items (Suc k) checks (Some d) = Ok x # poll_items k checks (Some d')"
  by (simp add: unfold_poll_def decoder_step_def)

lemma poll_items_queue:
  "dc_queue d = qs \<Longrightarrow>
     poll_items (length qs + k) checks (Some d) = map Ok qs @ poll_items k checks (Some (d\<lparr>dc_queue := []\<rparr>))"
proof (induction qs arbitrary: d)
  case Nil
  then have "d\<lparr>dc_queue := []\<rparr> = d" by (cases d) simp
  then show ?case by simp
next
  case (Cons q qs)
  have "decoder_next checks d = (d\<lparr>dc_queue := qs\<rparr>, Ok (Some q))"
    using Cons.prems by (simp add: decoder_next_def)
  with Cons.IH [of "d\<lparr>dc_queue := qs\<rparr>"] show ?case by (simp add: unfold_poll_def decoder_step_def)
qed

lemma decoder_next_end:
  assumes "carries d []" and "dc_queue d = []"
  shows "poll_items (Suc k) checks (Some d) = []"
proof -
  from assms(1) obtain ps where ps: "dc_input d = map Data ps" "[] \<notin> set ps" and "pending d = []" and "decoder_ok d"
    by (auto simp: carries_def)
  then have "ps = []" and "dc_write_offset d = 0"
    by (cases ps; auto simp: pending_def decoder_ok_def)+
  with ps(1) have "decoder_read d = (d, Ok 0)" by (simp add: decoder_read_def)
  then have "prefix_loop d = (d, Ok None)"
    using \<open>dc_write_offset d = 0\<close> by (subst prefix_loop.simps) simp
  with assms(2) show ?thesis
    by (simp add: unfold_poll_def decoder_step_def decoder_next_def m_bind_def m_return_def)
qed

lemma poll_items_carries:
  assumes "carries d bs" and "dc_queue d = []" and "bs \<noteq> [] \<longrightarrow> dc_write_offset d < length (framed (hd bs))"
  shows "poll_items (Suc (length bs)) checks (Some d) = map (\<lambda>b. Ok (item_of (dc_options d) b)) bs"
  using assms
proof (induction "length bs" arbitrary: d bs rule: less_induct)
  case less
  show ?case
  proof (cases bs)
    case Nil
    then show ?thesis using decoder_next_end [of d 0 checks] less.prems by simp
  next
    case (Cons b bs1)
    have "carries d (b # bs1)" and "dc_write_offset d < length (framed b)"
      using less.prems(1,3) Cons by simp_all
    then obtain d' qs bs' where
      nx: "decoder_next checks d = (d', Ok (Some (item_of (dc_options d) b)))" and bs1: "bs1 = qs @ bs'"
      and q: "dc_queue d' = map (item_of (dc_options d)) qs" and c: "carries d' bs'" and opt: "dc_options d' = dc_options d"
      and hd: "bs' \<noteq> [] \<longrightarrow> dc_write_offset d' < length (framed (hd bs'))"
      using decoder_next_carries [OF _ less.prems(2), of b bs1 checks thesis] by blast
    have "carries (d'\<lparr>dc_queue := []\<rparr>) bs'" using c by (simp add: carries_def decoder_ok_def pending_def)
    with less.hyps [of bs' "d'\<lparr>dc_queue := []\<rparr>"] Cons bs1 hd opt
    have "poll_items (Suc (length bs')) checks (Some (d'\<lparr>dc_queue := []\<rparr>)) = map (\<lambda>b. Ok (item_of (dc_options d) b)) bs'"
      by simp
    then show ?thesis
      using poll_items_Some [OF nx, of "length qs + Suc (length bs')"] poll_items_queue [OF q, of "Suc (length bs')"] Cons bs1
      by simp
  qed
qed

lemma decode_frames:
  assumes "concat ps = concat (map framed bs)" and "[] \<notin> set ps"
    and "\<forall>b \<in> set bs. frame_fits (max_size options) b"
    and "\<forall>i < length ps. cut_ok bs (length (concat (take (Suc i) ps)))"
  shows "poll_items (Suc (length bs)) checks (decode_with_options (map Data ps) options) =
     map (\<lambda>b. Ok (item_of options b)) bs"
proof -
  let ?d = "decoder_new (map Data ps) options"
  have "map piece_bytes (map Data ps) = ps" by (induction ps) auto
  then have "carries ?d bs"
    using assms by (auto simp: carries_def decoder_new_def decoder_ok_def pending_def)
  moreover have "dc_queue ?d = []" and "bs \<noteq> [] \<longrightarrow> dc_write_offset ?d < length (framed (hd bs))"
    and "dc_options ?d = options"
    by (simp_all add: decoder_new_def framed_def len_bytes_def)
  ultimately show ?thesis
    unfolding decode_with_options_def using poll_items_carries [of ?d bs checks] by (simp del: poll_items.simps)
qed

subsection \<open>A length that arrives in two pieces\<close>

lemma queue_loop_total:
  "off \<le> dc_write_offset d \<Longrightarrow> decoder_ok d \<Longrightarrow>
     \<exists>qs off'. queue_loop off d = (d\<lparr>dc_queue := dc_queue d @ qs\<rparr>, Ok off') \<and> off' \<le> dc_write_offset d"
proof (induction "dc_write_offset d - off" arbitrary: off d rule: less_induct)
  case less
  have sl: "slice_from (dc_buffer d) off = (Ok (drop off (dc_buffer d)) :: (u8 list) res)"
    using less.prems by (simp add: slice_from_def decoder_ok_def)
  show ?case
  proof (cases "\<exists>s v. varint_decode (drop off (dc_buffer d)) = Ok (s, v) \<and> unat v \<noteq> 0 \<and> off + s + unat v \<le> dc_write_offset d")
    case True
    then obtain s v where v: "varint_decode (drop off (dc_buffer d)) = Ok (s, v)" "unat v \<noteq> 0" "off + s + unat v \<le> dc_write_offset d"
      by auto
    then have "\<exists>q. cut_message d off s (unat v) = Ok q"
      using less.prems(2) by (simp add: cut_message_def slice_eq_Ok decoder_ok_def)
    then obtain q where q: "cut_message d off s (unat v) = Ok q" ..
    let ?d = "d\<lparr>dc_queue := dc_queue d @ [q]\<rparr>"
    have "queue_loop off d = queue_loop (off + s + unat v) ?d"
      using sl v q by (subst queue_loop.simps) (simp add: Let_def)
    moreover have "\<exists>qs off'. queue_loop (off + s + unat v) ?d = (?d\<lparr>dc_queue := dc_queue ?d @ qs\<rparr>, Ok off') \<and>
        off' \<le> dc_write_offset ?d"
      using less.prems(2) v by (intro less.hyps) (auto simp: decoder_ok_def)
    then obtain qs off' where
      "queue_loop (off + s + unat v) ?d = (d\<lparr>dc_queue := dc_queue d @ q # qs\<rparr>, Ok off')" "off' \<le> dc_write_offset d"
      by auto
    ultimately show ?thesis by (intro exI [of _ "q # qs"] exI [of _ off']) simp
  next
    case False
    then have "queue_loop off d = (d, Ok off)"
      using sl varint_decode_no_panic [of "drop off (dc_buffer d)"]
      by (subst queue_loop.simps) (auto simp: Let_def not_le split: result.splits prod.splits)
    with less.prems(1) show ?thesis by (intro exI [of _ "[]"]) simp
  qed
qed

lemma len_bytes_two:
  assumes "128 \<le> length b" and "length b < 16384"
  shows "len_bytes b = [ucast (of_nat (length b) :: u64) OR 128, ucast (drop_bit 7 (of_nat (length b) :: u64))]"
proof -
  let ?v = "of_nat (length b) :: u64"
  have v: "unat ?v = length b" using assms by (intro unat_of_nat_u64) simp
  have "127 < ?v" using assms(1) v by (simp add: word_less_nat_alt)
  moreover have "drop_bit 7 ?v \<le> 127" using assms(2) by (simp add: word_le_nat_alt unat_drop_bit_7 v)
  ultimately show ?thesis unfolding len_bytes_def by (subst varint_bytes_big) auto
qed

text \<open>The first byte of the length, followed by a zero of the buffer instead of its second byte.\<close>

lemma varint_decode_stale:
  "varint_decode ((ucast v OR 128) # 0 # zs) = Ok (2, take_bit 7 v)"
proof -
  have "varint_decode_loop (Suc (Suc i)) ((ucast v OR 128) # 0 # zs) 0 1 0 = Ok (2, take_bit 7 v)" for i
    by (simp add: or_128_and_127 or_128_and_128 ucast_low_7 Let_def)
  from this [of 6] show ?thesis by (simp add: varint_decode_def)
qed

subsection \<open>Properties\<close>

text \<open>C20. Framing. A connection that carries non-empty messages behind their varint lengths, each of at most
  \<^verbatim>\<open>max_size\<close> bytes with its length, comes out of the stream as exactly these messages, in order, and then the
  stream ends; this holds for every way in which the reads cut the connection into pieces, as long as no
  piece ends within a length prefix.\<close>

theorem decode_frames_exact:
  assumes "concat ps = concat (map framed bs)" and "[] \<notin> set ps"
    and "\<forall>b \<in> set bs. frame_fits (max_size options) b"
    and "\<forall>i < length ps. cut_ok bs (length (concat (take (Suc i) ps)))"
  shows "poll_items (Suc (length bs)) checks (decode_with_options (map Data ps) options) =
     map (\<lambda>b. Ok (item_of options b)) bs"
  using assms by (rule decode_frames)

theorem decode_frames_exact_witness:
  "poll_items 3 True (decode_with_options (map Data [[6, 97, 98], [99, 100, 101, 102, 4], [65, 66, 67, 68]])
     \<lparr>max_size = 40, include_len = True\<rparr>) = [Ok [6, 97, 98, 99, 100, 101, 102], Ok [4, 65, 66, 67, 68]]"
proof -
  let ?bs = "[[97, 98, 99, 100, 101, 102], [65, 66, 67, 68]] :: u8 list list"
  have l: "len_bytes [97, 98, 99, 100, 101, 102] = [6]" "len_bytes [65, 66, 67, 68] = [4]"
    by (simp_all add: len_bytes_def varint_bytes.simps)
  have "poll_items (Suc (length ?bs)) True (decode_with_options (map Data [[6, 97, 98], [99, 100, 101, 102, 4], [65, 66, 67, 68]])
      \<lparr>max_size = 40, include_len = True\<rparr>) = map (\<lambda>b. Ok (item_of \<lparr>max_size = 40, include_len = True\<rparr> b)) ?bs"
  proof (rule decode_frames_exact)
    show "\<forall>i < length [[6, 97, 98], [99, 100, 101, 102, 4], [65, 66, 67, 68 :: u8]].
        cut_ok ?bs (length (concat (take (Suc i) [[6, 97, 98], [99, 100, 101, 102, 4], [65, 66, 67, 68]])))"
      by (intro allI impI cut_ok_small) simp
  qed (use l in \<open>simp_all add: framed_def frame_fits_def\<close>)
  then show ?thesis
    using l by (simp add: item_of_def framed_def numeral_3_eq_3 del: poll_items.simps)
qed



text \<open>C26. A length prefix that arrives in two reads is misread. The decoder looks for the length in the whole buffer,
  not only in the received part. So when the first read ends after the first of the two bytes of a length,
  the second byte is taken from the zeros of the new buffer, and a message of up to 16383 bytes is cut off
  after as many bytes as the low seven bits of its length say; a read that delivers the same bytes
  together gives the whole message.\<close>

theorem split_prefix_misread:
  assumes "128 \<le> length b" and "length b < 16384" and "length b mod 128 \<noteq> 0" and "length b + 2 \<le> max_size options"
    and "\<not> include_len options"
  shows "\<exists>h t. framed b = h # t \<and>
     poll_items 1 checks (decode_with_options [Data [h], Data t] options) = [Ok (take (length b mod 128) b)] \<and>
     poll_items 2 checks (decode_with_options [Data (h # t)] options) = [Ok b]"
proof -
  let ?v = "of_nat (length b) :: u64" and ?r = "length b mod 128" and ?n = "max_size options"
  define h where "h = (ucast ?v OR 128 :: u8)"
  define t where "t = (ucast (drop_bit 7 ?v) :: u8) # b"
  have fr: "framed b = h # t" by (simp add: framed_def len_bytes_two [OF assms(1,2)] h_def t_def)
  have v: "unat (take_bit 7 ?v) = ?r"
    using assms(2) by (simp add: take_bit_eq_mod unat_mod unat_of_nat_u64)
  have lt: "length t = length b + 1" by (simp add: t_def)
  let ?d = "decoder_new [Data [h], Data t] options"
  let ?d1 = "?d\<lparr>dc_input := [Data t], dc_buffer := h # replicate (?n - 1) 0, dc_write_offset := 1\<rparr>"
  let ?d2 = "?d\<lparr>dc_input := [], dc_buffer := h # t @ replicate (?n - length t - 1) 0, dc_write_offset := length t + 1\<rparr>"
  have "replicate (?n - 1) (0 :: u8) = 0 # replicate (?n - 2) 0"
    using assms(1,4) by (cases ?n; cases "?n - 1") auto
  then have "varint_decode (h # replicate (?n - 1) 0) = Ok (2, take_bit 7 ?v)"
    using varint_decode_stale [of ?v] by (simp add: h_def)
  moreover have r1: "decoder_read ?d = (?d1, Ok 1)"
    using assms(1,4) by (auto simp: decoder_read_def decoder_new_def Let_def)
  ultimately have p: "prefix_loop ?d = (?d1, Ok (Some (2, ?r)))"
    using v by (subst prefix_loop.simps) simp
  have r2: "decoder_read ?d1 = (?d2, Ok (length t))"
    using assms(1,4) lt by (auto simp: decoder_read_def decoder_new_def Let_def)
  have le: "?r + 2 \<le> length t + 1" using lt mod_less_eq_dividend [of "length b" 128] by linarith
  then have "body_loop ?r 2 ?d2 = (?d2, Ok ())" by (subst body_loop.simps) simp
  then have bl: "body_loop ?r 2 ?d1 = (?d2, Ok ())"
    using r2 assms(3) lt by (subst body_loop.simps) simp
  have cm: "cut_message ?d2 0 2 ?r = Ok (take ?r b)"
    using assms(4,5) lt le by (simp add: cut_message_def decoder_new_def slice_eq_Ok t_def)
  have ok: "decoder_ok ?d2" using lt by (simp add: decoder_ok_def)
  then obtain qs off where q: "queue_loop (2 + ?r) ?d2 = (?d2\<lparr>dc_queue := dc_queue ?d2 @ qs\<rparr>, Ok off)" "off \<le> length t + 1"
    using queue_loop_total [of "2 + ?r" ?d2] le by auto
  then obtain d' where sh: "shift_buffer checks off (?d2\<lparr>dc_queue := dc_queue ?d2 @ qs\<rparr>) = (d', Ok ())"
    by (auto simp: shift_buffer_def Let_def)
  have "dc_queue ?d = []" by (simp add: decoder_new_def)
  then have "decoder_next checks ?d = (d', Ok (Some (take ?r b)))"
    using p bl cm q(1) sh by (simp add: decoder_next_def m_bind_def m_then_def m_return_def)
  from poll_items_Some [OF this, of 0]
  have "poll_items 1 checks (decode_with_options [Data [h], Data t] options) = [Ok (take ?r b)]"
    by (simp add: decode_with_options_def)
  moreover have "poll_items (Suc (length [b])) checks (decode_with_options (map Data [h # t]) options) =
      map (\<lambda>b. Ok (item_of options b)) [b]"
    using assms fr by (intro decode_frames) (auto simp: frame_fits_def fr lt len_bytes_two)
  ultimately show ?thesis using fr assms(5) by (simp add: item_of_def numeral_2_eq_2 del: poll_items.simps)
qed

theorem split_prefix_misread_witness:
  "\<exists>h t. framed (replicate 131 7) = h # t \<and>
     poll_items 1 True (decode_with_options [Data [h], Data t] default_options) = [Ok [7, 7, 7]] \<and>
     poll_items 2 True (decode_with_options [Data (h # t)] default_options) = [Ok (replicate 131 7)]"
  using split_prefix_misread [of "replicate 131 7" default_options True]
  by (simp add: default_options_def numeral_3_eq_3 del: poll_items.simps)

end
