(* ===== verification/Core_Network.thy ===== *)
theory Core_Network
  imports Core_Requests Length_Prefixed_Props
begin

text \<open>
  Two managers on one connection: the loops of \<^verbatim>\<open>listen\<close> over the messages of the writer channel and over the
  items of the length-prefixed stream, put together with the encoder, the decoder and the message handler.
  The handlers run in the order in which their messages arrive; the source spawns one task for each.
\<close>

subsection \<open>The loops of listen\<close>

text \<open>\<^verbatim>\<open>while let Ok(msg) = recv.recv().await\<close>, until the channel is empty.\<close>

definition listen_writes :: "peer_id \<Rightarrow> (manager \<times> peer_stream, unit) action" where
  "listen_writes peer =
     m_bind (m_get (\<lambda>(mg, _). case hm_get (mg_peers mg) peer of Some ch \<Rightarrow> pc_queue ch | None \<Rightarrow> []))
       (m_each (\<lambda>_. listen_write peer))"

definition listen_options :: decode_options where
  "listen_options = default_options\<lparr>include_len := True\<rparr>"

text \<open>\<^verbatim>\<open>while let Some(read_buf) = length_prefixed_stream.next().await { let buf = read_buf?; ... }\<close> over the first
  \<open>k\<close> items; an item takes at least one byte of the connection.\<close>

definition listen_reads :: "crypto \<Rightarrow> bool \<Rightarrow> peer_id \<Rightarrow> nat \<Rightarrow> piece list \<Rightarrow> (manager, unit) action" where
  "listen_reads cr checks peer k input =
     m_each (\<lambda>read_buf. m_bind (m_lift read_buf) (listen_receive cr checks peer))
       (poll_items k checks (decode_with_options input listen_options))"

text \<open>What one side has queued is written, carried over, decoded and handled by the other side. The first manager
  knows the second one as \<open>p\<close> and is known to it as \<open>q\<close>; the connection delivers the bytes in one piece.\<close>

definition transmit :: "crypto \<Rightarrow> bool \<Rightarrow> peer_id \<Rightarrow> peer_id \<Rightarrow> manager \<Rightarrow> manager \<Rightarrow> manager \<times> manager" where
  "transmit cr checks p q src dst =
     (case fst (listen_writes p (src, \<lparr>ps_written = [], ps_open = True\<rparr>)) of
        (src', ps) \<Rightarrow>
          (src', fst (listen_reads cr checks q (Suc (length (ps_written ps))) [Data (ps_written ps)] dst)))"

text \<open>Three transmissions: a hash response, the post request it provokes, the post response to that.\<close>

definition sync_round :: "crypto \<Rightarrow> bool \<Rightarrow> peer_id \<Rightarrow> peer_id \<Rightarrow> manager \<Rightarrow> manager \<Rightarrow> manager \<times> manager" where
  "sync_round cr checks p q a b =
     (let (a, b) = transmit cr checks p q a b;
          (b, a) = transmit cr checks q p b a
      in transmit cr checks p q a b)"

subsection \<open>One message on the wire\<close>

definition wire_ok :: "message \<Rightarrow> bool" where
  "wire_ok m \<longleftrightarrow> message_ok m \<and> known_message (m_body m) \<and> prefix_exact (length (message_content m)) \<and>
     frame_fits (max_size listen_options) (message_content m)"

lemma wire_bytes:
  assumes "wire_ok m"
  shows "message_to_bytes m = Ok (message_bytes m)" and "message_bytes m = framed (message_content m)"
    and "message_from_bytes (message_bytes m) = Ok (length (message_bytes m), m)"
proof -
  have m: "message_typed m" "length (message_content m) < 2 ^ 56"
    using assms by (simp_all add: wire_ok_def frame_fits_def message_ok_typed)
  show "message_to_bytes m = Ok (message_bytes m)"
    using assms m by (intro message_to_bytes_eq) (simp_all add: wire_ok_def)
  show "message_bytes m = framed (message_content m)"
    using assms message_len_field_eq [OF m] by (simp add: wire_ok_def message_bytes_def framed_def len_bytes_def)
  show "message_from_bytes (message_bytes m) = Ok (length (message_bytes m), m)"
    using message_from_bytes_message_bytes [of m "[]"] assms m(2) by (simp add: wire_ok_def)
qed

lemma prefix_exact_size:
  assumes "n \<le> 120 \<or> 128 \<le> n \<and> n \<le> 16000"
  shows "prefix_exact n" and "varint_length (of_nat n) \<le> 2"
proof -
  have un: "unat (of_nat n :: u64) = n" using assms by (intro unat_of_nat_u64) auto
  have "n \<le> 120 \<and> varint_length (of_nat n) = 1 \<or> n \<le> 16000 \<and> varint_length (of_nat n) = 2"
    using assms varint_length_eqI [of 1 "of_nat n"] varint_length_eqI [of 2 "of_nat n"] un by auto
  then show "prefix_exact n" and "varint_length (of_nat n) \<le> 2" by (auto simp: prefix_exact_def)
qed

lemma wire_okI:
  assumes "message_ok m" and "known_message (m_body m)"
    and "length (message_content m) \<le> 120 \<or> 128 \<le> length (message_content m) \<and> length (message_content m) \<le> 16000"
  shows "wire_ok m"
proof -
  have "message_content m \<noteq> []" by (simp add: message_content_def varint_bytes_neq_Nil)
  with assms prefix_exact_size [OF assms(3)] show ?thesis
    by (auto simp: wire_ok_def frame_fits_def framed_def len_bytes_def listen_options_def default_options_def
        simp flip: varint_length_eq)
qed

lemma poll_items_mono:
  "length (poll_items n checks st) < n \<Longrightarrow> n \<le> k \<Longrightarrow> poll_items k checks st = poll_items n checks st"
proof (induction n arbitrary: k st)
  case (Suc n)
  obtain k' where k: "k = Suc k'" "n \<le> k'" using Suc.prems(2) by (cases k) auto
  obtain st' r where u: "unfold_poll (decoder_step checks) st = (st', r)" by fastforce
  show ?case
  proof (cases "\<exists>item. r = Ok (Some item)")
    case True
    with u Suc.prems(1) have "length (poll_items n checks st') < n" by auto
    from Suc.IH [OF this k(2)] True u k(1) show ?thesis by auto
  next
    case False
    then show ?thesis using u k(1) by (cases r) (auto split: option.split)
  qed
qed simp

lemma decode_one_frame:
  assumes "frame_fits (max_size options) b" and "2 \<le> k"
  shows "poll_items k checks (decode_with_options [Data (framed b)] options) = [Ok (item_of options b)]"
proof -
  have l: "len_bytes b \<noteq> []" by (simp add: len_bytes_def varint_bytes_neq_Nil)
  have "poll_items (Suc (length [b])) checks (decode_with_options (map Data [framed b]) options) =
      map (\<lambda>b. Ok (item_of options b)) [b]"
    using assms(1) l by (intro decode_frames) (auto simp: framed_def)
  then have "poll_items 2 checks (decode_with_options [Data (framed b)] options) = [Ok (item_of options b)]"
    by (simp only: list.map list.size numeral_2_eq_2 add_0)
  with poll_items_mono [of 2 checks "decode_with_options [Data (framed b)] options" k] assms(2) show ?thesis by simp
qed

text \<open>A single queued message arrives and is handled.\<close>

lemma transmit_one:
  assumes "queued src p = [msg]" and "wire_ok msg" and "peer_open src p"
  obtains src' where "transmit cr checks p q src dst = (src', fst (handle cr checks q msg dst))"
    and "queued src' p = []" and "peer_open src' p" and "src' = src\<lparr>mg_peers := mg_peers src'\<rparr>"
proof -
  let ?b = "message_bytes msg" and ?s = "\<lparr>ps_written = [], ps_open = True\<rparr>"
  obtain ch where ch: "hm_get (mg_peers src) p = Some ch" "pc_queue ch = [msg]" "\<not> pc_closed ch"
    using assms(1,3) by (auto simp: queued_def peer_open_def split: option.splits)
  define src' where "src' = src\<lparr>mg_peers := hm_insert p (ch\<lparr>pc_queue := []\<rparr>) (mg_peers src)\<rparr>"
  note b = wire_bytes [OF assms(2)]
  have "listen_write p (src, ?s) = ((src', \<lparr>ps_written = ?b, ps_open = True\<rparr>), Ok ())"
    by (simp add: listen_write_def ch b(1) src'_def write_all_def)
  then have w: "listen_writes p (src, ?s) = ((src', \<lparr>ps_written = ?b, ps_open = True\<rparr>), Ok ())"
    by (simp add: listen_writes_def ch m_then_def m_bind_def m_return_def m_get_def)
  have "?b \<noteq> []" unfolding b(2) using assms(2) by (auto simp: wire_ok_def frame_fits_def framed_def)
  then have "2 \<le> Suc (length ?b)" by (cases ?b) auto
  then have "poll_items (Suc (length ?b)) checks (decode_with_options [Data ?b] listen_options) = [Ok ?b]"
    using decode_one_frame [of listen_options "message_content msg" "Suc (length ?b)" checks] assms(2) b(2)
    by (simp add: wire_ok_def item_of_def listen_options_def del: poll_items.simps)
  then have "fst (listen_reads cr checks q (Suc (length ?b)) [Data ?b] dst) = fst (handle cr checks q msg dst)"
    using b(3) by (simp add: listen_reads_def listen_receive_def m_then_def m_bind_def m_lift_def m_return_def
        del: poll_items.simps)
  with w have "transmit cr checks p q src dst = (src', fst (handle cr checks q msg dst))"
    by (simp add: transmit_def)
  moreover have "queued src' p = []" "peer_open src' p" using ch by (simp_all add: src'_def queued_def peer_open_def)
  ultimately show thesis using that by (simp add: src'_def)
qed

subsection \<open>Posts of an honest peer\<close>

definition genuine :: "crypto \<Rightarrow> hash \<Rightarrow> payload \<Rightarrow> bool" where
  "genuine cr h bs \<longleftrightarrow>
     (\<exists>p. post_verify cr bs \<and> post_from_bytes bs = Ok (length bs, p) \<and> post_to_bytes p = Ok bs \<and>
        Cable_Post.post_hash cr p = Ok h \<and> (\<forall>hs. p_body p \<noteq> Delete hs))"

lemma handle_genuine:
  assumes "genuine cr h bs" and "h \<notin> set (mg_deleted_posts mg)"
  shows "\<exists>st. handle_post_bytes cr bs mg =
       (if h \<in> set (mg_requested_posts mg)
        then mg\<lparr>mg_requested_posts := hs_remove h (mg_requested_posts mg), mg_store := st\<rparr> else mg, Ok ()) \<and>
     (\<forall>g. get_post_payload st g = (if g = h then Some bs else get_post_payload (mg_store mg) g))"
proof -
  obtain p where p: "post_verify cr bs" "post_from_bytes bs = Ok (length bs, p)" "post_to_bytes p = Ok bs"
    "Cable_Post.post_hash cr p = Ok h" "\<forall>hs. p_body p \<noteq> Delete hs"
    using assms(1) by (auto simp: genuine_def)
  obtain st where st: "insert_post cr p (mg_store mg) = (st, Ok h)"
    and pay: "\<And>g. get_post_payload st g = (if g = h then Some bs else get_post_payload (mg_store mg) g)"
    using insert_post_eq [OF p(4,3,5), of "mg_store mg"] by simp
  have "handle_post_bytes cr bs mg = (mg, Ok ())" if "h \<notin> set (mg_requested_posts mg)"
    using p assms(2) that by (simp add: handle_post_bytes_def m_return_def)
  with handle_post_bytes_insert [OF p(1,2,4) _ assms(2) st] pay show ?thesis
    by (intro exI [of _ st]) simp
qed

lemma handle_genuine_posts:
  assumes "\<forall>h \<in> set hs. \<forall>bs. get_post_payload src h = Some bs \<longrightarrow> genuine cr h bs"
    and "\<forall>h \<in> set hs. h \<notin> set (mg_deleted_posts mg)"
    and "\<forall>h \<in> set hs. h \<in> set (mg_requested_posts mg) \<or> get_post_payload (mg_store mg) h = get_post_payload src h"
  shows "\<exists>mg'. m_each (handle_post_bytes cr) (get_post_payloads src hs) mg = (mg', Ok ()) \<and>
     mg_peers mg' = mg_peers mg \<and>
     (\<forall>g. get_post_payload (mg_store mg') g =
        (if g \<in> set hs \<and> get_post_payload src g \<noteq> None then get_post_payload src g
         else get_post_payload (mg_store mg) g))"
  using assms
proof (induction hs arbitrary: mg)
  case (Cons h hs)
  show ?case
  proof (cases "get_post_payload src h")
    case None
    with Cons.IH [of mg] Cons.prems show ?thesis by (auto simp: get_post_payloads_eq)
  next
    case (Some bs)
    obtain st where st: "handle_post_bytes cr bs mg =
        (if h \<in> set (mg_requested_posts mg)
         then mg\<lparr>mg_requested_posts := hs_remove h (mg_requested_posts mg), mg_store := st\<rparr> else mg, Ok ())"
      and pay: "\<And>g. get_post_payload st g = (if g = h then Some bs else get_post_payload (mg_store mg) g)"
      using handle_genuine [of cr h bs mg] Cons.prems Some by auto
    define mg1 where "mg1 = fst (handle_post_bytes cr bs mg)"
    have s1: "handle_post_bytes cr bs mg = (mg1, Ok ())" by (simp add: mg1_def st)
    have m1: "mg_peers mg1 = mg_peers mg" "mg_deleted_posts mg1 = mg_deleted_posts mg"
      "\<And>g. get_post_payload (mg_store mg1) g = (if g = h then Some bs else get_post_payload (mg_store mg) g)"
      "\<And>g. g \<in> set (mg_requested_posts mg) \<Longrightarrow> g \<noteq> h \<Longrightarrow> g \<in> set (mg_requested_posts mg1)"
      using pay Some Cons.prems(3) by (auto simp: mg1_def st)
    have "\<forall>g \<in> set hs. g \<in> set (mg_requested_posts mg1) \<or> get_post_payload (mg_store mg1) g = get_post_payload src g"
      using Cons.prems(3) Some m1(3,4) by auto
    with Cons.IH [of mg1] Cons.prems(1,2) m1(2) obtain mg' where mg':
      "m_each (handle_post_bytes cr) (get_post_payloads src hs) mg1 = (mg', Ok ())" "mg_peers mg' = mg_peers mg1"
      "\<And>g. get_post_payload (mg_store mg') g =
        (if g \<in> set hs \<and> get_post_payload src g \<noteq> None then get_post_payload src g else get_post_payload (mg_store mg1) g)"
      by auto
    have "get_post_payloads src (h # hs) = bs # get_post_payloads src hs"
      by (simp add: get_post_payloads_eq Some)
    then have "m_each (handle_post_bytes cr) (get_post_payloads src (h # hs)) mg = (mg', Ok ())"
      using s1 mg'(1) by (simp add: m_then_def m_bind_def)
    moreover have "get_post_payload (mg_store mg') g =
        (if g \<in> set (h # hs) \<and> get_post_payload src g \<noteq> None then get_post_payload src g
         else get_post_payload (mg_store mg) g)" for g
      using mg'(3) m1(3) Some by auto
    ultimately show ?thesis using mg'(2) m1(1) by auto
  qed
qed (simp add: get_post_payloads_eq m_return_def)

subsection \<open>The abstract replica\<close>

text \<open>What a manager is to its peers: the map from hashes to posts. Learning takes over the offered posts that are
  missing.\<close>

definition known :: "manager \<Rightarrow> hash \<Rightarrow> payload option" where
  "known mg = get_post_payload (mg_store mg)"

definition learn :: "(hash \<Rightarrow> payload option) \<Rightarrow> hash list \<Rightarrow> (hash \<Rightarrow> payload option) \<Rightarrow> hash \<Rightarrow> payload option" where
  "learn other offered mine = (\<lambda>h. if h \<in> set offered \<and> mine h = None then other h else mine h)"

lemma handle_post_response_learns:
  assumes "m_body msg = Response (PostResponse (get_post_payloads src (want (mg_store mg0) hs)))"
    and "mg_store mg = mg_store mg0" and "\<not> is_stale mg peer (mh_req_id (m_header msg))"
    and "set (want (mg_store mg0) hs) \<subseteq> set (mg_requested_posts mg)"
    and "\<forall>h \<in> set hs. h \<notin> set (mg_deleted_posts mg)"
    and "\<forall>h \<in> set hs. \<forall>bs. get_post_payload src h = Some bs \<longrightarrow> genuine cr h bs"
  shows "known (fst (handle cr checks peer msg mg)) = learn (get_post_payload src) hs (known mg0) \<and>
     mg_peers (fst (handle cr checks peer msg mg)) = mg_peers mg"
proof -
  let ?ws = "want (mg_store mg0) hs"
  have ws: "set ?ws \<subseteq> set hs" by (auto simp: want_eq)
  obtain mg' where mg': "m_each (handle_post_bytes cr) (get_post_payloads src ?ws) mg = (mg', Ok ())"
    "mg_peers mg' = mg_peers mg"
    "\<And>g. get_post_payload (mg_store mg') g =
        (if g \<in> set ?ws \<and> get_post_payload src g \<noteq> None then get_post_payload src g
         else get_post_payload (mg_store mg) g)"
    using handle_genuine_posts [of ?ws src cr mg] assms(4-6) ws by blast
  have "learn (get_post_payload src) hs (known mg0) g = get_post_payload (mg_store mg') g" for g
    using mg'(3) [of g] by (auto simp: learn_def known_def want_eq assms(2))
  moreover have "handle_body cr checks peer msg mg = (mg', Ok ())"
    using assms(1) mg'(1) by (simp add: handle_body_def Let_def)
  ultimately show ?thesis
    by (simp add: handle_fst [OF assms(3)] known_def fun_eq_iff mg'(2))
qed

end
