(* ===== verification/Rust_Text.thy ===== *)
theory Rust_Text
  imports Cable_Types "HOL-Library.Char_ord"
begin

text \<open>
  The formatting macros of the standard library, as far as the workspace uses them: string literals, decimal
  numbers, and the debug forms of quoted strings and of vectors. A formatted text is its UTF-8 bytes.

  Two things that formatting needs are not in the repository and are parameters of the model: the hexadecimal
  encoder of the \<^verbatim>\<open>hex\<close> crate, and the escaping of characters by \<^verbatim>\<open>{:?}\<close>, which depends on the Unicode tables
  of the standard library; so is the text of an error of another library.
\<close>

record text_lib =
  hex_encode :: "u8 list \<Rightarrow> rstring"
  escape_debug :: "rstring \<Rightarrow> rstring"
  foreign_text :: "error \<Rightarrow> rstring"

text \<open>A literal of ASCII characters.\<close>

definition str :: "string \<Rightarrow> rstring" where
  "str s = map of_char s"

text \<open>A hexadecimal literal.\<close>

definition nibble :: "char \<Rightarrow> u8" where
  "nibble c = (if CHR ''0'' \<le> c \<and> c \<le> CHR ''9'' then of_char c - 48 else of_char c - 87)"

fun hex :: "string \<Rightarrow> u8 list" where
  "hex (a # b # cs) = (push_bit 4 (nibble a) OR nibble b) # hex cs"
| "hex _ = []"

text \<open>\<^verbatim>\<open>{}\<close> of an unsigned integer.\<close>

fun dec_text :: "nat \<Rightarrow> rstring" where
  "dec_text n = (if n < 10 then [48 + of_nat n] else dec_text (n div 10) @ [48 + of_nat (n mod 10)])"

declare dec_text.simps [simp del]

text \<open>\<^verbatim>\<open>{:?}\<close> of a string and of a vector.\<close>

definition quoted :: "text_lib \<Rightarrow> rstring \<Rightarrow> rstring" where
  "quoted L s = [34] @ escape_debug L s @ [34]"

fun comma_separated :: "rstring list \<Rightarrow> rstring" where
  "comma_separated [] = []"
| "comma_separated [x] = x"
| "comma_separated (x # y # ys) = x @ [44, 32] @ comma_separated (y # ys)"

definition vec_debug :: "rstring list \<Rightarrow> rstring" where
  "vec_debug xs = [91] @ comma_separated xs @ [93]"

subsection \<open>Decimal numbers are unambiguous\<close>

fun dec_value :: "rstring \<Rightarrow> nat" where
  "dec_value ds = fold (\<lambda>d n. 10 * n + (unat d - 48)) ds 0"

lemma digit_value: "n < 10 \<Longrightarrow> unat (48 + of_nat n :: u8) = 48 + n"
  by (subst unat_add_lem [THEN iffD1]) (simp_all add: unat_of_nat take_bit_nat_eq_self)

lemma dec_value_text: "dec_value (dec_text n) = n"
proof (induction n rule: dec_text.induct)
  case (1 n)
  then show ?case by (subst dec_text.simps) (simp add: digit_value)
qed

lemma dec_text_inj: "dec_text m = dec_text n \<Longrightarrow> m = n"
  by (metis dec_value_text)

subsection \<open>White space\<close>

text \<open>The length of the white-space character at the start of a string, or 0: the characters with the Unicode property
  \<^verbatim>\<open>White_Space\<close>, in UTF-8.\<close>

fun space_len :: "rstring \<Rightarrow> nat" where
  "space_len [] = 0"
| "space_len (a # bs) =
     (if a \<in> {9, 10, 11, 12, 13, 32} then 1
      else case bs of
        [] \<Rightarrow> 0
      | b # cs \<Rightarrow>
          if a = 194 \<and> b \<in> {133, 160} then 2
          else case cs of
            [] \<Rightarrow> 0
          | c # ds \<Rightarrow>
              if a = 225 \<and> b = 154 \<and> c = 128 \<or> a = 227 \<and> b = 128 \<and> c = 128 \<or> a = 226 \<and> b = 129 \<and> c = 159 \<or>
                 a = 226 \<and> b = 128 \<and> (128 \<le> c \<and> c \<le> 138 \<or> c \<in> {168, 169, 175})
              then 3 else 0)"

lemma space_len_le: "space_len s \<le> length s"
  by (cases s rule: space_len.cases) (auto split: list.split)

text \<open>The length of the white-space character at the end of a string, or 0.\<close>

definition last_space_len :: "rstring \<Rightarrow> nat" where
  "last_space_len s =
     (if 3 \<le> length s \<and> space_len (drop (length s - 3) s) = 3 then 3
      else if 2 \<le> length s \<and> space_len (drop (length s - 2) s) = 2 then 2
      else if 1 \<le> length s \<and> space_len (drop (length s - 1) s) = 1 then 1
      else 0)"

lemma last_space_len_le: "last_space_len s \<le> length s"
  by (simp add: last_space_len_def)

text \<open>\<^verbatim>\<open>trim_start\<close>, \<^verbatim>\<open>trim_end\<close> and \<^verbatim>\<open>trim\<close> of a string.\<close>

function trim_start :: "rstring \<Rightarrow> rstring" where
  "trim_start s = (if space_len s = 0 then s else trim_start (drop (space_len s) s))"
  by pat_completeness auto
termination
proof (relation "measure length")
  fix s :: rstring assume "space_len s \<noteq> 0"
  then show "(drop (space_len s) s, s) \<in> measure length" using space_len_le [of s] by (cases s) auto
qed simp

function trim_end :: "rstring \<Rightarrow> rstring" where
  "trim_end s = (if last_space_len s = 0 then s else trim_end (take (length s - last_space_len s) s))"
  by pat_completeness auto
termination
proof (relation "measure length")
  fix s :: rstring assume "last_space_len s \<noteq> 0"
  then show "(take (length s - last_space_len s) s, s) \<in> measure length" using last_space_len_le [of s] by (cases s) auto
qed simp

declare trim_start.simps [simp del] and trim_end.simps [simp del]

definition trim :: "rstring \<Rightarrow> rstring" where
  "trim s = trim_end (trim_start s)"

text \<open>Trimming cuts at the boundaries of characters, so it leaves a string.\<close>

definition utf8_two :: "u8 \<Rightarrow> u8 \<Rightarrow> bool" where
  "utf8_two a b \<longleftrightarrow> 194 \<le> a \<and> a \<le> 223 \<and> utf8_cont b"

definition utf8_three :: "u8 \<Rightarrow> u8 \<Rightarrow> u8 \<Rightarrow> bool" where
  "utf8_three a b c \<longleftrightarrow> 224 \<le> a \<and> a \<le> 239 \<and> (if a = 224 then 160 else 128) \<le> b \<and>
     b \<le> (if a = 237 then 159 else 191) \<and> utf8_cont c"

definition utf8_four :: "u8 \<Rightarrow> u8 \<Rightarrow> u8 \<Rightarrow> u8 \<Rightarrow> bool" where
  "utf8_four a b c d \<longleftrightarrow> 240 \<le> a \<and> a \<le> 244 \<and> (if a = 240 then 144 else 128) \<le> b \<and>
     b \<le> (if a = 244 then 143 else 191) \<and> utf8_cont c \<and> utf8_cont d"

lemma utf8_conts:
  "utf8_two a b \<Longrightarrow> utf8_cont b"
  "utf8_three a b c \<Longrightarrow> utf8_cont b \<and> utf8_cont c"
  "utf8_four a b c d \<Longrightarrow> utf8_cont b \<and> utf8_cont c \<and> utf8_cont d"
  by (auto simp: utf8_two_def utf8_three_def utf8_four_def utf8_cont_def word_le_nat_alt split: if_splits)

lemma utf8_leads:
  "utf8_two a b \<Longrightarrow> 128 \<le> a" "utf8_three a b c \<Longrightarrow> 224 \<le> a" "utf8_four a b c d \<Longrightarrow> 240 \<le> a"
  by (auto simp: utf8_two_def utf8_three_def utf8_four_def word_le_nat_alt)

text \<open>A valid string starts with one character.\<close>

lemma utf8_valid_Cons:
  "utf8_valid (a # bs) \<longleftrightarrow>
     a < 128 \<and> utf8_valid bs \<or> (\<exists>b cs. bs = b # cs \<and> utf8_two a b \<and> utf8_valid cs) \<or>
     (\<exists>b c ds. bs = b # c # ds \<and> utf8_three a b c \<and> utf8_valid ds) \<or>
     (\<exists>b c d es. bs = b # c # d # es \<and> utf8_four a b c d \<and> utf8_valid es)"
proof -
  have ranges: "a < 128 \<Longrightarrow> \<not> 194 \<le> a \<and> \<not> 224 \<le> a \<and> \<not> 240 \<le> a" "194 \<le> a \<Longrightarrow> \<not> a < 128"
    "a \<le> 223 \<Longrightarrow> \<not> 224 \<le> a \<and> \<not> 240 \<le> a" "224 \<le> a \<Longrightarrow> \<not> a < 128 \<and> \<not> a \<le> 223" "a \<le> 239 \<Longrightarrow> \<not> 240 \<le> a"
    by (auto simp: word_le_nat_alt word_less_nat_alt)
  consider "a < 128" | "194 \<le> a" "a \<le> 223" | "224 \<le> a" "a \<le> 239"
    | "\<not> a < 128" "\<not> (194 \<le> a \<and> a \<le> 223)" "\<not> (224 \<le> a \<and> a \<le> 239)"
    by blast
  then show ?thesis
  proof cases
    case 1
    with ranges show ?thesis by (simp add: utf8_valid_def utf8_two_def utf8_three_def utf8_four_def)
  next
    case 2
    with ranges show ?thesis
      by (cases bs) (simp_all add: utf8_valid_def utf8_two_def utf8_three_def utf8_four_def)
  next
    case 3
    with ranges show ?thesis
      by (cases bs; cases "tl bs") (simp_all add: utf8_valid_def utf8_two_def utf8_three_def utf8_four_def)
  next
    case 4
    then have "\<not> utf8_two a x \<and> \<not> utf8_three a x y" for x y by (auto simp: utf8_two_def utf8_three_def)
    with 4 show ?thesis
      by (cases bs; cases "tl bs"; cases "tl (tl bs)")
        (simp_all del: de_Morgan_conj add: utf8_valid_def utf8_four_def, blast?)
  qed
qed

lemma utf8_valid_intros:
  "a < 128 \<Longrightarrow> utf8_valid bs \<Longrightarrow> utf8_valid (a # bs)"
  "utf8_two a b \<Longrightarrow> utf8_valid cs \<Longrightarrow> utf8_valid (a # b # cs)"
  "utf8_three a b c \<Longrightarrow> utf8_valid ds \<Longrightarrow> utf8_valid (a # b # c # ds)"
  "utf8_four a b c d \<Longrightarrow> utf8_valid es \<Longrightarrow> utf8_valid (a # b # c # d # es)"
  by (subst utf8_valid_Cons, simp)+

lemma utf8_boundary: "utf8_valid (xs @ c # ys) \<Longrightarrow> \<not> utf8_cont c \<Longrightarrow> utf8_valid xs"
proof (induction "length xs" arbitrary: xs rule: less_induct)
  case less
  show ?case
  proof (cases xs)
    case (Cons a bs)
    have IH: "zs @ c # ys = r \<Longrightarrow> utf8_valid r \<Longrightarrow> length zs \<le> length bs \<Longrightarrow> utf8_valid zs" for zs r
      using less.hyps [of zs] less.prems(2) Cons by auto
    note nc = less.prems(2)
    from less.prems(1) have "utf8_valid (a # bs @ c # ys)" by (simp add: Cons)
    then consider "a < 128" "utf8_valid (bs @ c # ys)"
      | b cs where "bs @ c # ys = b # cs" "utf8_two a b" "utf8_valid cs"
      | b b' ds where "bs @ c # ys = b # b' # ds" "utf8_three a b b'" "utf8_valid ds"
      | b b' b'' es where "bs @ c # ys = b # b' # b'' # es" "utf8_four a b b' b''" "utf8_valid es"
      unfolding utf8_valid_Cons [of a "bs @ c # ys"] by blast
    then have "utf8_valid (a # bs)"
    proof cases
      case 1
      then show ?thesis using IH [of bs] by (simp add: utf8_valid_intros)
    next
      case 2
      then have "c \<noteq> b" using utf8_conts nc by blast
      with 2(1) obtain zs where "bs = b # zs" "zs @ c # ys = cs" by (cases bs) auto
      with 2 IH [of zs cs] show ?thesis by (simp add: utf8_valid_intros)
    next
      case 3
      then have "c \<noteq> b" "c \<noteq> b'" using utf8_conts nc by blast+
      with 3(1) obtain zs where "bs = b # b' # zs" "zs @ c # ys = ds" by (cases bs; cases "tl bs") auto
      with 3 IH [of zs ds] show ?thesis by (simp add: utf8_valid_intros)
    next
      case 4
      then have "c \<noteq> b" "c \<noteq> b'" "c \<noteq> b''" using utf8_conts nc by blast+
      with 4(1) obtain zs where "bs = b # b' # b'' # zs" "zs @ c # ys = es"
        by (cases bs; cases "tl bs"; cases "tl (tl bs)") auto
      with 4 IH [of zs es] show ?thesis by (simp add: utf8_valid_intros)
    qed
    then show ?thesis by (simp add: Cons)
  qed simp
qed

lemma space_cases:
  "0 < space_len s \<Longrightarrow> (\<exists>a bs. s = a # bs \<and> a < 128 \<and> space_len s = 1) \<or>
     (\<exists>b cs. s = 194 # b # cs \<and> space_len s = 2) \<or>
     (\<exists>a b c ds. s = a # b # c # ds \<and> a \<in> {225, 226, 227} \<and> space_len s = 3)"
  by (cases s rule: space_len.cases) (auto split: list.splits if_splits)

lemma utf8_valid_drop_space:
  assumes "utf8_valid s"
  shows "utf8_valid (drop (space_len s) s)"
proof (cases "0 < space_len s")
  case True
  have one: "a < 128 \<Longrightarrow> utf8_valid (a # bs) \<Longrightarrow> utf8_valid bs" for a bs
    by (simp add: utf8_valid_def)
  have two: "utf8_valid (194 # b # cs) \<Longrightarrow> utf8_valid cs" for b cs
    by (simp add: utf8_valid_def split: if_splits)
  have three: "a \<in> {225, 226, 227} \<Longrightarrow> utf8_valid (a # b # c # ds) \<Longrightarrow> utf8_valid ds" for a b c ds
    by (auto simp: utf8_valid_def split: if_splits)
  from space_cases [OF True] show ?thesis
  proof (elim disjE exE conjE)
    fix a bs assume "s = a # bs" "a < 128" "space_len s = 1"
    with one assms show ?thesis by simp
  next
    fix b cs assume "s = 194 # b # cs" "space_len s = 2"
    with two [of b cs] assms show ?thesis by (simp del: space_len.simps)
  next
    fix a b c ds assume "s = a # b # c # ds" "a \<in> {225, 226, 227}" "space_len s = 3"
    with three [of a b c ds] assms show ?thesis by (simp del: space_len.simps)
  qed
qed (use assms in simp)

lemma trim_start_valid: "utf8_valid s \<Longrightarrow> utf8_valid (trim_start s)"
proof (induction s rule: trim_start.induct)
  case (1 s)
  then show ?case by (subst trim_start.simps) (simp add: utf8_valid_drop_space)
qed

lemma space_lead: "0 < space_len s \<Longrightarrow> \<exists>c ys. s = c # ys \<and> \<not> utf8_cont c"
  by (cases s rule: space_len.cases) (auto simp: utf8_cont_def split: list.splits if_splits)

lemma last_space_lead:
  assumes "0 < last_space_len s"
  obtains c ys where "s = take (length s - last_space_len s) s @ c # ys" and "\<not> utf8_cont c"
proof -
  from assms have "0 < space_len (drop (length s - last_space_len s) s)"
    by (auto simp: last_space_len_def split: if_splits)
  from space_lead [OF this] that show thesis by (metis append_take_drop_id)
qed

lemma trim_end_valid: "utf8_valid s \<Longrightarrow> utf8_valid (trim_end s)"
proof (induction s rule: trim_end.induct)
  case (1 s)
  have "utf8_valid (take (length s - last_space_len s) s)" if "last_space_len s \<noteq> 0"
    using that last_space_lead [of s] utf8_boundary 1(2) by (metis not_gr_zero)
  with 1 show ?case by (subst trim_end.simps) simp
qed

lemma trim_valid: "utf8_valid s \<Longrightarrow> utf8_valid (trim s)"
  by (simp add: trim_def trim_start_valid trim_end_valid)

lemma length_trim: "length (trim s) \<le> length s"
proof -
  have "length (trim_start s) \<le> length s"
  proof (induction s rule: trim_start.induct)
    case (1 s)
    then show ?case by (subst trim_start.simps) (auto intro: order_trans)
  qed
  moreover have "length (trim_end t) \<le> length t" for t
  proof (induction t rule: trim_end.induct)
    case (1 s)
    then show ?case by (subst trim_end.simps) (auto intro: order_trans)
  qed
  ultimately show ?thesis unfolding trim_def using order_trans by blast
qed

text \<open>\<^verbatim>\<open>{:?}\<close> of bytes.\<close>

definition bytes_debug :: "u8 list \<Rightarrow> rstring" where
  "bytes_debug bs = vec_debug (map (\<lambda>b. dec_text (unat b)) bs)"

end
