(* ===== verification/Workspace_Execution.thy ===== *)
theory Workspace_Execution
  imports Desert_Varint Rust_Text
begin

text \<open>
  Equations by which \<^theory_text>\<open>code_simp\<close> runs the model on concrete bytes. They are proved equal to the definitions and avoid
  what is slow for natural numbers in unary notation and for words: the length of a whole buffer, the search for the
  highest bit of a varint, the conversion of a natural number or of a character to a word.
\<close>

subsection \<open>Words\<close>

lemma of_nat_u64_code [code_unfold]: "(of_nat n :: u64) = word_of_int (int n)"
  by simp

definition bits_int :: "bool list \<Rightarrow> int" where
  "bits_int bs = foldr (\<lambda>b n. (if b then 1 else 0) + 2 * n) bs 0"

lemma of_char_u8: "(of_char (Char b0 b1 b2 b3 b4 b5 b6 b7) :: u8) = word_of_int (bits_int [b0, b1, b2, b3, b4, b5, b6, b7])"
  by (cases b0; cases b1; cases b2; cases b3; cases b4; cases b5; cases b6; cases b7)
    (simp_all add: bits_int_def of_char_def)

fun char_u8 :: "char \<Rightarrow> u8" where
  "char_u8 (Char b0 b1 b2 b3 b4 b5 b6 b7) = word_of_int (bits_int [b0, b1, b2, b3, b4, b5, b6, b7])"

lemma str_code [code]: "str s = map char_u8 s"
proof -
  have "of_char c = char_u8 c" for c by (cases c) (simp only: of_char_u8 char_u8.simps)
  then show ?thesis by (simp add: str_def)
qed

lemma nibble_code [code]:
  "nibble (Char b0 b1 b2 b3 b4 b5 b6 b7) =
     (if \<not> b7 \<and> \<not> b6 \<and> b5 \<and> b4 \<and> \<not> (b3 \<and> (b2 \<or> b1)) then word_of_int (bits_int [b0, b1, b2, b3])
      else word_of_int (bits_int [b0, b1, b2, b3, b4, b5, b6, b7] - 87))"
  unfolding nibble_def of_char_u8
  by (cases b0; cases b1; cases b2; cases b3; cases b4; cases b5; cases b6; cases b7)
    (simp_all add: bits_int_def less_eq_char_simp)

subsection \<open>Buffers\<close>

lemma slice_from_code [code]:
  "slice_from buf a = (if a = 0 \<or> drop (a - 1) buf \<noteq> [] then Ok (drop a buf) else Panic SliceIndexOutOfRange)"
  by (cases a) (auto simp: slice_from_def)

lemma slice_code [code]:
  "slice buf a b =
     (if a < b then let x = take (b - a) (drop a buf) in if length x = b - a then Ok x else Panic SliceIndexOutOfRange
      else if a = b then and_then (slice_from buf a) (\<lambda>_. Ok []) else Panic SliceIndexOutOfRange)"
  by (auto simp: slice_def slice_from_def Let_def)

definition int_length :: "'a list \<Rightarrow> int" where
  "int_length xs = foldr (\<lambda>_ n. n + 1) xs 0"

lemma int_length_eq: "int_length xs = int (length xs)"
  by (induction xs) (simp_all add: int_length_def)

lemma validate_text_code [code]:
  "validate_text t = (if int_length t \<le> 4096 then Ok () else raise_cable (TextLengthIncorrect t (length t)))"
  by (simp add: validate_text_def int_length_eq Let_def)

subsection \<open>Varints\<close>

function varint_ints :: "int \<Rightarrow> int list" where
  "varint_ints i = (if 127 < i then (i mod 128 + 128) # varint_ints (i div 128) else [i])"
  by pat_completeness auto
termination by (relation "measure nat") auto

declare varint_ints.simps [simp del]

lemma varint_bytes_code [code]: "varint_bytes v = map word_of_int (varint_ints (uint v))"
proof (induction v rule: varint_bytes.induct)
  case (1 v)
  show ?case
  proof (cases "127 < v")
    case True
    have "(ucast v OR 128 :: u8) = word_of_int (uint v mod 128 + 128)"
    proof -
      have b: "bit (128 :: u8) n \<longleftrightarrow> n = 7" "bit (128 :: int) n \<longleftrightarrow> n = 7" for n
        using bit_exp_iff [of 7 n, where ?'a = u8] bit_exp_iff [of 7 n, where ?'a = int] by auto
      have "uint v mod 128 + 128 = take_bit 7 (uint v) + 128" by (simp add: take_bit_eq_mod)
      also have "\<dots> = take_bit 7 (uint v) OR 128"
        by (rule disjunctive_add) (auto simp: bit_simps b)
      finally have i: "uint v mod 128 + 128 = take_bit 7 (uint v) OR 128" .
      show ?thesis unfolding i by (rule bit_word_eqI) (auto simp: bit_simps b)
    qed
    moreover have "uint (drop_bit 7 v) = uint v div 128"
      by (simp add: drop_bit_eq_div uint_div)
    ultimately show ?thesis using True 1
      by (subst varint_ints.simps) (simp add: varint_bytes_big word_less_def)
  next
    case False
    then have "varint_bytes v = [ucast v]" by (intro varint_bytes_small) simp
    with False show ?thesis
      by (subst varint_ints.simps) (simp add: word_less_def)
  qed
qed

declare varint_length_eq [code] varint_encode_eq [code]

lemma varint_decode_loop_code [code]:
  "varint_decode_loop 0 buf value m offset = Ok (offset, value)"
  "varint_decode_loop (Suc i) buf value m offset =
     (case drop offset buf of
        [] \<Rightarrow> raise_desert VarintSrcInsufficient
      | byte # _ \<Rightarrow>
          let value' = value + m * ucast (byte AND 127); m' = m * 128
          in if byte AND 128 = 0 then Ok (offset + 1, value')
             else varint_decode_loop i buf value' m' (offset + 1))"
  by (auto simp: Let_def Cons_nth_drop_Suc [symmetric] not_le split: list.split)

end
