(* ===== verification/Core_Tests.thy ===== *)
theory Core_Tests
  imports Core_Network Workspace_Execution
begin

text \<open>
  \<^verbatim>\<open>cable_core/tests\<close>: a manager that is used locally and, over a socket, by a client that writes requests and reads
  responses. A test is an action on the manager and on the bytes that \<^verbatim>\<open>listen\<close> has written to the socket and the client has
  not read. The tests sleep after each request and each published post, so that the
  manager has handled the request and written everything that is queued. Its outcome is \<open>Ok ()\<close> when no assertion fails.
  Hashing and signing are those of a small library in which different posts of a test have different hashes; the
  clock is a list of explicit readings.
\<close>

subsection \<open>Encoders as they are run\<close>

text \<open>The encoders write into a buffer; to run the tests, their results are taken from the formats that they implement.\<close>

lemma post_to_bytes_code [code]:
  "post_to_bytes p =
     (if post_typed p \<and> recognized (p_body p) then Ok (post_bytes p)
      else and_then (post_write_bytes p (replicate (post_count_bytes p) 0)) (\<lambda>(buf', _). Ok buf'))"
  by (simp add: post_to_bytes_eq) (simp add: post_to_bytes_def)

lemma message_to_bytes_code [code]:
  "message_to_bytes m =
     (if message_typed m \<and> known_message (m_body m) \<and> drop 600 (message_content m) = [] then Ok (message_bytes m)
      else and_then (message_write_bytes m (replicate (message_count_bytes m) 0)) (\<lambda>(buf, _). Ok buf))"
  by (simp add: message_to_bytes_eq) (simp add: message_to_bytes_def)

subsection \<open>The client\<close>

record tester =
  ts_manager :: manager
  ts_socket :: peer_stream

text \<open>The hash of a post is made of the last bytes of its encoding.\<close>

definition test_crypto :: crypto where
  "test_crypto = sample_crypto\<lparr>generichash_hash := (\<lambda>bs. Some (take 32 (rev bs @ replicate 32 0)))\<rparr>"

definition tester_new :: tester where
  "tester_new =
     \<lparr>ts_manager = manager_new 41 (store_default (replicate 32 1, replicate 64 2)),
      ts_socket = \<lparr>ps_written = [], ps_open = True\<rparr>\<rparr>"

definition assert_true :: "bool \<Rightarrow> ('s, unit) action" where
  "assert_true b = m_lift (if b then Ok () else Panic AssertionFailed)"

definition on_cable :: "(manager, 'a) action \<Rightarrow> (tester, 'a) action" where
  "on_cable m s = (case m (ts_manager s) of (mg, r) \<Rightarrow> (s\<lparr>ts_manager := mg\<rparr>, r))"

definition on_connection :: "(manager \<times> peer_stream, 'a) action \<Rightarrow> (tester, 'a) action" where
  "on_connection m s =
     (case m (ts_manager s, ts_socket s) of ((mg, ps), r) \<Rightarrow> (s\<lparr>ts_manager := mg, ts_socket := ps\<rparr>, r))"

text \<open>\<^verbatim>\<open>TcpStream::connect\<close>, accepted by the task that calls \<^verbatim>\<open>listen\<close>; the client is the only peer.\<close>

definition client_connect :: "(tester, peer_id) action" where
  "client_connect = on_connection listen_connect"

definition sleep :: "(tester, unit) action" where
  "sleep = on_connection (listen_writes 1)"

definition client_write :: "message \<Rightarrow> (tester, unit) action" where
  "client_write req =
     m_bind (m_lift (message_to_bytes req)) (\<lambda>req_bytes.
     m_then (on_cable (listen_receive test_crypto True 1 req_bytes)) sleep)"

text \<open>\<^verbatim>\<open>let mut res_bytes = [0u8; 1024];\<close>\<close>

definition res_bytes_new :: "u8 list" where
  "res_bytes_new = replicate 1024 0"

text \<open>\<^verbatim>\<open>stream.read(&mut res_bytes).await?\<close> and \<^verbatim>\<open>Message::from_bytes(&res_bytes)?\<close>; a read with nothing to read waits.\<close>

definition client_read :: "u8 list \<Rightarrow> (tester, u8 list \<times> message) action" where
  "client_read res_bytes =
     m_bind (m_get (\<lambda>s. ps_written (ts_socket s))) (\<lambda>bs.
     if bs = [] then m_lift (Panic Deadlock)
     else
       let n = length res_bytes; res_bytes = take n bs @ drop (length bs) res_bytes
       in m_then (m_modify (\<lambda>s. s\<lparr>ts_socket := (ts_socket s)\<lparr>ps_written := drop n bs\<rparr>\<rparr>))
            (m_bind (m_lift (message_from_bytes res_bytes)) (\<lambda>(_, msg). m_return (res_bytes, msg))))"

text \<open>The assertion on the type of a message and what follows for its hashes or posts.\<close>

definition on_hashes :: "message \<Rightarrow> (hash list \<Rightarrow> (tester, unit) action) \<Rightarrow> (tester, unit) action" where
  "on_hashes msg f =
     m_then (assert_true (message_type msg = HASH_RESPONSE))
       (case m_body msg of Response (HashResponse hashes) \<Rightarrow> f hashes | _ \<Rightarrow> m_return ())"

definition on_posts :: "message \<Rightarrow> (payload list \<Rightarrow> (tester, unit) action) \<Rightarrow> (tester, unit) action" where
  "on_posts msg f =
     m_then (assert_true (message_type msg = POST_RESPONSE))
       (case m_body msg of Response (PostResponse posts) \<Rightarrow> f posts | _ \<Rightarrow> m_return ())"

definition expect_hashes :: "(hash list \<Rightarrow> (tester, unit) action) \<Rightarrow> (tester, unit) action" where
  "expect_hashes f = m_bind (client_read res_bytes_new) (\<lambda>(_, msg). on_hashes msg f)"

text \<open>A read of one complete message, as it is run: the message is decoded without the rest of the buffer.\<close>

definition whole_message :: "u8 list \<Rightarrow> message option" where
  "whole_message bs =
     (case message_from_bytes bs of
        Ok (n, m) \<Rightarrow> if message_bytes m = bs \<and> drop 600 bs = [] then Some m else None
      | _ \<Rightarrow> None)"

lemma whole_message_prefix:
  assumes "whole_message bs = Some m"
  shows "message_from_bytes (bs @ rest) = Ok (length bs, m)" and "bs \<noteq> []" and "length bs \<le> 600"
proof -
  obtain n where n: "message_from_bytes bs = Ok (n, m)" and m: "message_bytes m = bs" and l: "length bs \<le> 600"
    using assms by (auto simp: whole_message_def split: result.splits if_splits)
  have "length (message_content m) \<le> length bs" by (simp flip: m add: message_bytes_def)
  with l have "length (message_content m) < 2 ^ 56" by simp
  from message_from_bytes_message_bytes [OF _ this, of rest] message_from_bytes_ok [OF n] m
  show "message_from_bytes (bs @ rest) = Ok (length bs, m)" by simp
  show "bs \<noteq> []" using n by (auto simp: message_from_bytes_def raise_defs)
qed (use assms in \<open>auto simp: whole_message_def split: result.splits if_splits\<close>)

lemma client_read_whole:
  assumes "whole_message (ps_written (ts_socket s)) = Some m" and "length (ps_written (ts_socket s)) \<le> length res_bytes"
  shows "client_read res_bytes s =
     (s\<lparr>ts_socket := (ts_socket s)\<lparr>ps_written := []\<rparr>\<rparr>,
      Ok (ps_written (ts_socket s) @ drop (length (ps_written (ts_socket s))) res_bytes, m))"
  using whole_message_prefix [OF assms(1)] assms(2)
  by (simp add: client_read_def Let_def m_bind_def m_get_def m_lift_def m_then_def m_modify_def m_return_def)

lemma client_read_code [code]:
  "client_read res_bytes s =
     (let bs = ps_written (ts_socket s); rest = drop (length bs) res_bytes
      in case (if rest \<noteq> [] then whole_message bs else None) of
           Some m \<Rightarrow> (s\<lparr>ts_socket := (ts_socket s)\<lparr>ps_written := []\<rparr>\<rparr>, Ok (bs @ rest, m))
         | None \<Rightarrow>
             (if bs = [] then (s, Panic Deadlock)
              else
                let n = length res_bytes; res_bytes = take n bs @ rest
                in m_bind (m_lift (message_from_bytes res_bytes)) (\<lambda>(_, msg). m_return (res_bytes, msg))
                     (s\<lparr>ts_socket := (ts_socket s)\<lparr>ps_written := drop n bs\<rparr>\<rparr>)))"
proof (cases "drop (length (ps_written (ts_socket s))) res_bytes \<noteq> [] \<and> whole_message (ps_written (ts_socket s)) \<noteq> None")
  case True
  then show ?thesis by (auto simp: client_read_whole Let_def)
next
  case False
  then have "(if drop (length (ps_written (ts_socket s))) res_bytes \<noteq> [] then whole_message (ps_written (ts_socket s)) else None) = None"
    by auto
  then show ?thesis
    by (simp only: client_read_def Let_def option.case) (simp add: m_bind_def m_get_def m_lift_def m_then_def m_modify_def)
qed

lemma expect_hashes_code [code]:
  "expect_hashes f s =
     (case whole_message (ps_written (ts_socket s)) of
        Some m \<Rightarrow> on_hashes m f (s\<lparr>ts_socket := (ts_socket s)\<lparr>ps_written := []\<rparr>\<rparr>)
      | None \<Rightarrow> m_bind (client_read res_bytes_new) (\<lambda>(_, msg). on_hashes msg f) s)"
proof (cases "whole_message (ps_written (ts_socket s))")
  case (Some m)
  from whole_message_prefix [OF this] Some show ?thesis
    by (simp add: expect_hashes_def client_read_whole res_bytes_new_def m_bind_def)
qed (simp add: expect_hashes_def)

definition hashes_are :: "hash list \<Rightarrow> hash list \<Rightarrow> (tester, unit) action" where
  "hashes_are published hashes = assert_true (hashes = published)"

subsection \<open>channel_state.rs\<close>

definition post_step :: "(manager, hash) action \<Rightarrow> (hash \<Rightarrow> (tester, unit) action) \<Rightarrow> (tester, unit) action" where
  "post_step p f =
     m_bind (on_cable p) (\<lambda>h. m_then sleep (f h))"

definition channel_state_request_response :: "u64 \<Rightarrow> (tester, unit) action" where
  "channel_state_request_response t =
     (let channel = str ''entomology'' in
     m_then (m_bind client_connect (\<lambda>_. m_return ()))
    (m_bind (on_cable (manager_post_join test_crypto (Ok t) channel)) (\<lambda>join_post_hash.
     m_bind (on_cable new_req_id) (\<lambda>(_, req_id_bytes).
     m_then (client_write (channel_state_request NO_CIRCUIT req_id_bytes 1 channel 1))
    (m_then (expect_hashes (hashes_are [join_post_hash]))
    (post_step (manager_post_topic test_crypto (Ok (t + 6)) channel (str ''Insect appreciation and identification assistance''))
       (\<lambda>first_topic_hash.
     m_then (expect_hashes (hashes_are [join_post_hash, first_topic_hash]))
    (post_step (manager_post_topic test_crypto (Ok (t + 1011)) channel
         (str ''Insect appreciation; please don'' @ [39] @ str ''t ask for identification assistance''))
       (\<lambda>second_topic_hash.
     m_then (expect_hashes (hashes_are [join_post_hash, second_topic_hash]))
    (post_step (manager_post_delete test_crypto (Ok (t + 1516)) [second_topic_hash]) (\<lambda>delete_topic_hash.
     m_then (expect_hashes (hashes_are [join_post_hash, first_topic_hash, delete_topic_hash]))
    (post_step (manager_post_info_name test_crypto (Ok (t + 1521)) (str ''glyph'')) (\<lambda>first_name_hash.
     m_then (expect_hashes (hashes_are [join_post_hash, first_topic_hash, delete_topic_hash, first_name_hash]))
    (post_step (manager_post_info_name test_crypto (Ok (t + 1526)) (str ''mycognosist'')) (\<lambda>second_name_hash.
     m_then (expect_hashes (hashes_are [join_post_hash, first_topic_hash, delete_topic_hash, second_name_hash]))
    (post_step (manager_post_leave test_crypto (Ok (t + 1531)) channel) (\<lambda>leave_post_hash.
     expect_hashes (hashes_are [leave_post_hash, first_topic_hash, second_name_hash]))))))))))))))))))"

subsection \<open>channel_time_range.rs\<close>

definition request_hashes :: "(req_id \<Rightarrow> message) \<Rightarrow> (hash list \<Rightarrow> (tester, unit) action) \<Rightarrow> (tester, unit) action" where
  "request_hashes req f =
     m_bind (on_cable new_req_id) (\<lambda>(_, req_id_bytes).
     m_then (client_write (req req_id_bytes)) (expect_hashes f))"

definition publish_text :: "u64 \<Rightarrow> rstring \<Rightarrow> rstring \<Rightarrow> (tester, hash) action" where
  "publish_text now channel txt = on_cable (manager_post_text test_crypto (Ok now) channel txt)"

definition channel_time_range_request_response :: "u64 \<Rightarrow> (tester, unit) action" where
  "channel_time_range_request_response t =
     (let request = (\<lambda>channel time_start time_end limit req_id.
            channel_time_range_request NO_CIRCUIT req_id 1 (channel_options_new (str channel) time_start time_end limit));
          expect_len = (\<lambda>n hashes. assert_true (length hashes = n))
      in
     m_then (m_bind client_connect (\<lambda>_. m_return ()))
    (m_bind (publish_text (t + 1) (str ''myco'')
       (str ''Listen, if you'' @ [39] @ str ''re a mushroom, you live cheap; besides, I'' @ [39] @ str ''m telling you, '' @
        str ''this was a very nice neighborhood until the monkeys got out of control.'')) (\<lambda>_.
     m_bind (publish_text (t + 2) (str ''myco'') (str ''Ganoderma neo-japonicum'')) (\<lambda>_.
     m_bind (publish_text (t + 3) (str ''myco'') (str ''hyphal fusion'')) (\<lambda>_.
     m_then (request_hashes (request ''myco'' (t + 4) (t + 4) 10) (expect_len 0))
    (m_then (request_hashes (request ''myco'' t (t + 1010) 5) (expect_len 3))
    (m_then (request_hashes (request ''myco'' t (t + 1016) 2) (expect_len 2))
    (m_bind (publish_text (t + 1022) (str ''books'')
       (str ''Just started reading '' @ [39] @ str ''Strange Weather in Tokyo'' @ [39])) (\<lambda>_.
     m_then (request_hashes (request ''books'' t 0 10) (expect_len 1))
    (m_bind (publish_text (t + 1030) (str ''books'') (str ''Have you set any reading goals for the year?'')) (\<lambda>_.
     m_then sleep (expect_hashes (expect_len 2)))))))))))))"

subsection \<open>request_response.rs\<close>

text \<open>Here one buffer is used for all reads, and the clock of the requests counts in seconds. After the first and the
  fourth read the received hashes are requested, which makes the next read.\<close>

definition request_posts :: "u8 list \<Rightarrow> hash list \<Rightarrow> (payload list \<Rightarrow> (tester, unit) action) \<Rightarrow> (tester, u8 list) action" where
  "request_posts res_bytes hashes f =
     m_bind (on_cable new_req_id) (\<lambda>(_, req_id_bytes).
     m_then (client_write (post_request NO_CIRCUIT req_id_bytes 1 hashes))
    (m_bind (client_read res_bytes) (\<lambda>(res_bytes, msg).
     m_then (on_posts msg f) (m_return res_bytes))))"

definition hashes_then_posts ::
  "u8 list \<Rightarrow> (hash list \<Rightarrow> (tester, unit) action) \<Rightarrow> (payload list \<Rightarrow> (tester, unit) action) \<Rightarrow> (tester, u8 list) action" where
  "hashes_then_posts res_bytes f g =
     m_bind (client_read res_bytes) (\<lambda>(res_bytes, msg).
     m_then (assert_true (message_type msg = HASH_RESPONSE))
       (case m_body msg of
          Response (HashResponse hashes) \<Rightarrow> m_then (f hashes) (request_posts res_bytes hashes g)
        | _ \<Rightarrow> m_return res_bytes))"

definition request_response :: "u64 \<Rightarrow> (tester, unit) action" where
  "request_response t =
     m_bind (publish_text (1000 * t) (str ''tao'') (str ''Need little, want less. Forget the rules. Be untroubled.''))
       (\<lambda>post_hash.
     m_bind (on_cable new_req_id) (\<lambda>(_, channel_time_range_req_id_bytes).
     m_then (m_bind client_connect (\<lambda>_. m_return ()))
    (m_then (client_write (channel_time_range_request NO_CIRCUIT channel_time_range_req_id_bytes 1
         (channel_options_new (str ''tao'') t 0 10)))
    (m_bind (hashes_then_posts res_bytes_new
         (\<lambda>hashes. m_then (assert_true (length hashes = 1)) (assert_true (hashes ! 0 = post_hash)))
         (\<lambda>_. m_return ())) (\<lambda>res_bytes.
     m_bind (publish_text (1000 * t + 15) (str ''bamboo'') (str ''Without bamboo, we lose serenity and culture itself.'')) (\<lambda>_.
     m_bind (publish_text (1000 * t + 16) (str ''bikes'') (str ''I got no brakes!'')) (\<lambda>_.
     m_bind (on_cable new_req_id) (\<lambda>(_, req_id_bytes).
     m_then (client_write (channel_list_request NO_CIRCUIT req_id_bytes 1 0 0))
    (m_bind (client_read res_bytes) (\<lambda>(res_bytes, msg).
     m_then (assert_true (message_type msg = CHANNEL_LIST_RESPONSE))
    (m_bind (publish_text (1000 * t + 22) (str ''tao'') (str ''Lie low to be on top, be on top by lying low.'')) (\<lambda>post_hash.
     m_then sleep
    (m_bind (hashes_then_posts res_bytes
         (\<lambda>hashes. m_then (assert_true (length hashes = 2)) (assert_true (hashes ! 1 = post_hash)))
         (\<lambda>posts. assert_true (length posts = 2))) (\<lambda>_.
     m_bind (on_cable new_req_id) (\<lambda>(_, req_id_bytes).
     m_then (client_write (cancel_request NO_CIRCUIT req_id_bytes 1 channel_time_range_req_id_bytes))
    (m_bind (publish_text (1000 * t + 40) (str ''tao'') (str ''Those who embrace the Tao are soft and strong.'')) (\<lambda>_.
     m_then sleep
       (m_bind (m_get (\<lambda>s. ps_written (ts_socket s))) (\<lambda>bs. assert_true (bs = []))))))))))))))))))))"

subsection \<open>The tests pass\<close>

lemma channel_state_test_passes: "snd (channel_state_request_response 1700000000000 tester_new) = Ok ()"
  by code_simp

lemma channel_time_range_test_passes: "snd (channel_time_range_request_response 1700000000000 tester_new) = Ok ()"
  by code_simp

lemma request_response_test_passes: "snd (request_response 1700000000 tester_new) = Ok ()"
  by code_simp

end
