(* ===== verification/Core_Publish.thy ===== *)
theory Core_Publish
  imports Core_Network
begin

text \<open>
  What publishing a text post puts into the store, and whether a peer that receives it takes it over.
  \<open>post_text\<close> of the manager validates the text but not the name of the channel, which the decoder checks.
\<close>

subsection \<open>A text post with any channel name\<close>

lemma read_channel_refuses:
  assumes "utf8_valid ch" and "length ch < 2 ^ 56" and "\<not> channel_ok ch"
  shows "refuses read_channel (string_bytes ch)"
proof -
  have "refuses (rd_bind (rd_check (validate_channel ch)) (\<lambda>_. rd_return ch)) ([] @ [])"
    using assms by (intro refuses_bind_first refuses_check) (auto simp: channel_ok_def)
  then have "refuses read_channel (string_bytes ch @ [])"
    unfolding read_channel_def by (intro refuses_bind [OF reads_string [OF assms(1,2)]]) simp
  then show ?thesis by simp
qed

lemma text_post_refused:
  assumes "utf8_valid ch" and "length ch < 2 ^ 56" and "\<not> channel_ok ch"
    and "length pk = 32" and "length sig = 64" and "hashes_ok links" and "unat ts < 2 ^ 56"
  shows "post_from_bytes (post_bytes (set_signature (Cable_Post.post_text pk links ts ch txt) sig)) \<noteq> Ok r"
proof -
  let ?p = "set_signature (Cable_Post.post_text pk links ts ch txt) sig"
  have body: "refuses (read_post_body TEXT_POST) (string_bytes ch @ string_bytes txt)"
    unfolding read_post_body_def by (simp, rule refuses_bind_first [OF read_channel_refuses [OF assms(1-3)]])
  have tp: "unat TEXT_POST < 2 ^ 56" by (simp add: TEXT_POST_def)
  have links: "reads (read_hashes (unat (of_nat (length links) :: u64))) (concat links) links"
    "unat (of_nat (length links) :: u64) < 2 ^ 56"
    using assms(6) by (intro reads_hashes, auto simp: hashes_ok_def list_all_iff unat_of_nat_56)
  have "refuses read_post (pk @ sig @ varint_bytes (of_nat (length links)) @ concat links @ varint_bytes TEXT_POST @
      varint_bytes ts @ (string_bytes ch @ string_bytes txt) @ [])"
    unfolding read_post_def
    by (intro refuses_bind [OF reads_slice] refuses_bind [OF reads_varint] refuses_bind [OF links(1)] refuses_bind_first
        body assms tp links(2))
  moreover have "post_bytes ?p = pk @ sig @ varint_bytes (of_nat (length links)) @ concat links @ varint_bytes TEXT_POST @
      varint_bytes ts @ (string_bytes ch @ string_bytes txt) @ []"
    by (simp add: post_bytes_def post_signed_bytes_def hashes_bytes_def Cable_Post.post_text_def post_new_def
        post_header_new_def set_signature_def post_type_def)
  ultimately have "refuses read_post (post_bytes ?p)" by simp
  from refuses_whole [OF this, of "[]"] have no: "read_post (post_bytes ?p) 0 \<noteq> Ok x" for x by simp
  then show ?thesis by (cases "read_post (post_bytes ?p) 0") (auto simp: post_from_bytes_def)
qed

subsection \<open>Publishing\<close>

lemma publish_store:
  assumes "publish cr p mg = (mg', Ok h)" and "\<not> is_signed p" and "get_channel p = Some ch"
    and "post_sign cr p (snd (st_keypair (mg_store mg))) = Ok p'" and "get_channel p' = Some ch"
  shows "insert_post cr p' (mg_store mg) = (mg_store mg', Ok h)"
proof -
  obtain st r where ins: "insert_post cr p' (mg_store mg) = (st, r)" by fastforce
  have "mg_store (fst (send_post_hashes ch mg1)) = mg_store mg1" for mg1
    using keepsD [OF keeps_send_post_hashes, of "\<lambda>mg. mg_store mg = mg_store mg1" mg1 ch] by simp
  then have "mg_store mg2 = st" if "send_post_hashes ch (mg\<lparr>mg_store := st\<rparr>) = (mg2, q)" for mg2 q
    using that by (metis fst_conv manager.select_convs(10) manager.surjective manager.update_convs(10))
  then show ?thesis
    using assms ins
    by (auto simp: publish_def m_bind_eq_Ok manager_keys_eq m_lift_def on_store_def m_return_def m_then_def
        split: prod.splits)
qed

lemma post_text_typed:
  "length pk = 32 \<Longrightarrow> hashes_ok links \<Longrightarrow> post_typed (Cable_Post.post_text pk links ts ch txt)"
  by (simp add: post_typed_def Cable_Post.post_text_def post_new_def post_header_new_def hashes_ok_def)

lemma post_text_simps:
  "p_body (Cable_Post.post_text pk links ts ch txt) = Text ch txt"
  "ph_public_key (p_header (Cable_Post.post_text pk links ts ch txt)) = pk"
  "get_channel (set_signature (Cable_Post.post_text pk links ts ch txt) sig) = Some ch"
  "get_channel (Cable_Post.post_text pk links ts ch txt) = Some ch"
  "\<not> is_signed (Cable_Post.post_text pk links ts ch txt)"
  by (simp_all add: Cable_Post.post_text_def post_new_def post_header_new_def is_signed_def set_signature_def list_ex_iff)

lemma post_text_ok:
  assumes "length pk = 32" and "length sig = 64" and "hashes_ok links" and "unat ts < 2 ^ 56" and "channel_ok ch"
    and "utf8_valid txt" and "length txt \<le> 4096"
  shows "post_ok (set_signature (Cable_Post.post_text pk links ts ch txt) sig)"
  using assms by (simp add: post_ok_def header_ok_def Cable_Post.post_text_def post_new_def post_header_new_def
      post_type_def set_signature_def)

text \<open>C15. Publishing. When \<^verbatim>\<open>post_text\<close> of a manager with a key pair succeeds, the returned hash is in the store with a
  payload whose signature verifies. If the channel name has 1 to 64 code points, the post is one that every
  peer takes over (see the theorem on replication). For other channel names, which \<^verbatim>\<open>post_text\<close> accepts
  as well, no peer can decode the stored post.\<close>

theorem published_text:
  assumes "manager_post_text cr (Ok ts) ch txt mg = (mg', Ok h)"
    and "key_pair cr (fst (st_keypair (mg_store mg))) (snd (st_keypair (mg_store mg)))"
    and "length (fst (st_keypair (mg_store mg))) = 32"
    and "unat ts < 2 ^ 56" and "utf8_valid ch" and "length ch < 2 ^ 56" and "utf8_valid txt"
    and "\<forall>links. get_latest_hashes (mg_store mg) ch = Some links \<longrightarrow> hashes_ok links"
  shows "\<exists>bs. get_post_payload (mg_store mg') h = Some bs \<and> post_verify cr bs \<and>
     (if 1 \<le> chars_count ch \<and> chars_count ch \<le> 64 then genuine cr h bs
      else \<forall>n p. post_from_bytes bs \<noteq> Ok (n, p))"
proof -
  let ?kp = "st_keypair (mg_store mg)"
  define links where "links = (case get_latest_hashes (mg_store mg) ch of Some links \<Rightarrow> links | None \<Rightarrow> [])"
  let ?p = "Cable_Post.post_text (fst ?kp) links ts ch txt"
  have lk: "hashes_ok links" using assms(8) by (auto simp: links_def hashes_ok_def split: option.split)
  have "length txt \<le> 4096" and pub: "publish cr ?p mg = (mg', Ok h)"
    using assms(1)
    by (auto simp: manager_post_text_def post_header_values_def m_bind_eq_Ok manager_keys_eq m_get_def m_lift_def
        m_return_def links_def)
  from post_sign_key_pair [OF post_text_typed [OF assms(3) lk]] assms(2)
  obtain sig where sig: "post_sign cr ?p (snd ?kp) = Ok (set_signature ?p sig)" "length sig = 64"
    "post_verify cr (post_bytes (set_signature ?p sig))"
    by (metis post_text_simps(1,2) recognized.simps(2))
  let ?q = "set_signature ?p sig"
  have ins: "insert_post cr ?q (mg_store mg) = (mg_store mg', Ok h)"
    by (rule publish_store [OF pub post_text_simps(5,4) sig(1) post_text_simps(3)])
  have bs: "post_to_bytes ?q = Ok (post_bytes ?q)"
    using post_text_typed [OF assms(3) lk] sig(2)
    by (intro post_to_bytes_eq post_typed_set_signature) (simp_all add: post_text_simps)
  have "genuine cr h (post_bytes ?q)" if "channel_ok ch"
  proof -
    have "post_ok ?q" using assms lk sig(2) that \<open>length txt \<le> 4096\<close> by (intro post_text_ok)
    from post_from_bytes_post_bytes [OF this, of "[]"] show ?thesis
      unfolding genuine_def using bs sig(3) insert_post_hash [OF ins] by (auto simp: post_text_simps)
  qed
  moreover have "post_from_bytes (post_bytes ?q) \<noteq> Ok (n, p)" if "\<not> channel_ok ch" for n p
    by (rule text_post_refused [OF assms(5,6) that assms(3) sig(2) lk assms(4)])
  ultimately show ?thesis
    using insert_post_payload_result [OF ins bs] sig(3) assms(5) by (auto simp: channel_ok_def)
qed

lemma sample_publish:
  assumes "length txt \<le> 4096"
  shows "\<exists>mg' h. manager_post_text sample_crypto (Ok 5) ch txt sample_manager = (mg', Ok h)"
proof -
  let ?p = "Cable_Post.post_text sample_key [] 5 ch txt"
  have kp: "st_keypair (mg_store sample_manager) = (sample_key, replicate 64 1)"
    and lv: "mg_live_requests sample_manager = []" and lt: "get_latest_hashes (mg_store sample_manager) ch = None"
    by (simp_all add: sample_manager_def manager_new_def sample_store_def store_default_def get_latest_hashes_def)
  have k: "length sample_key = 32" by (simp add: sample_key_def)
  have ty: "post_typed ?p" using k by (intro post_text_typed) (simp_all add: hashes_ok_def)
  from post_sign_key_pair [OF ty _ sample_key_pair, of "replicate 64 1"] k
  obtain sig where sig: "post_sign sample_crypto ?p (replicate 64 1) = Ok (set_signature ?p sig)" "length sig = 64"
    by (auto simp: post_text_simps)
  let ?q = "set_signature ?p sig"
  have bs: "post_to_bytes ?q = Ok (post_bytes ?q)"
    using ty sig(2) by (intro post_to_bytes_eq post_typed_set_signature) (simp_all add: post_text_simps)
  obtain h where h: "Cable_Post.post_hash sample_crypto ?q = Ok h" using sample_hash [OF bs] by auto
  obtain st where st: "insert_post sample_crypto ?q (mg_store sample_manager) = (st, Ok h)"
    using insert_post_eq [OF h bs, of "mg_store sample_manager"] by (auto simp: post_text_simps)
  have sn: "send_post_hashes ch (sample_manager\<lparr>mg_store := st\<rparr>) = (sample_manager\<lparr>mg_store := st\<rparr>, Ok ())"
    by (simp add: send_post_hashes_def lv m_return_def)
  have "publish sample_crypto ?p sample_manager = (sample_manager\<lparr>mg_store := st\<rparr>, Ok h)"
    by (simp add: publish_def post_text_simps m_bind_def manager_keys_eq kp m_lift_def sig(1) on_store_def st sn m_then_def
        m_return_def del: get_channel.simps)
  moreover have "validate_text txt = Ok ()" using assms by simp
  ultimately show ?thesis
    by (simp add: manager_post_text_def post_header_values_def m_bind_def manager_keys_eq kp m_get_def m_lift_def
        m_return_def lt del: validate_text_eq_Ok)
qed

theorem published_text_witness:
  "(\<exists>mg' h bs. manager_post_text sample_crypto (Ok 5) [100] [104, 105] sample_manager = (mg', Ok h) \<and>
      get_post_payload (mg_store mg') h = Some bs \<and> genuine sample_crypto h bs) \<and>
   (\<exists>mg' h bs. manager_post_text sample_crypto (Ok 5) [] [104, 105] sample_manager = (mg', Ok h) \<and>
      get_post_payload (mg_store mg') h = Some bs \<and> post_verify sample_crypto bs \<and> (\<forall>n p. post_from_bytes bs \<noteq> Ok (n, p)))"
proof -
  have kp: "st_keypair (mg_store sample_manager) = (sample_key, replicate 64 1)"
    and lt: "get_latest_hashes (mg_store sample_manager) ch = None" for ch
    by (simp_all add: sample_manager_def manager_new_def sample_store_def store_default_def get_latest_hashes_def)
  have k: "length sample_key = 32" by (simp add: sample_key_def)
  obtain m1 h1 m2 h2 where
    p1: "manager_post_text sample_crypto (Ok 5) [100] [104, 105] sample_manager = (m1, Ok h1)" and
    p2: "manager_post_text sample_crypto (Ok 5) [] [104, 105] sample_manager = (m2, Ok h2)"
    using sample_publish [of "[104, 105]" "[100]"] sample_publish [of "[104, 105]" "[]"] by auto
  have u: "utf8_valid [100]" "utf8_valid [104, 105]" "chars_count [100] = 1" "chars_count [] = 0"
    by (simp_all add: utf8_valid_def chars_count_def)
  show ?thesis
    using published_text [OF p1] published_text [OF p2] p1 p2 u lt k
    by (simp add: kp sample_key_pair) blast
qed

end
