(* ===== verification/Core_Announce.thy ===== *)
theory Core_Announce
  imports Core_Publish
begin

text \<open>
  What publishing a post sends: to every connected peer the answers to its live requests for the channels
  concerned, computed on the store that already holds the post.
\<close>

subsection \<open>Actions that only put messages into queues\<close>

definition open_all :: "(peer_id, peer_channel) hashmap \<Rightarrow> bool" where
  "open_all ps \<longleftrightarrow> list_all (\<lambda>(_, ch). \<not> pc_closed ch) ps"

text \<open>Each connected peer has got the messages \<open>f peer\<close>.\<close>

definition grown :: "(peer_id, peer_channel) hashmap \<Rightarrow> (peer_id, peer_channel) hashmap \<Rightarrow> (peer_id \<Rightarrow> message list) \<Rightarrow> bool" where
  "grown ps ps' f \<longleftrightarrow>
     (\<forall>peer. hm_get ps' peer = map_option (\<lambda>ch. ch\<lparr>pc_queue := pc_queue ch @ f peer\<rparr>) (hm_get ps peer))"

definition delivers :: "manager \<Rightarrow> (manager, unit) action \<Rightarrow> (peer_id \<Rightarrow> message list) \<Rightarrow> bool" where
  "delivers mg m f \<longleftrightarrow>
     (\<forall>ps. open_all ps \<longrightarrow>
        (\<exists>ps'. m (mg\<lparr>mg_peers := ps\<rparr>) = (mg\<lparr>mg_peers := ps'\<rparr>, Ok ()) \<and> open_all ps' \<and> grown ps ps' f))"

named_theorems delivers_intros "actions that only put messages into the queues of peers"

lemma deliversD:
  assumes "delivers mg m f" and "open_all ps"
  obtains ps' where "m (mg\<lparr>mg_peers := ps\<rparr>) = (mg\<lparr>mg_peers := ps'\<rparr>, Ok ())" and "open_all ps'" and "grown ps ps' f"
  using assms unfolding delivers_def by blast

lemma delivers_return [delivers_intros]: "delivers mg (m_return ()) (\<lambda>_. [])"
  by (auto simp: delivers_def m_return_def grown_def option.map_ident intro!: exI)

lemma open_all_insert: "open_all ps \<Longrightarrow> \<not> pc_closed ch \<Longrightarrow> open_all (hm_insert peer ch ps)"
  using set_hm_insert_subset [of peer ch ps] by (auto simp: open_all_def list_all_iff)

lemma delivers_send [delivers_intros]: "delivers mg (send peer msg) (\<lambda>q. if q = peer then [msg] else [])"
proof (unfold delivers_def, intro allI impI)
  fix ps :: "(peer_id, peer_channel) hashmap"
  assume ps: "open_all ps"
  show "\<exists>ps'. send peer msg (mg\<lparr>mg_peers := ps\<rparr>) = (mg\<lparr>mg_peers := ps'\<rparr>, Ok ()) \<and> open_all ps' \<and>
      grown ps ps' (\<lambda>q. if q = peer then [msg] else [])"
  proof (cases "hm_get ps peer")
    case None
    with ps show ?thesis
      by (intro exI [of _ ps]) (auto simp: send_def grown_def option.map_ident split: option.splits)
  next
    case (Some ch)
    then have "\<not> pc_closed ch" using ps by (auto simp: open_all_def list_all_iff dest: map_of_SomeD)
    with Some ps show ?thesis
      by (intro exI [of _ "hm_insert peer (ch\<lparr>pc_queue := pc_queue ch @ [msg]\<rparr>) ps"])
        (auto simp: send_def send_on_def grown_def open_all_insert option.map_ident)
  qed
qed

lemma delivers_then [delivers_intros]:
  assumes "delivers mg m f" and "delivers mg n g"
  shows "delivers mg (m_then m n) (\<lambda>q. f q @ g q)"
proof (unfold delivers_def, intro allI impI)
  fix ps :: "(peer_id, peer_channel) hashmap"
  assume "open_all ps"
  with assms(1) obtain ps1 where 1: "m (mg\<lparr>mg_peers := ps\<rparr>) = (mg\<lparr>mg_peers := ps1\<rparr>, Ok ())" "open_all ps1" "grown ps ps1 f"
    by (rule deliversD)
  from assms(2) 1(2) obtain ps2 where 2: "n (mg\<lparr>mg_peers := ps1\<rparr>) = (mg\<lparr>mg_peers := ps2\<rparr>, Ok ())" "open_all ps2" "grown ps1 ps2 g"
    by (rule deliversD)
  have "grown ps ps2 (\<lambda>q. f q @ g q)" using 1(3) 2(3) by (simp add: grown_def option.map_comp comp_def)
  with 1(1) 2(1,2) show "\<exists>ps'. m_then m n (mg\<lparr>mg_peers := ps\<rparr>) = (mg\<lparr>mg_peers := ps'\<rparr>, Ok ()) \<and> open_all ps' \<and>
      grown ps ps' (\<lambda>q. f q @ g q)"
    by (intro exI [of _ ps2]) (simp add: m_then_def m_bind_def)
qed

lemma delivers_each:
  "(\<And>x. x \<in> set xs \<Longrightarrow> delivers mg (m x) (f x)) \<Longrightarrow> delivers mg (m_each m xs) (\<lambda>q. concat (map (\<lambda>x. f x q) xs))"
  by (induction xs) (auto intro: delivers_intros)

lemma delivers_eqI:
  assumes "delivers mg m f" and "\<And>ps. n (mg\<lparr>mg_peers := ps\<rparr>) = m (mg\<lparr>mg_peers := ps\<rparr>)" and "\<And>q. g q = f q"
  shows "delivers mg n g"
proof -
  have "g = f" using assms(3) by (rule ext)
  with assms(1,2) show ?thesis by (simp add: delivers_def)
qed

lemma delivers_send_if:
  "delivers mg (if b then send peer msg else m_return ()) (\<lambda>q. if q = peer \<and> b then [msg] else [])"
  using delivers_send [of mg peer msg] delivers_return [of mg] by (cases b) simp_all

subsection \<open>Answers to live requests\<close>

definition live_answer :: "store \<Rightarrow> channel \<Rightarrow> live_request \<Rightarrow> message list" where
  "live_answer st ch r =
     (case r of
        LiveChannelState req_id req_channel \<Rightarrow>
          if req_channel = ch then [hash_response NO_CIRCUIT req_id (live_state_hashes st ch)] else []
      | LiveChannelTimeRange req_id opts \<Rightarrow>
          (case get_post_hashes st opts of
             Ok stream \<Rightarrow>
               let hashes = time_range_answer (opt_limit opts) stream
               in if opt_channel opts = ch \<and> hashes \<noteq> [] then [hash_response NO_CIRCUIT req_id hashes] else []
           | _ \<Rightarrow> []))"

definition live_of :: "manager \<Rightarrow> peer_id \<Rightarrow> live_request list" where
  "live_of mg peer = (case hm_get (mg_live_requests mg) peer of Some rs \<Rightarrow> rs | None \<Rightarrow> [])"

lemma live_of_open:
  assumes "live_ok mg" and "r \<in> set (live_of mg peer)"
  shows "live_open r"
proof -
  from assms(2) obtain rs where "hm_get (mg_live_requests mg) peer = Some rs" "r \<in> set rs"
    by (cases "hm_get (mg_live_requests mg) peer") (auto simp: live_of_def)
  with live_ok_get [OF assms(1)] show ?thesis by (auto simp: list_all_iff)
qed

lemma channel_entries_open: "opt_time_end opts = 0 \<Longrightarrow> \<exists>es. channel_entries st opts = Ok es"
  by (auto simp: channel_entries_def bt_range_def split: option.split)

lemma delivers_answer:
  assumes "live_open r"
  shows "delivers mg (answer_live_request ch peer r) (\<lambda>q. if q = peer then live_answer (mg_store mg) ch r else [])"
proof (cases r)
  case (LiveChannelState req_id req_channel)
  show ?thesis
    by (rule delivers_eqI [OF delivers_send_if [of mg "req_channel = ch" peer
            "hash_response NO_CIRCUIT req_id (live_state_hashes (mg_store mg) ch)"]])
      (simp_all add: LiveChannelState live_answer_def answer_live_request_def)
next
  case (LiveChannelTimeRange req_id opts)
  obtain es where "channel_entries (mg_store mg) opts = Ok es"
    using channel_entries_open [of opts] assms LiveChannelTimeRange by auto
  then have es: "get_post_hashes (mg_store mg) opts = Ok (map snd es)" by (simp add: get_post_hashes_def)
  let ?hs = "time_range_answer (opt_limit opts) (map snd es)"
  show ?thesis
    by (rule delivers_eqI [OF delivers_send_if [of mg "opt_channel opts = ch \<and> ?hs \<noteq> []" peer
            "hash_response NO_CIRCUIT req_id ?hs"]])
      (simp_all add: LiveChannelTimeRange live_answer_def es answer_live_request_def time_range_hashes_def
        collect_hashes_limit m_bind_def m_lift_def m_return_def m_get_def Let_def)
qed

lemma concat_of_key:
  "hm_wf m \<Longrightarrow> concat (map (\<lambda>(k', v). if k = k' then f v else []) m) = (case hm_get m k of Some v \<Rightarrow> f v | None \<Rightarrow> [])"
proof (induction m)
  case (Cons e m)
  have "concat (map (\<lambda>(k', v). if k = k' then f v else []) m) = []" if "k \<notin> fst ` set m"
    using that by (force simp: concat_eq_Nil_conv)
  with Cons show ?case by (cases e) (auto simp: hm_wf_def image_iff)
qed simp

lemma delivers_send_post_hashes:
  assumes "live_ok mg"
  shows "delivers mg (send_post_hashes ch) (\<lambda>q. concat (map (live_answer (mg_store mg) ch) (live_of mg q)))"
proof -
  let ?a = "live_answer (mg_store mg) ch" and ?m = "\<lambda>(peer, rs). m_each (answer_live_request ch peer) rs"
  have "delivers mg (?m e) (\<lambda>q. case e of (peer, rs) \<Rightarrow> if q = peer then concat (map ?a rs) else [])"
    if "e \<in> set (mg_live_requests mg)" for e
  proof -
    obtain peer rs where e: "e = (peer, rs)" by (cases e)
    with that assms have "list_all live_open rs" by (auto simp: live_ok_def list_all_iff)
    then have "delivers mg (m_each (answer_live_request ch peer) rs)
        (\<lambda>q. concat (map (\<lambda>r. if q = peer then ?a r else []) rs))"
      by (intro delivers_each delivers_answer) (simp add: list_all_iff)
    moreover have "concat (map (\<lambda>r. if q = peer then ?a r else []) rs) = (if q = peer then concat (map ?a rs) else [])" for q
      by simp
    ultimately show ?thesis by (simp add: e)
  qed
  from delivers_each [of "mg_live_requests mg" mg ?m, OF this]
  have d: "delivers mg (m_each ?m (mg_live_requests mg))
      (\<lambda>q. concat (map (\<lambda>(peer, rs). if q = peer then concat (map ?a rs) else []) (mg_live_requests mg)))"
    by (simp add: split_def)
  have wf: "hm_wf (mg_live_requests mg)" using assms by (simp add: live_ok_def)
  show ?thesis
    by (rule delivers_eqI [OF d])
      (simp_all add: send_post_hashes_def m_bind_def m_get_def concat_of_key [OF wf] live_of_def split: option.split)
qed

subsection \<open>Publishing\<close>

definition signed_post :: "crypto \<Rightarrow> manager \<Rightarrow> post \<Rightarrow> post res" where
  "signed_post cr mg p = (if is_signed p then Ok p else post_sign cr p (snd (st_keypair (mg_store mg))))"

text \<open>The channels whose live requests a post concerns: its own channel, or every known channel of which its author
  is a member.\<close>

definition announced :: "store \<Rightarrow> post \<Rightarrow> channel list" where
  "announced st p =
     (case get_channel p of
        Some ch \<Rightarrow> [ch]
      | None \<Rightarrow> filter (\<lambda>ch. is_channel_member st ch (get_public_key p))
                  (case get_channels st of Some channels \<Rightarrow> channels | None \<Rightarrow> []))"

definition announcement :: "store \<Rightarrow> post \<Rightarrow> live_request list \<Rightarrow> message list" where
  "announcement st p rs = concat (map (\<lambda>ch. concat (map (live_answer st ch) rs)) (announced st p))"

lemma concat_map_filter: "concat (map (\<lambda>x. if P x then f x else []) xs) = concat (map f (filter P xs))"
  by (induction xs) simp_all

text \<open>The last step of \<open>publish\<close>.\<close>

definition send_announcement :: "post \<Rightarrow> (manager, unit) action" where
  "send_announcement p =
     (case get_channel p of
        Some ch \<Rightarrow> send_post_hashes ch
      | None \<Rightarrow>
          m_bind (store_get get_channels) (\<lambda>known.
            case known of
              Some channels \<Rightarrow>
                m_each (\<lambda>ch.
                  m_bind (store_get (\<lambda>st. is_channel_member st ch (get_public_key p))) (\<lambda>member.
                    if member then send_post_hashes ch else m_return ())) channels
            | None \<Rightarrow> m_return ()))"

lemma delivers_announcement:
  assumes "live_ok mg"
  shows "delivers mg (send_announcement p) (\<lambda>q. announcement (mg_store mg) p (live_of mg q))"
proof (cases "get_channel p")
  case None
  let ?m = "\<lambda>ch. is_channel_member (mg_store mg) ch (get_public_key p)"
    and ?f = "\<lambda>ch q. concat (map (live_answer (mg_store mg) ch) (live_of mg q))"
  have "delivers mg (if ?m ch then send_post_hashes ch else m_return ()) (\<lambda>q. if ?m ch then ?f ch q else [])" for ch
    using delivers_send_post_hashes [OF assms, of ch] delivers_return [of mg] by (cases "?m ch") simp_all
  then have d: "delivers mg
      (m_bind (store_get (\<lambda>st. is_channel_member st ch (get_public_key p))) (\<lambda>member.
         if member then send_post_hashes ch else m_return ())) (\<lambda>q. if ?m ch then ?f ch q else [])" for ch
    by (rule delivers_eqI) (simp_all add: m_bind_def m_get_def)
  show ?thesis
  proof (cases "get_channels (mg_store mg)")
    case None
    with \<open>get_channel p = None\<close> show ?thesis
      by (intro delivers_eqI [OF delivers_return [of mg]]) (simp_all add: send_announcement_def announcement_def announced_def m_bind_def m_get_def)
  next
    case (Some channels)
    with \<open>get_channel p = None\<close> show ?thesis
      by (intro delivers_eqI [OF delivers_each [OF d, where xs = channels]])
        (simp_all add: send_announcement_def announcement_def announced_def m_bind_def m_get_def concat_map_filter)
  qed
next
  case (Some ch)
  then show ?thesis
    by (intro delivers_eqI [OF delivers_send_post_hashes [OF assms, of ch]]) (simp_all add: send_announcement_def announcement_def announced_def)
qed

lemma publish_announces:
  assumes "live_ok mg" and "open_all (mg_peers mg)" and "signed_post cr mg p = Ok p'"
    and "insert_post cr p' (mg_store mg) = (st, Ok h)"
  obtains ps where "publish cr p mg = (mg\<lparr>mg_store := st, mg_peers := ps\<rparr>, Ok h)"
    and "grown (mg_peers mg) ps (\<lambda>q. announcement st p' (live_of mg q))"
proof -
  let ?mg = "mg\<lparr>mg_store := st\<rparr>"
  have "live_ok ?mg" using assms(1) by (simp add: live_ok_def)
  from deliversD [OF delivers_announcement [OF this, of p'] assms(2)] obtain ps where
    ps: "send_announcement p' (mg\<lparr>mg_store := st, mg_peers := mg_peers mg\<rparr>) = (mg\<lparr>mg_store := st, mg_peers := ps\<rparr>, Ok ())"
    and g: "grown (mg_peers mg) ps (\<lambda>q. announcement st p' (live_of ?mg q))"
    by auto
  have "publish cr p mg =
      m_bind (m_lift (signed_post cr mg p)) (\<lambda>p.
      m_bind (on_store (insert_post cr p)) (\<lambda>h. m_then (send_announcement p) (m_return h))) mg"
    by (simp add: publish_def send_announcement_def signed_post_def m_bind_def m_lift_def m_return_def manager_keys_eq
        del: get_channel.simps)
  also have "\<dots> = (mg\<lparr>mg_store := st, mg_peers := ps\<rparr>, Ok h)"
    using assms(3,4) ps by (simp add: m_bind_def m_then_def m_return_def m_lift_def on_store_def)
  finally have "publish cr p mg = (mg\<lparr>mg_store := st, mg_peers := ps\<rparr>, Ok h)" .
  moreover have "live_of ?mg = live_of mg" by (simp add: live_of_def fun_eq_iff)
  ultimately show thesis using g by (intro that [of ps]) simp_all
qed

lemma queued_grown: "grown (mg_peers mg) (mg_peers mg') f \<Longrightarrow> peer_open mg peer \<Longrightarrow> queued mg' peer = queued mg peer @ f peer"
  by (auto simp: grown_def queued_def peer_open_def split: option.splits)

text \<open>A text post is among the hashes of its channel once it has been inserted.\<close>

lemma insert_text_listed:
  assumes "store_inv cr st" and "insert_post cr p st = (st', Ok h)" and "p_body p = Text ch txt"
    and "channel_entries st' opts = Ok es" and "opt_channel opts = ch" and "in_range opts (get_timestamp p)"
  shows "h \<in> snd ` set es"
proof -
  obtain bs where h: "Cable_Post.post_hash cr p = Ok h" "post_to_bytes p = Ok bs"
    using insert_post_hash [OF assms(2)] by (auto simp: post_hash_eq_Ok)
  have inv: "store_inv cr st'" using insert_post_inv [OF assms(1), of p] assms(2) by simp
  have "st_posts st' = st_posts (update_posts p (Some ch) (get_timestamp p) h st)"
    using insert_post_eq [OF h, of st] assms(2,3)
    by (auto simp: insert_channel_def send_post_to_live_streams_def insert_post_payload_def split: option.split)
  then have "(Some ch, get_timestamp p, p, h) \<in> set (post_entries (st_posts st'))"
    using assms(1) by (simp add: post_entries_update store_inv_def inv_pending_def maps_ok_def posts_ok_def)
  with channel_entries_Ok [OF assms(4), of p h] inv assms(5,6) show ?thesis
    by (force simp: store_inv_def inv_pending_def maps_ok_def)
qed


definition serving :: manager where
  "serving = sample_manager\<lparr>mg_live_requests := [(1, [LiveChannelTimeRange [1, 2, 3, 4] (channel_options_new [100] 3 0 20)])]\<rparr>"


end
