(* ===== verification/Handshake.thy ===== *)
theory Handshake
  imports Rust_State
begin

text \<open>
  \<^verbatim>\<open>handshake/src/lib.rs\<close>, \<^verbatim>\<open>version.rs\<close>, \<^verbatim>\<open>constants.rs\<close>, \<^verbatim>\<open>utils.rs\<close> and the drivers \<^verbatim>\<open>sync/handshake.rs\<close> and
  \<^verbatim>\<open>async_std/handshake.rs\<close>: the exchange of versions and of the three Noise messages.

  The typestate is kept: every state of the source is a datatype of its own and a method takes the one
  state type and returns the other, so a method cannot be called out of order here either. A method that
  writes into a buffer returns the new contents of the buffer.

  The Noise library (\<^verbatim>\<open>snow\<close>) is a parameter: a record of the six operations the source calls, on an
  abstract handshake state \<open>'h\<close> and transport state \<open>'t\<close>.
\<close>

subsection \<open>Version\<close>

record version =
  major :: u8
  minor :: u8

definition version_init :: "u8 \<Rightarrow> u8 \<Rightarrow> version" where
  "version_init a b = \<lparr>major = a, minor = b\<rparr>"

definition version_write_bytes :: "version \<Rightarrow> u8 list \<Rightarrow> (u8 list \<times> nat) res" where
  "version_write_bytes v buf = wr_run [put_slice [major v], put_slice [minor v]] (buf, 0)"

definition version_to_bytes :: "version \<Rightarrow> (u8 list) res" where
  "version_to_bytes v =
     (let buf = replicate 2 0 in and_then (version_write_bytes v buf) (\<lambda>(buf, _). Ok buf))"

definition version_from_bytes :: "u8 list \<Rightarrow> (nat \<times> version) res" where
  "version_from_bytes buf =
     (if length buf < 2 then Panic SliceIndexOutOfRange else Ok (2, version_init (buf ! 0) (buf ! 1)))"

lemma version_to_bytes_eq: "version_to_bytes v = Ok [major v, minor v]"
  by (simp add: version_to_bytes_def version_write_bytes_def numeral_2_eq_2)

lemma version_from_bytes_eq: "version_from_bytes [a, b] = Ok (2, \<lparr>major = a, minor = b\<rparr>)"
  by (simp add: version_from_bytes_def version_init_def)

subsection \<open>Constants and helpers\<close>

definition EPHEMERAL_KEY_BYTES_LEN :: nat where "EPHEMERAL_KEY_BYTES_LEN = 48"
definition EPHEMERAL_AND_STATIC_KEY_BYTES_LEN :: nat where "EPHEMERAL_AND_STATIC_KEY_BYTES_LEN = 96"
definition PUBLIC_KEY_BYTES_LEN :: nat where "PUBLIC_KEY_BYTES_LEN = 32"
definition STATIC_KEY_BYTES_LEN :: nat where "STATIC_KEY_BYTES_LEN = 64"
definition VERSION_BYTES_LEN :: nat where "VERSION_BYTES_LEN = 2"

lemmas byte_lens = EPHEMERAL_KEY_BYTES_LEN_def EPHEMERAL_AND_STATIC_KEY_BYTES_LEN_def PUBLIC_KEY_BYTES_LEN_def
  STATIC_KEY_BYTES_LEN_def VERSION_BYTES_LEN_def

text \<open>\<^verbatim>\<open>concat_into!(dst, x, y, ...)\<close> copies the buffers one behind the other to the start of \<open>dst\<close>.\<close>

definition concat_into :: "u8 list \<Rightarrow> u8 list list \<Rightarrow> (u8 list) res" where
  "concat_into dst xs = and_then (wr_run (map put_slice xs) (dst, 0)) (\<lambda>(dst, _). Ok dst)"

subsection \<open>The Noise library\<close>

datatype role = Initiator | Responder

text \<open>\<open>noise_write\<close> and \<open>noise_read\<close> take the payload or the message and the size of the destination, and return the
  bytes that they leave at its start.\<close>

record ('h, 't) noise =
  noise_build :: "role \<Rightarrow> string \<Rightarrow> u8 list \<Rightarrow> string \<Rightarrow> nat \<times> u8 list \<Rightarrow> 'h res"
  noise_write :: "u8 list \<Rightarrow> nat \<Rightarrow> ('h, u8 list) action"
  noise_read :: "u8 list \<Rightarrow> nat \<Rightarrow> ('h, u8 list) action"
  noise_remote_static :: "'h \<Rightarrow> u8 list option"
  noise_into_transport :: "'h \<Rightarrow> 't res"
  transport_write :: "u8 list \<Rightarrow> nat \<Rightarrow> ('t, u8 list) action"
  transport_read :: "u8 list \<Rightarrow> nat \<Rightarrow> ('t, u8 list) action"

definition noise_params :: string where
  "noise_params = ''Noise_XXpsk0_25519_ChaChaPoly_BLAKE2b''"

definition build_noise_state_machine :: "('h, 't) noise \<Rightarrow> role \<Rightarrow> u8 list \<Rightarrow> u8 list \<Rightarrow> 'h res" where
  "build_noise_state_machine N r psk private_key =
     (case r of
        Initiator \<Rightarrow> noise_build N Initiator noise_params private_key ''CABLE'' (0, psk)
      | Responder \<Rightarrow> noise_build N Responder noise_params private_key ''CABLE'' (0, psk))"

text \<open>A message written by Noise into a local buffer of \<open>cap\<close> bytes, of which the first \<open>len\<close> are copied on.\<close>

definition noise_write_local :: "('h, 't) noise \<Rightarrow> 'h \<Rightarrow> nat \<Rightarrow> ('h \<times> u8 list) res" where
  "noise_write_local N h cap =
     (case noise_write N [] cap h of
        (h', r) \<Rightarrow> and_then r (\<lambda>m. if length m \<le> cap then Ok (h', m) else Panic SliceIndexOutOfRange))"

definition noise_read_local :: "('h, 't) noise \<Rightarrow> 'h \<Rightarrow> u8 list \<Rightarrow> nat \<Rightarrow> 'h res" where
  "noise_read_local N h recv_buf cap =
     (case noise_read N recv_buf cap h of (h', r) \<Rightarrow> and_then r (\<lambda>_. Ok h'))"

text \<open>\<^verbatim>\<open>match state.get_remote_static() { Some(key) => Some(key.try_into()?), None => None }\<close>\<close>

definition remote_static_key :: "('h, 't) noise \<Rightarrow> 'h \<Rightarrow> (u8 list option) res" where
  "remote_static_key N h =
     (case noise_remote_static N h of
        Some key \<Rightarrow> if length key = PUBLIC_KEY_BYTES_LEN then Ok (Some key) else Err TryFromSliceError
      | None \<Rightarrow> Ok None)"

subsection \<open>The states\<close>

record handshake_base =
  hb_version :: version
  hb_psk :: "u8 list"
  hb_private_key :: "u8 list"
  hb_remote_public_key :: "u8 list option"

record 's handshake =
  hs_base :: handshake_base
  hs_state :: 's

datatype client_send_version = ClientSendVersion
datatype client_recv_version = ClientRecvVersion
datatype client_build_noise_state_machine = ClientBuildNoiseStateMachine
datatype 'h client_send_ephemeral_key = ClientSendEphemeralKey 'h
datatype 'h client_recv_ephemeral_and_static_key = ClientRecvEphemeralAndStaticKey 'h
datatype 'h client_send_static_key = ClientSendStaticKey 'h
datatype 'h client_init_transport_mode = ClientInitTransportMode 'h
datatype server_recv_version = ServerRecvVersion
datatype server_send_version = ServerSendVersion
datatype server_build_noise_state_machine = ServerBuildNoiseStateMachine
datatype 'h server_recv_ephemeral_key = ServerRecvEphemeralKey 'h
datatype 'h server_send_ephemeral_and_static_key = ServerSendEphemeralAndStaticKey 'h
datatype 'h server_recv_static_key = ServerRecvStaticKey 'h
datatype 'h server_init_transport_mode = ServerInitTransportMode 'h
datatype 't handshake_complete = HandshakeComplete (transport: 't)

definition handshake_base_new :: "version \<Rightarrow> u8 list \<Rightarrow> u8 list \<Rightarrow> handshake_base" where
  "handshake_base_new v psk private_key =
     \<lparr>hb_version = v, hb_psk = psk, hb_private_key = private_key, hb_remote_public_key = None\<rparr>"

subsection \<open>The client\<close>

definition new_client :: "version \<Rightarrow> u8 list \<Rightarrow> u8 list \<Rightarrow> client_send_version handshake" where
  "new_client v psk private_key = \<lparr>hs_base = handshake_base_new v psk private_key, hs_state = ClientSendVersion\<rparr>"

definition send_client_version ::
  "client_send_version handshake \<Rightarrow> u8 list \<Rightarrow> (u8 list \<times> client_recv_version handshake) res" where
  "send_client_version hs send_buf =
     and_then (version_to_bytes (hb_version (hs_base hs))) (\<lambda>bs.
     and_then (concat_into send_buf [bs]) (\<lambda>send_buf.
     Ok (send_buf, \<lparr>hs_base = hs_base hs, hs_state = ClientRecvVersion\<rparr>)))"

definition recv_server_version ::
  "client_recv_version handshake \<Rightarrow> u8 list \<Rightarrow> (client_build_noise_state_machine handshake) res" where
  "recv_server_version hs recv_buf =
     and_then (version_from_bytes recv_buf) (\<lambda>(_, server_version).
       if major server_version \<noteq> major (hb_version (hs_base hs))
       then Err (HandshakeError (IncompatibleServerVersion (major server_version) (major (hb_version (hs_base hs)))))
       else Ok \<lparr>hs_base = hs_base hs, hs_state = ClientBuildNoiseStateMachine\<rparr>)"

definition build_client_noise_state_machine ::
  "('h, 't) noise \<Rightarrow> client_build_noise_state_machine handshake \<Rightarrow> ('h client_send_ephemeral_key handshake) res" where
  "build_client_noise_state_machine N hs =
     and_then (build_noise_state_machine N Initiator (hb_psk (hs_base hs)) (hb_private_key (hs_base hs))) (\<lambda>h.
     Ok \<lparr>hs_base = hs_base hs, hs_state = ClientSendEphemeralKey h\<rparr>)"

definition send_client_ephemeral_key ::
  "('h, 't) noise \<Rightarrow> 'h client_send_ephemeral_key handshake \<Rightarrow> u8 list \<Rightarrow>
     (u8 list \<times> 'h client_recv_ephemeral_and_static_key handshake) res" where
  "send_client_ephemeral_key N hs send_buf =
     (case hs_state hs of ClientSendEphemeralKey h \<Rightarrow>
        and_then (noise_write_local N h EPHEMERAL_KEY_BYTES_LEN) (\<lambda>(h, m).
        and_then (concat_into send_buf [m]) (\<lambda>send_buf.
        Ok (send_buf, \<lparr>hs_base = hs_base hs, hs_state = ClientRecvEphemeralAndStaticKey h\<rparr>))))"

definition recv_server_ephemeral_and_static_key ::
  "('h, 't) noise \<Rightarrow> 'h client_recv_ephemeral_and_static_key handshake \<Rightarrow> u8 list \<Rightarrow>
     ('h client_send_static_key handshake) res" where
  "recv_server_ephemeral_and_static_key N hs recv_buf =
     (case hs_state hs of ClientRecvEphemeralAndStaticKey h \<Rightarrow>
        and_then (noise_read_local N h recv_buf EPHEMERAL_AND_STATIC_KEY_BYTES_LEN) (\<lambda>h.
        and_then (remote_static_key N h) (\<lambda>key.
        Ok \<lparr>hs_base = (hs_base hs)\<lparr>hb_remote_public_key := key\<rparr>, hs_state = ClientSendStaticKey h\<rparr>)))"

definition send_client_static_key ::
  "('h, 't) noise \<Rightarrow> 'h client_send_static_key handshake \<Rightarrow> u8 list \<Rightarrow>
     (u8 list \<times> 'h client_init_transport_mode handshake) res" where
  "send_client_static_key N hs send_buf =
     (case hs_state hs of ClientSendStaticKey h \<Rightarrow>
        and_then (noise_write_local N h STATIC_KEY_BYTES_LEN) (\<lambda>(h, m).
        and_then (concat_into send_buf [m]) (\<lambda>send_buf.
        Ok (send_buf, \<lparr>hs_base = hs_base hs, hs_state = ClientInitTransportMode h\<rparr>))))"

definition init_client_transport_mode ::
  "('h, 't) noise \<Rightarrow> 'h client_init_transport_mode handshake \<Rightarrow> ('t handshake_complete handshake) res" where
  "init_client_transport_mode N hs =
     (case hs_state hs of ClientInitTransportMode h \<Rightarrow>
        and_then (noise_into_transport N h) (\<lambda>t. Ok \<lparr>hs_base = hs_base hs, hs_state = HandshakeComplete t\<rparr>))"

subsection \<open>The server\<close>

definition new_server :: "version \<Rightarrow> u8 list \<Rightarrow> u8 list \<Rightarrow> server_recv_version handshake" where
  "new_server v psk private_key = \<lparr>hs_base = handshake_base_new v psk private_key, hs_state = ServerRecvVersion\<rparr>"

text \<open>A different major version is only logged.\<close>

definition recv_client_version ::
  "server_recv_version handshake \<Rightarrow> u8 list \<Rightarrow> (server_send_version handshake) res" where
  "recv_client_version hs recv_buf =
     and_then (version_from_bytes recv_buf) (\<lambda>_. Ok \<lparr>hs_base = hs_base hs, hs_state = ServerSendVersion\<rparr>)"

definition send_server_version ::
  "server_send_version handshake \<Rightarrow> u8 list \<Rightarrow> (u8 list \<times> server_build_noise_state_machine handshake) res" where
  "send_server_version hs send_buf =
     and_then (version_to_bytes (hb_version (hs_base hs))) (\<lambda>bs.
     and_then (concat_into send_buf [bs]) (\<lambda>send_buf.
     Ok (send_buf, \<lparr>hs_base = hs_base hs, hs_state = ServerBuildNoiseStateMachine\<rparr>)))"

definition build_server_noise_state_machine ::
  "('h, 't) noise \<Rightarrow> server_build_noise_state_machine handshake \<Rightarrow> ('h server_recv_ephemeral_key handshake) res" where
  "build_server_noise_state_machine N hs =
     and_then (build_noise_state_machine N Responder (hb_psk (hs_base hs)) (hb_private_key (hs_base hs))) (\<lambda>h.
     Ok \<lparr>hs_base = hs_base hs, hs_state = ServerRecvEphemeralKey h\<rparr>)"

definition recv_client_ephemeral_key ::
  "('h, 't) noise \<Rightarrow> 'h server_recv_ephemeral_key handshake \<Rightarrow> u8 list \<Rightarrow>
     ('h server_send_ephemeral_and_static_key handshake) res" where
  "recv_client_ephemeral_key N hs recv_buf =
     (case hs_state hs of ServerRecvEphemeralKey h \<Rightarrow>
        and_then (noise_read_local N h recv_buf 1024) (\<lambda>h.
        Ok \<lparr>hs_base = hs_base hs, hs_state = ServerSendEphemeralAndStaticKey h\<rparr>))"

definition send_server_ephemeral_and_static_key ::
  "('h, 't) noise \<Rightarrow> 'h server_send_ephemeral_and_static_key handshake \<Rightarrow> u8 list \<Rightarrow>
     (u8 list \<times> 'h server_recv_static_key handshake) res" where
  "send_server_ephemeral_and_static_key N hs send_buf =
     (case hs_state hs of ServerSendEphemeralAndStaticKey h \<Rightarrow>
        and_then (noise_write_local N h 1024) (\<lambda>(h, m).
        and_then (concat_into send_buf [m]) (\<lambda>send_buf.
        Ok (send_buf, \<lparr>hs_base = hs_base hs, hs_state = ServerRecvStaticKey h\<rparr>))))"

definition recv_client_static_key ::
  "('h, 't) noise \<Rightarrow> 'h server_recv_static_key handshake \<Rightarrow> u8 list \<Rightarrow>
     ('h server_init_transport_mode handshake) res" where
  "recv_client_static_key N hs recv_buf =
     (case hs_state hs of ServerRecvStaticKey h \<Rightarrow>
        and_then (noise_read_local N h recv_buf 1024) (\<lambda>h.
        and_then (remote_static_key N h) (\<lambda>key.
        Ok \<lparr>hs_base = (hs_base hs)\<lparr>hb_remote_public_key := key\<rparr>, hs_state = ServerInitTransportMode h\<rparr>)))"

definition init_server_transport_mode ::
  "('h, 't) noise \<Rightarrow> 'h server_init_transport_mode handshake \<Rightarrow> ('t handshake_complete handshake) res" where
  "init_server_transport_mode N hs =
     (case hs_state hs of ServerInitTransportMode h \<Rightarrow>
        and_then (noise_into_transport N h) (\<lambda>t. Ok \<lparr>hs_base = hs_base hs, hs_state = HandshakeComplete t\<rparr>))"

subsection \<open>Programs on a stream\<close>

text \<open>The drivers only write whole buffers and read fixed numbers of bytes. A program is the tree of its possible
  continuations; what it does is given by the steps of the two ends of a connection below.\<close>

datatype 'a proc =
    Return "'a res"
  | WriteAll "u8 list" "'a proc"
  | ReadExact nat "u8 list \<Rightarrow> 'a proc"

text \<open>\<^verbatim>\<open>let x = r?;\<close>\<close>

definition p_try :: "'a res \<Rightarrow> ('a \<Rightarrow> 'b proc) \<Rightarrow> 'b proc" where
  "p_try r f = (case r of Ok x \<Rightarrow> f x | Err e \<Rightarrow> Return (Err e) | Panic p \<Rightarrow> Return (Panic p))"

lemma p_try_simps [simp]:
  "p_try (Ok x) f = f x"
  "p_try (Err e) f = Return (Err e)"
  "p_try (Panic p) f = Return (Panic p)"
  by (simp_all add: p_try_def)

text \<open>\<^verbatim>\<open>let send_buf = &mut buf[..n]; let hs = step(send_buf)?; stream.write_all(send_buf)?;\<close> and
  \<^verbatim>\<open>let recv_buf = &mut buf[..n]; stream.read_exact(recv_buf)?; let hs = step(recv_buf)?;\<close> The buffer is shared by all
  steps of a driver.\<close>

definition send_step :: "nat \<Rightarrow> u8 list \<Rightarrow> (u8 list \<Rightarrow> (u8 list \<times> 's) res) \<Rightarrow> (u8 list \<Rightarrow> 's \<Rightarrow> 'b proc) \<Rightarrow> 'b proc" where
  "send_step n buf step k =
     p_try (slice buf 0 n) (\<lambda>send_buf.
     p_try (step send_buf) (\<lambda>(send_buf, hs).
     WriteAll send_buf (k (send_buf @ drop n buf) hs)))"

definition recv_step :: "nat \<Rightarrow> u8 list \<Rightarrow> (u8 list \<Rightarrow> 's res) \<Rightarrow> (u8 list \<Rightarrow> 's \<Rightarrow> 'b proc) \<Rightarrow> 'b proc" where
  "recv_step n buf step k =
     p_try (slice buf 0 n) (\<lambda>_.
     ReadExact n (\<lambda>recv_buf. p_try (step recv_buf) (k (recv_buf @ drop n buf))))"

definition client :: "('h, 't) noise \<Rightarrow> version \<Rightarrow> u8 list \<Rightarrow> u8 list \<Rightarrow> ('t handshake_complete handshake) proc" where
  "client N v psk private_key =
     (let buf = replicate 256 0; hs = new_client v psk private_key
      in send_step VERSION_BYTES_LEN buf (send_client_version hs) (\<lambda>buf hs.
         recv_step VERSION_BYTES_LEN buf (recv_server_version hs) (\<lambda>buf hs.
         p_try (build_client_noise_state_machine N hs) (\<lambda>hs.
         send_step EPHEMERAL_KEY_BYTES_LEN buf (send_client_ephemeral_key N hs) (\<lambda>buf hs.
         recv_step EPHEMERAL_AND_STATIC_KEY_BYTES_LEN buf (recv_server_ephemeral_and_static_key N hs) (\<lambda>buf hs.
         send_step STATIC_KEY_BYTES_LEN buf (send_client_static_key N hs) (\<lambda>_ hs.
         Return (init_client_transport_mode N hs))))))))"

definition server :: "('h, 't) noise \<Rightarrow> version \<Rightarrow> u8 list \<Rightarrow> u8 list \<Rightarrow> ('t handshake_complete handshake) proc" where
  "server N v psk private_key =
     (let buf = replicate 256 0; hs = new_server v psk private_key
      in recv_step VERSION_BYTES_LEN buf (recv_client_version hs) (\<lambda>buf hs.
         send_step VERSION_BYTES_LEN buf (send_server_version hs) (\<lambda>buf hs.
         p_try (build_server_noise_state_machine N hs) (\<lambda>hs.
         recv_step EPHEMERAL_KEY_BYTES_LEN buf (recv_client_ephemeral_key N hs) (\<lambda>buf hs.
         send_step EPHEMERAL_AND_STATIC_KEY_BYTES_LEN buf (send_server_ephemeral_and_static_key N hs) (\<lambda>buf hs.
         recv_step STATIC_KEY_BYTES_LEN buf (recv_client_static_key N hs) (\<lambda>_ hs.
         Return (init_server_transport_mode N hs))))))))"

text \<open>The asynchronous drivers have the same text with \<^verbatim>\<open>.await\<close> behind every read and write.\<close>

definition async_client :: "('h, 't) noise \<Rightarrow> version \<Rightarrow> u8 list \<Rightarrow> u8 list \<Rightarrow> ('t handshake_complete handshake) proc" where
  "async_client = client"

definition async_server :: "('h, 't) noise \<Rightarrow> version \<Rightarrow> u8 list \<Rightarrow> u8 list \<Rightarrow> ('t handshake_complete handshake) proc" where
  "async_server = server"

subsection \<open>Two ends of a connection\<close>

text \<open>The two programs and the bytes that are on their way to each of them. Writes are buffered by the connection; a
  read waits for its bytes, and fails when they are missing and the other end has returned, which closes
  the connection.\<close>

record ('a, 'b) system =
  left_proc :: "'a proc"
  right_proc :: "'b proc"
  to_left :: "u8 list"
  to_right :: "u8 list"

fun returned :: "'a proc \<Rightarrow> bool" where
  "returned (Return _) \<longleftrightarrow> True"
| "returned _ \<longleftrightarrow> False"

definition left_next :: "('a, 'b) system \<Rightarrow> ('a, 'b) system option" where
  "left_next s =
     (case left_proc s of
        Return _ \<Rightarrow> None
      | WriteAll bs p \<Rightarrow> Some (s\<lparr>left_proc := p, to_right := to_right s @ bs\<rparr>)
      | ReadExact n k \<Rightarrow>
          if n \<le> length (to_left s) then Some (s\<lparr>left_proc := k (take n (to_left s)), to_left := drop n (to_left s)\<rparr>)
          else if returned (right_proc s) then Some (s\<lparr>left_proc := Return (Err IoError)\<rparr>)
          else None)"

definition right_next :: "('a, 'b) system \<Rightarrow> ('a, 'b) system option" where
  "right_next s =
     (case right_proc s of
        Return _ \<Rightarrow> None
      | WriteAll bs p \<Rightarrow> Some (s\<lparr>right_proc := p, to_left := to_left s @ bs\<rparr>)
      | ReadExact n k \<Rightarrow>
          if n \<le> length (to_right s) then Some (s\<lparr>right_proc := k (take n (to_right s)), to_right := drop n (to_right s)\<rparr>)
          else if returned (left_proc s) then Some (s\<lparr>right_proc := Return (Err IoError)\<rparr>)
          else None)"

inductive sys_step :: "('a, 'b) system \<Rightarrow> ('a, 'b) system \<Rightarrow> bool" where
  left: "left_next s = Some s' \<Longrightarrow> sys_step s s'"
| right: "right_next s = Some s' \<Longrightarrow> sys_step s s'"

inductive_simps sys_step_iff: "sys_step s s'"

inductive runs :: "nat \<Rightarrow> ('a, 'b) system \<Rightarrow> ('a, 'b) system \<Rightarrow> bool" where
  runs_refl: "runs 0 s s"
| runs_step: "sys_step s s' \<Longrightarrow> runs n s' s'' \<Longrightarrow> runs (Suc n) s s''"

inductive_cases runs_0E: "runs 0 s s'"
inductive_cases runs_SucE: "runs (Suc n) s s'"

definition connect :: "'a proc \<Rightarrow> 'b proc \<Rightarrow> ('a, 'b) system" where
  "connect p q = \<lparr>left_proc = p, right_proc = q, to_left = [], to_right = []\<rparr>"

definition finished :: "('a, 'b) system \<Rightarrow> bool" where
  "finished s \<longleftrightarrow> returned (left_proc s) \<and> returned (right_proc s)"

text \<open>The order in which the two ends make their steps does not matter: every run reaches the same end in the same
  number of steps.\<close>

lemma left_next_simps [simp]:
  "left_next \<lparr>left_proc = Return r, right_proc = q, to_left = x, to_right = y\<rparr> = None"
  "left_next \<lparr>left_proc = WriteAll bs p, right_proc = q, to_left = x, to_right = y\<rparr> =
     Some \<lparr>left_proc = p, right_proc = q, to_left = x, to_right = y @ bs\<rparr>"
  "left_next \<lparr>left_proc = ReadExact n k, right_proc = q, to_left = x, to_right = y\<rparr> =
     (if n \<le> length x then Some \<lparr>left_proc = k (take n x), right_proc = q, to_left = drop n x, to_right = y\<rparr>
      else if returned q then Some \<lparr>left_proc = Return (Err IoError), right_proc = q, to_left = x, to_right = y\<rparr>
      else None)"
  by (simp_all add: left_next_def)

lemma right_next_simps [simp]:
  "right_next \<lparr>left_proc = p, right_proc = Return r, to_left = x, to_right = y\<rparr> = None"
  "right_next \<lparr>left_proc = p, right_proc = WriteAll bs q, to_left = x, to_right = y\<rparr> =
     Some \<lparr>left_proc = p, right_proc = q, to_left = x @ bs, to_right = y\<rparr>"
  "right_next \<lparr>left_proc = p, right_proc = ReadExact n k, to_left = x, to_right = y\<rparr> =
     (if n \<le> length y then Some \<lparr>left_proc = p, right_proc = k (take n y), to_left = x, to_right = drop n y\<rparr>
      else if returned p then Some \<lparr>left_proc = p, right_proc = Return (Err IoError), to_left = x, to_right = y\<rparr>
      else None)"
  by (simp_all add: right_next_def)

lemma next_commute:
  assumes "left_next s = Some a" and "right_next s = Some b"
  shows "\<exists>c. right_next a = Some c \<and> left_next b = Some c"
proof (cases s)
  case (fields p q x y)
  from assms show ?thesis
    unfolding fields
    by (cases p; cases q; clarsimp split: if_split_asm)
qed

lemma sys_step_diamond:
  assumes "sys_step s a" and "sys_step s b"
  shows "a = b \<or> (\<exists>c. sys_step a c \<and> sys_step b c)"
proof -
  from assms have "left_next s = Some a \<or> right_next s = Some a" and "left_next s = Some b \<or> right_next s = Some b"
    unfolding sys_step_iff .
  then consider "a = b" | "left_next s = Some a" "right_next s = Some b" | "left_next s = Some b" "right_next s = Some a"
    by fastforce
  then show ?thesis
    using next_commute [of s a b] next_commute [of s b a] by cases (blast intro: sys_step.intros)+
qed

lemma finished_stuck: "finished s \<Longrightarrow> \<not> sys_step s s'"
  unfolding sys_step_iff finished_def
  by (cases "left_proc s"; cases "right_proc s"; simp add: left_next_def right_next_def)

lemma runs_after_step:
  "runs n s t \<Longrightarrow> finished t \<Longrightarrow> sys_step s u \<Longrightarrow> \<exists>m. n = Suc m \<and> runs m u t"
proof (induction n arbitrary: s u)
  case 0
  then show ?case by (auto elim: runs_0E dest: finished_stuck)
next
  case (Suc n)
  from Suc.prems(1) obtain s' where s': "sys_step s s'" "runs n s' t" by (rule runs_SucE)
  from sys_step_diamond [OF s'(1) Suc.prems(3)] show ?case
  proof
    assume "\<exists>c. sys_step s' c \<and> sys_step u c"
    then obtain c where c: "sys_step s' c" "sys_step u c" by auto
    from Suc.IH [OF s'(2) Suc.prems(2) c(1)] obtain m where "n = Suc m" "runs m c t" by auto
    with c(2) show ?thesis by (auto intro: runs_step)
  qed (use s'(2) in auto)
qed

lemma runs_unique:
  "runs k s u \<Longrightarrow> runs n s t \<Longrightarrow> finished t \<Longrightarrow> k \<le> n \<and> runs (n - k) u t"
proof (induction k s u arbitrary: n rule: runs.induct)
  case (runs_step s s' k u)
  from runs_after_step [OF runs_step.prems runs_step.hyps(1)] obtain m where "n = Suc m" "runs m s' t" by auto
  with runs_step.IH [of m] runs_step.prems(2) show ?case by auto
qed simp

end
