(* ===== verification/Handshake_Props.thy ===== *)
theory Handshake_Props
  imports Handshake
begin

text \<open>
  The handshake as a whole: a client and a server at the two ends of a connection, with any interleaving
  of their reads and writes.
\<close>

text \<open>What is used of the Noise library: with one pre-shared key on both sides, the three messages of the pattern XX with
  empty payloads have 48, 96 and 64 bytes, each is accepted by the other side, the static keys that the
  two sides then report are those of each other, and both sides can switch to their transport states.\<close>

definition noise_session ::
  "('h, 't) noise \<Rightarrow> u8 list \<Rightarrow> u8 list \<Rightarrow> u8 list \<Rightarrow> u8 list \<Rightarrow> u8 list \<Rightarrow> 't \<Rightarrow> 't \<Rightarrow> bool" where
  "noise_session N psk client_key server_key client_public server_public client_transport server_transport \<longleftrightarrow>
     length client_public = 32 \<and> length server_public = 32 \<and>
     (\<exists>i0 i1 i2 i3 r0 r1 r2 r3 m1 m2 m3 p1 p2 p3.
        build_noise_state_machine N Initiator psk client_key = Ok i0 \<and>
        build_noise_state_machine N Responder psk server_key = Ok r0 \<and>
        noise_write N [] 48 i0 = (i1, Ok m1) \<and> length m1 = 48 \<and> noise_read N m1 1024 r0 = (r1, Ok p1) \<and>
        noise_write N [] 1024 r1 = (r2, Ok m2) \<and> length m2 = 96 \<and> noise_read N m2 96 i1 = (i2, Ok p2) \<and>
        noise_remote_static N i2 = Some server_public \<and>
        noise_write N [] 64 i2 = (i3, Ok m3) \<and> length m3 = 64 \<and> noise_read N m3 1024 r2 = (r3, Ok p3) \<and>
        noise_remote_static N r3 = Some client_public \<and>
        noise_into_transport N i3 = Ok client_transport \<and> noise_into_transport N r3 = Ok server_transport)"

definition completed :: "version \<Rightarrow> u8 list \<Rightarrow> u8 list \<Rightarrow> u8 list \<Rightarrow> 't \<Rightarrow> ('t handshake_complete handshake) proc" where
  "completed v psk private_key remote t =
     Return (Ok \<lparr>hs_base = \<lparr>hb_version = v, hb_psk = psk, hb_private_key = private_key, hb_remote_public_key = Some remote\<rparr>,
                 hs_state = HandshakeComplete t\<rparr>)"

lemma concat_into_whole: "length m = length dst \<Longrightarrow> concat_into dst [m] = Ok m"
  by (simp add: concat_into_def)

lemma slice_buf: "n \<le> length buf \<Longrightarrow> slice buf 0 n = (Ok (take n buf) :: (u8 list) res)"
  by (simp add: Rust_Prelude.slice_def)

text \<open>A step of a driver that succeeds is one write, or one read.\<close>

lemma send_step_Ok:
  assumes "n \<le> length buf" and "\<And>b. length b = n \<Longrightarrow> step b = Ok (m, hs)"
  shows "send_step n buf step k = WriteAll m (k (m @ drop n buf) hs)"
  using assms by (simp add: send_step_def slice_buf)

lemma recv_step_eq:
  "n \<le> length buf \<Longrightarrow> recv_step n buf step k = ReadExact n (\<lambda>b. p_try (step b) (k (b @ drop n buf)))"
  by (simp add: recv_step_def slice_buf)

lemma runs_left: "left_next s = Some s' \<Longrightarrow> runs n s' t \<Longrightarrow> runs (Suc n) s t"
  by (blast intro: runs_step sys_step.left)

lemma runs_right: "right_next s = Some s' \<Longrightarrow> runs n s' t \<Longrightarrow> runs (Suc n) s t"
  by (blast intro: runs_step sys_step.right)

lemmas handshake_steps =
  send_client_version_def recv_server_version_def build_client_noise_state_machine_def send_client_ephemeral_key_def
  recv_server_ephemeral_and_static_key_def send_client_static_key_def init_client_transport_mode_def
  recv_client_version_def send_server_version_def build_server_noise_state_machine_def recv_client_ephemeral_key_def
  send_server_ephemeral_and_static_key_def recv_client_static_key_def init_server_transport_mode_def
  new_client_def new_server_def handshake_base_new_def
  version_to_bytes_eq version_from_bytes_eq concat_into_whole noise_write_local_def noise_read_local_def
  remote_static_key_def byte_lens

text \<open>The common start of every run: the exchange of the versions.\<close>

definition client_after_version :: "('h, 't) noise \<Rightarrow> version \<Rightarrow> u8 list \<Rightarrow> u8 list \<Rightarrow> version \<Rightarrow> ('t handshake_complete handshake) proc" where
  "client_after_version N v psk key sv =
     p_try (recv_server_version \<lparr>hs_base = handshake_base_new v psk key, hs_state = ClientRecvVersion\<rparr> [major sv, minor sv]) (\<lambda>hs.
     p_try (build_client_noise_state_machine N hs) (\<lambda>hs.
     send_step EPHEMERAL_KEY_BYTES_LEN ([major sv, minor sv] @ replicate 254 0) (send_client_ephemeral_key N hs) (\<lambda>buf hs.
     recv_step EPHEMERAL_AND_STATIC_KEY_BYTES_LEN buf (recv_server_ephemeral_and_static_key N hs) (\<lambda>buf hs.
     send_step STATIC_KEY_BYTES_LEN buf (send_client_static_key N hs) (\<lambda>_ hs.
     Return (init_client_transport_mode N hs))))))"

definition server_after_version :: "('h, 't) noise \<Rightarrow> version \<Rightarrow> u8 list \<Rightarrow> u8 list \<Rightarrow> ('t handshake_complete handshake) proc" where
  "server_after_version N v psk key =
     p_try (build_server_noise_state_machine N \<lparr>hs_base = handshake_base_new v psk key, hs_state = ServerBuildNoiseStateMachine\<rparr>) (\<lambda>hs.
     recv_step EPHEMERAL_KEY_BYTES_LEN ([major v, minor v] @ replicate 254 0) (recv_client_ephemeral_key N hs) (\<lambda>buf hs.
     send_step EPHEMERAL_AND_STATIC_KEY_BYTES_LEN buf (send_server_ephemeral_and_static_key N hs) (\<lambda>buf hs.
     recv_step STATIC_KEY_BYTES_LEN buf (recv_client_static_key N hs) (\<lambda>_ hs.
     Return (init_server_transport_mode N hs)))))"

lemma version_exchange:
  assumes "runs n \<lparr>left_proc = client_after_version N vc psk kc vs, right_proc = server_after_version N vs psk' ks,
                   to_left = [], to_right = []\<rparr> t"
  shows "runs (4 + n) (connect (client N vc psk kc) (server N vs psk' ks)) t"
proof -
  have c: "send_client_version (new_client vc psk kc) b =
      Ok ([major vc, minor vc], \<lparr>hs_base = handshake_base_new vc psk kc, hs_state = ClientRecvVersion\<rparr>)"
    if "length b = VERSION_BYTES_LEN" for b
    using that by (simp add: handshake_steps)
  have s: "recv_client_version (new_server vs psk' ks) [major vc, minor vc] =
      Ok \<lparr>hs_base = handshake_base_new vs psk' ks, hs_state = ServerSendVersion\<rparr>"
    by (simp add: handshake_steps)
  have s': "send_server_version \<lparr>hs_base = handshake_base_new vs psk' ks, hs_state = ServerSendVersion\<rparr> b =
      Ok ([major vs, minor vs], \<lparr>hs_base = handshake_base_new vs psk' ks, hs_state = ServerBuildNoiseStateMachine\<rparr>)"
    if "length b = VERSION_BYTES_LEN" for b
    using that by (simp add: handshake_steps)
  have "runs (Suc (Suc (Suc (Suc n)))) (connect (client N vc psk kc) (server N vs psk' ks)) t"
    unfolding connect_def client_def server_def Let_def
    apply (subst send_step_Ok [OF _ c]; simp add: byte_lens recv_step_eq)
    apply (rule runs_left, simp)
    apply (rule runs_right, simp)
    apply (simp add: s [simplified] send_step_Ok [OF _ s'] byte_lens)
    apply (rule runs_right, simp)
    apply (rule runs_left, simp)
    using assms by (simp add: client_after_version_def server_after_version_def byte_lens)
  then show ?thesis by (simp add: eval_nat_numeral)
qed

lemma key_exchange:
  assumes "noise_session N psk kc ks pc ps tc ts" and "major vc = major vs"
  shows "runs 6 \<lparr>left_proc = client_after_version N vc psk kc vs, right_proc = server_after_version N vs psk ks,
                  to_left = [], to_right = []\<rparr>
     \<lparr>left_proc = completed vc psk kc ps tc, right_proc = completed vs psk ks pc ts, to_left = [], to_right = []\<rparr>"
proof -
  from assms(1) obtain i0 i1 i2 i3 r0 r1 r2 r3 m1 m2 m3 p1 p2 p3 where
    n: "build_noise_state_machine N Initiator psk kc = Ok i0" "build_noise_state_machine N Responder psk ks = Ok r0"
      "noise_write N [] 48 i0 = (i1, Ok m1)" "noise_read N m1 1024 r0 = (r1, Ok p1)"
      "noise_write N [] 1024 r1 = (r2, Ok m2)" "noise_read N m2 96 i1 = (i2, Ok p2)"
      "noise_remote_static N i2 = Some ps" "noise_write N [] 64 i2 = (i3, Ok m3)"
      "noise_read N m3 1024 r2 = (r3, Ok p3)" "noise_remote_static N r3 = Some pc"
      "noise_into_transport N i3 = Ok tc" "noise_into_transport N r3 = Ok ts"
    and l: "length pc = 32" "length ps = 32" "length m1 = 48" "length m2 = 96" "length m3 = 64"
    by (auto simp: noise_session_def)
  let ?b = "\<lambda>v k r. \<lparr>hb_version = v, hb_psk = psk, hb_private_key = k, hb_remote_public_key = r\<rparr>"
  have s1: "send_client_ephemeral_key N \<lparr>hs_base = ?b vc kc None, hs_state = ClientSendEphemeralKey i0\<rparr> b =
      Ok (m1, \<lparr>hs_base = ?b vc kc None, hs_state = ClientRecvEphemeralAndStaticKey i1\<rparr>)" if "length b = 48" for b
    using that n l by (simp add: handshake_steps)
  have s2: "send_server_ephemeral_and_static_key N \<lparr>hs_base = ?b vs ks None, hs_state = ServerSendEphemeralAndStaticKey r1\<rparr> b =
      Ok (m2, \<lparr>hs_base = ?b vs ks None, hs_state = ServerRecvStaticKey r2\<rparr>)" if "length b = 96" for b
    using that n l by (simp add: handshake_steps)
  have s3: "send_client_static_key N \<lparr>hs_base = ?b vc kc (Some ps), hs_state = ClientSendStaticKey i2\<rparr> b =
      Ok (m3, \<lparr>hs_base = ?b vc kc (Some ps), hs_state = ClientInitTransportMode i3\<rparr>)" if "length b = 64" for b
    using that n l by (simp add: handshake_steps)
  have r1: "recv_client_ephemeral_key N \<lparr>hs_base = ?b vs ks None, hs_state = ServerRecvEphemeralKey r0\<rparr> m1 =
      Ok \<lparr>hs_base = ?b vs ks None, hs_state = ServerSendEphemeralAndStaticKey r1\<rparr>"
    using n by (simp add: handshake_steps)
  have r2: "recv_server_ephemeral_and_static_key N \<lparr>hs_base = ?b vc kc None, hs_state = ClientRecvEphemeralAndStaticKey i1\<rparr> m2 =
      Ok \<lparr>hs_base = ?b vc kc (Some ps), hs_state = ClientSendStaticKey i2\<rparr>"
    using n l by (simp add: handshake_steps)
  have r3: "recv_client_static_key N \<lparr>hs_base = ?b vs ks None, hs_state = ServerRecvStaticKey r2\<rparr> m3 =
      Ok \<lparr>hs_base = ?b vs ks (Some pc), hs_state = ServerInitTransportMode r3\<rparr>"
    using n l by (simp add: handshake_steps)
  have c: "client_after_version N vc psk kc vs =
      WriteAll m1 (ReadExact 96 (\<lambda>b. p_try (recv_server_ephemeral_and_static_key N
        \<lparr>hs_base = ?b vc kc None, hs_state = ClientRecvEphemeralAndStaticKey i1\<rparr> b) (\<lambda>hs.
          send_step STATIC_KEY_BYTES_LEN (b @ replicate 160 0) (send_client_static_key N hs) (\<lambda>_ hs.
          Return (init_client_transport_mode N hs)))))"
    using assms(2) n(1) l(3)
    by (simp add: client_after_version_def recv_server_version_def version_from_bytes_eq build_client_noise_state_machine_def
        handshake_base_new_def send_step_Ok [OF _ s1] recv_step_eq byte_lens)
  have s: "server_after_version N vs psk ks =
      ReadExact 48 (\<lambda>b. p_try (recv_client_ephemeral_key N
        \<lparr>hs_base = ?b vs ks None, hs_state = ServerRecvEphemeralKey r0\<rparr> b) (\<lambda>hs.
          send_step 96 (b @ replicate 208 0) (send_server_ephemeral_and_static_key N hs) (\<lambda>buf hs.
          recv_step 64 buf (recv_client_static_key N hs) (\<lambda>_ hs.
          Return (init_server_transport_mode N hs)))))"
    using n(2) by (simp add: server_after_version_def build_server_noise_state_machine_def handshake_base_new_def recv_step_eq byte_lens)
  have "runs (Suc (Suc (Suc (Suc (Suc (Suc 0))))))
      \<lparr>left_proc = client_after_version N vc psk kc vs, right_proc = server_after_version N vs psk ks, to_left = [], to_right = []\<rparr>
      \<lparr>left_proc = completed vc psk kc ps tc, right_proc = completed vs psk ks pc ts, to_left = [], to_right = []\<rparr>"
    unfolding c s
    apply (rule runs_left, simp)
    apply (rule runs_right, simp add: l r1 send_step_Ok [OF _ s2] recv_step_eq)
    apply (rule runs_right, simp)
    apply (rule runs_left, simp add: l r2 send_step_Ok [OF _ s3] byte_lens)
    apply (rule runs_left, simp)
    apply (rule runs_right, simp add: l r3)
    using n by (simp add: completed_def init_client_transport_mode_def init_server_transport_mode_def runs_refl)
  then show ?thesis by (simp add: eval_nat_numeral)
qed

subsection \<open>Properties\<close>

text \<open>C21. The handshake completes. When the major versions agree and both sides hold the same pre-shared key, then,
  however the reads and writes of client and server interleave, the run never gets stuck: after at most ten
  steps both have returned successfully, each with its own version and keys, the public key of the other
  side, and the matching transport states, and no byte is left unread.\<close>

theorem handshake_completes:
  assumes "noise_session N psk kc ks pc ps tc ts" and "major vc = major vs"
    and "runs k (connect (client N vc psk kc) (server N vs psk ks)) s"
  shows "k \<le> 10 \<and> runs (10 - k) s
     \<lparr>left_proc = completed vc psk kc ps tc, right_proc = completed vs psk ks pc ts, to_left = [], to_right = []\<rparr>"
proof -
  have "runs (4 + 6) (connect (client N vc psk kc) (server N vs psk ks))
      \<lparr>left_proc = completed vc psk kc ps tc, right_proc = completed vs psk ks pc ts, to_left = [], to_right = []\<rparr>"
    by (rule version_exchange [OF key_exchange [OF assms(1,2)]])
  from runs_unique [OF assms(3) this] show ?thesis by (simp add: finished_def completed_def)
qed

text \<open>C25. Incompatible versions. When the major versions differ, every run ends, after five steps, with the error
  \<^verbatim>\<open>IncompatibleServerVersion\<close> naming both versions at the client and, since the client then closes the connection,
  a failed read at the server: neither side completes.\<close>

theorem handshake_version_mismatch:
  assumes "major vc \<noteq> major vs" and "build_noise_state_machine N Responder psk' ks = Ok h"
    and "runs k (connect (client N vc psk kc) (server N vs psk' ks)) s"
  shows "k \<le> 5 \<and> runs (5 - k) s
     \<lparr>left_proc = Return (Err (HandshakeError (IncompatibleServerVersion (major vs) (major vc)))),
      right_proc = Return (Err IoError), to_left = [], to_right = []\<rparr>"
proof -
  have "client_after_version N vc psk kc vs = Return (Err (HandshakeError (IncompatibleServerVersion (major vs) (major vc))))"
    using assms(1) by (simp add: client_after_version_def recv_server_version_def version_from_bytes_eq handshake_base_new_def)
  moreover obtain f where "server_after_version N vs psk' ks = ReadExact 48 f"
    using assms(2) by (simp add: server_after_version_def build_server_noise_state_machine_def handshake_base_new_def recv_step_eq byte_lens)
  ultimately have "runs (Suc 0) \<lparr>left_proc = client_after_version N vc psk kc vs, right_proc = server_after_version N vs psk' ks,
        to_left = [], to_right = []\<rparr>
      \<lparr>left_proc = Return (Err (HandshakeError (IncompatibleServerVersion (major vs) (major vc)))),
       right_proc = Return (Err IoError), to_left = [], to_right = []\<rparr>"
    by (intro runs_right [OF _ runs_refl]) simp
  from runs_unique [OF assms(3) version_exchange [OF this]] show ?thesis by (simp add: finished_def)
qed

text \<open>A Noise library for the concrete inputs: a message of the right length that carries the static key in the clear.\<close>

definition sample_noise :: "(role \<times> u8 list \<times> u8 list option, unit) noise" where
  "sample_noise =
     \<lparr>noise_build = (\<lambda>r _ key _ _. Ok (r, key, None)),
      noise_write = (\<lambda>_ cap (r, key, remote).
        ((r, key, remote), Ok (key @ replicate ((if cap = 1024 then 96 else cap) - length key) 0))),
      noise_read = (\<lambda>m _ (r, key, remote). ((r, key, Some (take 32 m)), Ok [])),
      noise_remote_static = (\<lambda>(r, key, remote). remote),
      noise_into_transport = (\<lambda>_. Ok ()),
      transport_write = (\<lambda>m _ t. (t, Ok (m @ replicate 16 0))),
      transport_read = (\<lambda>c _ t. (t, Ok (take (length c - 16) c)))\<rparr>"

lemma sample_noise_session: "noise_session sample_noise psk (replicate 32 1) (replicate 32 2) (replicate 32 1) (replicate 32 2) () ()"
  by (simp add: noise_session_def sample_noise_def build_noise_state_machine_def)

theorem handshake_completes_witness:
  "runs 10 (connect (client sample_noise \<lparr>major = 1, minor = 0\<rparr> [] (replicate 32 1))
                    (server sample_noise \<lparr>major = 1, minor = 2\<rparr> [] (replicate 32 2)))
     \<lparr>left_proc = completed \<lparr>major = 1, minor = 0\<rparr> [] (replicate 32 1) (replicate 32 2) (),
      right_proc = completed \<lparr>major = 1, minor = 2\<rparr> [] (replicate 32 2) (replicate 32 1) (), to_left = [], to_right = []\<rparr>"
  using handshake_completes [OF sample_noise_session, of "\<lparr>major = 1, minor = 0\<rparr>" "\<lparr>major = 1, minor = 2\<rparr>" 0 "[]", OF _ runs_refl]
  by simp

theorem handshake_version_mismatch_witness:
  "runs 5 (connect (client sample_noise \<lparr>major = 3, minor = 7\<rparr> [] (replicate 32 1))
                   (server sample_noise \<lparr>major = 1, minor = 0\<rparr> [] (replicate 32 2)))
     \<lparr>left_proc = Return (Err (HandshakeError (IncompatibleServerVersion 1 3))),
      right_proc = Return (Err IoError), to_left = [], to_right = []\<rparr>"
  using handshake_version_mismatch [OF _ _ runs_refl, of "\<lparr>major = 3, minor = 7\<rparr>" "\<lparr>major = 1, minor = 0\<rparr>"
      sample_noise "[]" "replicate 32 2" "(Responder, replicate 32 2, None)" "[]" "replicate 32 1"]
  by (simp add: sample_noise_def build_noise_state_machine_def)

end
