(* ===== verification/Post_Handshake.thy ===== *)
theory Post_Handshake
  imports Handshake_Props Desert_Codec
begin

text \<open>
  \<^verbatim>\<open>handshake/src/post_handshake.rs\<close>: encrypted messages on a completed handshake. A message is cut into
  segments of at most 65519 bytes, each of which Noise turns into at most 65535 bytes; on a stream they
  follow a length of four bytes.

  The methods change the transport state inside the handshake. The ones on a stream are programs as in
  \<^verbatim>\<open>Handshake\<close>; they return the handshake with the result.
\<close>

type_synonym 't session = "'t handshake_complete handshake"

definition on_transport :: "('t, 'a) action \<Rightarrow> ('t session, 'a) action" where
  "on_transport m hs =
     (case m (transport (hs_state hs)) of (t, r) \<Rightarrow> (hs\<lparr>hs_state := HandshakeComplete t\<rparr>, r))"

subsection \<open>Reading\<close>

text \<open>The bytes that Noise leaves at the start of a buffer of \<open>cap\<close> bytes, read back by \<^verbatim>\<open>buf[..len]\<close>.\<close>

definition read_noise_message :: "('h, 't) noise \<Rightarrow> u8 list \<Rightarrow> nat \<Rightarrow> ('t session, u8 list) action" where
  "read_noise_message N recv_buf cap =
     m_bind (on_transport (transport_read N recv_buf cap)) (\<lambda>m.
       m_lift (if length m \<le> cap then Ok m else Panic SliceIndexOutOfRange))"

function read_segments :: "('h, 't) noise \<Rightarrow> u8 list \<Rightarrow> nat \<Rightarrow> nat \<Rightarrow> u8 list \<Rightarrow> ('t session, u8 list) action" where
  "read_segments N recv_buf bytes_read bytes_remaining msg hs =
     (if bytes_remaining > 0 then
        let segment_len = min 65535 bytes_remaining
        in case slice recv_buf bytes_read (bytes_read + segment_len) of
             Ok bytes \<Rightarrow>
               (case read_noise_message N bytes 65535 hs of
                  (hs', Ok m) \<Rightarrow>
                    read_segments N recv_buf (bytes_read + segment_len) (bytes_remaining - segment_len) (msg @ m) hs'
                | (hs', Err e) \<Rightarrow> (hs', Err e)
                | (hs', Panic p) \<Rightarrow> (hs', Panic p))
           | Err e \<Rightarrow> (hs, Err e)
           | Panic p \<Rightarrow> (hs, Panic p)
      else (hs, Ok msg))"
  by pat_completeness auto
termination
  by (relation "measure (\<lambda>(_, _, _, bytes_remaining, _, _). bytes_remaining)") auto

declare read_segments.simps [simp del]

definition read_message :: "('h, 't) noise \<Rightarrow> u8 list \<Rightarrow> u32 \<Rightarrow> ('t session, u8 list) action" where
  "read_message N recv_buf msg_len = read_segments N recv_buf 0 (unat msg_len) []"

text \<open>\<^verbatim>\<open>let x = self.method()?;\<close> in a program: the handshake goes on with the state the method left.\<close>

definition p_call :: "('s, 'a) action \<Rightarrow> 's \<Rightarrow> ('s \<Rightarrow> 'a \<Rightarrow> 'b proc) \<Rightarrow> 'b proc" where
  "p_call m s k = (case m s of (s', r) \<Rightarrow> p_try r (k s'))"

definition read_message_from_stream :: "('h, 't) noise \<Rightarrow> 't session \<Rightarrow> ('t session \<times> u8 list) proc" where
  "read_message_from_stream N hs =
     ReadExact 4 (\<lambda>len_buf.
       let msg_len = from_le_bytes len_buf :: u32
       in if msg_len = 0 then Return (Ok (hs, []))
          else ReadExact (unat msg_len) (\<lambda>recv_buf.
            p_call (read_message N recv_buf msg_len) hs (\<lambda>hs msg. Return (Ok (hs, msg)))))"

text \<open>The asynchronous version has the same text with \<^verbatim>\<open>.await\<close> behind every read.\<close>

definition read_message_from_async_stream :: "('h, 't) noise \<Rightarrow> 't session \<Rightarrow> ('t session \<times> u8 list) proc" where
  "read_message_from_async_stream = read_message_from_stream"

subsection \<open>Writing\<close>

definition write_noise_message :: "('h, 't) noise \<Rightarrow> u8 list \<Rightarrow> nat \<Rightarrow> ('t session, u8 list) action" where
  "write_noise_message N msg cap =
     m_bind (on_transport (transport_write N msg cap)) (\<lambda>c.
       m_lift (if length c \<le> cap then Ok c else Panic SliceIndexOutOfRange))"

definition AUTH_TAG_LEN :: nat where "AUTH_TAG_LEN = 16"

function write_segments ::
  "('h, 't) noise \<Rightarrow> u8 list \<Rightarrow> nat \<Rightarrow> nat \<Rightarrow> u8 list \<Rightarrow> ('t session, nat \<times> u8 list) action" where
  "write_segments N msg bytes_written encrypted_bytes_written encrypted_msg hs =
     (if bytes_written < length msg then
        let segment_len = min (65535 - AUTH_TAG_LEN) (length msg - bytes_written)
        in case slice msg bytes_written (bytes_written + segment_len) of
             Ok bytes \<Rightarrow>
               (case write_noise_message N bytes 65535 hs of
                  (hs', Ok c) \<Rightarrow>
                    write_segments N msg (bytes_written + segment_len) (encrypted_bytes_written + length c)
                      (encrypted_msg @ c) hs'
                | (hs', Err e) \<Rightarrow> (hs', Err e)
                | (hs', Panic p) \<Rightarrow> (hs', Panic p))
           | Err e \<Rightarrow> (hs, Err e)
           | Panic p \<Rightarrow> (hs, Panic p)
      else (hs, Ok (encrypted_bytes_written, encrypted_msg)))"
  by pat_completeness auto
termination
  by (relation "measure (\<lambda>(_, msg, bytes_written, _, _, _). length msg - bytes_written)") (auto simp: AUTH_TAG_LEN_def)

declare write_segments.simps [simp del]

definition write_message :: "('h, 't) noise \<Rightarrow> u8 list \<Rightarrow> ('t session, nat \<times> u8 list) action" where
  "write_message N msg = write_segments N msg 0 0 []"

text \<open>\<^verbatim>\<open>&bytes_written.to_le_bytes()[..4]\<close> of a \<^verbatim>\<open>usize\<close>.\<close>

definition write_message_to_stream :: "('h, 't) noise \<Rightarrow> 't session \<Rightarrow> u8 list \<Rightarrow> ('t session \<times> nat) proc" where
  "write_message_to_stream N hs msg =
     p_call (write_message N msg) hs (\<lambda>hs (bytes_written, encrypted_msg).
       WriteAll (take 4 (to_le_bytes (of_nat bytes_written :: u64)))
         (WriteAll encrypted_msg (Return (Ok (hs, bytes_written)))))"

definition write_message_to_async_stream :: "('h, 't) noise \<Rightarrow> 't session \<Rightarrow> u8 list \<Rightarrow> ('t session \<times> nat) proc" where
  "write_message_to_async_stream = write_message_to_stream"

definition write_eos_marker_to_stream :: "'t session \<Rightarrow> 't session proc" where
  "write_eos_marker_to_stream hs = WriteAll [0, 0, 0, 0] (Return (Ok hs))"

definition write_eos_marker_to_async_stream :: "'t session \<Rightarrow> 't session proc" where
  "write_eos_marker_to_async_stream = write_eos_marker_to_stream"

definition get_remote_public_key :: "'t session \<Rightarrow> u8 list option" where
  "get_remote_public_key hs = hb_remote_public_key (hs_base hs)"

subsection \<open>Segments\<close>

text \<open>What is used of the Noise library: \<open>L n w r\<close> says that the transport states \<open>w\<close> and \<open>r\<close> are the two ends of one direction
  of a session and at least \<open>n\<close> more messages can be sent on it; then a message of at most 65519 bytes
  is encrypted into 16 bytes more, and the other end decrypts these to the message.\<close>

definition noise_link :: "('h, 't) noise \<Rightarrow> (nat \<Rightarrow> 't \<Rightarrow> 't \<Rightarrow> bool) \<Rightarrow> bool" where
  "noise_link N L \<longleftrightarrow>
     (\<forall>n w r m. L (Suc n) w r \<longrightarrow> length m \<le> 65519 \<longrightarrow>
        (\<exists>w' r' c. transport_write N m 65535 w = (w', Ok c) \<and> length c = length m + 16 \<and>
           transport_read N c 65535 r = (r', Ok m) \<and> L n w' r'))"

text \<open>The number of segments of a message.\<close>

definition segments :: "nat \<Rightarrow> nat" where
  "segments n = (n + 65518) div 65519"

lemma segments_0 [simp]: "segments 0 = 0"
  by (simp add: segments_def)

lemma segments_step: "0 < n \<Longrightarrow> segments n = Suc (segments (n - min 65519 n))"
  by (cases "n \<le> 65519") (auto simp: segments_def min_def div_nat_eqI)

text \<open>The sender's loop and the receiver's loop, on the same segments.\<close>

lemma write_read_segments:
  assumes "noise_link N L"
  shows "L (segments (length msg - bw) + n) (transport (hs_state hw)) (transport (hs_state hr)) \<Longrightarrow> bw \<le> length msg \<Longrightarrow>
     \<exists>c hw' hr'. write_segments N msg bw ew em hw = (hw', Ok (ew + length c, em @ c)) \<and>
       length c = (length msg - bw) + 16 * segments (length msg - bw) \<and>
       (\<forall>pre acc. read_segments N (pre @ c) (length pre) (length c) acc hr = (hr', Ok (acc @ drop bw msg))) \<and>
       L n (transport (hs_state hw')) (transport (hs_state hr')) \<and> hs_base hw' = hs_base hw \<and> hs_base hr' = hs_base hr"
proof (induction "length msg - bw" arbitrary: bw ew em hw hr rule: less_induct)
  case less
  show ?case
  proof (cases "bw < length msg")
    case False
    with less.prems have bw: "bw = length msg" by simp
    have "write_segments N msg bw ew em hw = (hw, Ok (ew, em))"
      unfolding bw by (subst write_segments.simps) simp
    moreover have "read_segments N pre (length pre) 0 acc hr = (hr, Ok acc)" for pre acc
      by (subst read_segments.simps) simp
    ultimately show ?thesis
      using less.prems(1) bw by - (rule exI [of _ "[]"], rule exI [of _ hw], rule exI [of _ hr], simp)
  next
    case True
    let ?s = "min 65519 (length msg - bw)"
    let ?m = "take ?s (drop bw msg)"
    have len: "length ?m = ?s" by simp
    have seg: "segments (length msg - bw) = Suc (segments (length msg - (bw + ?s)))"
      using True segments_step [of "length msg - bw"] by (simp add: diff_diff_left)
    have seg_n: "segments (length msg - bw) + n = Suc (segments (length msg - (bw + ?s)) + n)"
      using seg by simp
    have "length ?m \<le> 65519" by simp
    from assms [unfolded noise_link_def, rule_format, OF less.prems(1) [unfolded seg_n] this] obtain w' r' c where
      w: "transport_write N ?m 65535 (transport (hs_state hw)) = (w', Ok c)" and c: "length c = ?s + 16" and
      r: "transport_read N c 65535 (transport (hs_state hr)) = (r', Ok ?m)" and
      L: "L (segments (length msg - (bw + ?s)) + n) w' r'"
      using len by metis
    let ?hw = "hw\<lparr>hs_state := HandshakeComplete w'\<rparr>" and ?hr = "hr\<lparr>hs_state := HandshakeComplete r'\<rparr>"
    have le: "bw + ?s \<le> length msg" and lt: "length msg - (bw + ?s) < length msg - bw" using True by auto
    have "L (segments (length msg - (bw + ?s)) + n) (transport (hs_state ?hw)) (transport (hs_state ?hr))" using L by simp
    from less.hyps [OF lt this le, of "ew + length c" "em @ c"] obtain c' hw' hr' where
      ws: "write_segments N msg (bw + ?s) (ew + length c) (em @ c) ?hw = (hw', Ok (ew + length c + length c', (em @ c) @ c'))" and
      lc': "length c' = (length msg - (bw + ?s)) + 16 * segments (length msg - (bw + ?s))" and
      rs: "\<forall>pre acc. read_segments N (pre @ c') (length pre) (length c') acc ?hr = (hr', Ok (acc @ drop (bw + ?s) msg))" and
      fin: "L n (transport (hs_state hw')) (transport (hs_state hr'))" "hs_base hw' = hs_base ?hw" "hs_base hr' = hs_base ?hr"
      by blast
    have "write_segments N msg bw ew em hw = (hw', Ok (ew + length (c @ c'), em @ (c @ c')))"
    proof -
      have "slice msg bw (bw + ?s) = (Ok ?m :: (u8 list) res)"
        using True by (simp add: slice_eq_Ok)
      moreover have "write_noise_message N ?m 65535 hw = (?hw, Ok c)"
        using w c by (simp add: write_noise_message_def m_bind_def on_transport_def m_lift_def)
      ultimately show ?thesis
        using ws True by (subst write_segments.simps) (simp add: Let_def AUTH_TAG_LEN_def add.assoc)
    qed
    moreover have "length (c @ c') = (length msg - bw) + 16 * segments (length msg - bw)"
    proof -
      have "bw + n \<le> length msg \<Longrightarrow> n + 16 + (length msg - (bw + n) + 16 * g) = length msg - bw + 16 * Suc g" for n g
        by simp
      from this [OF le] show ?thesis unfolding length_append seg c lc' .
    qed
    moreover have "read_segments N (pre @ (c @ c')) (length pre) (length (c @ c')) acc hr = (hr', Ok (acc @ drop bw msg))" for pre acc
    proof -
      have sl: "min 65535 (length (c @ c')) = length c"
      proof (cases "?s = 65519")
        case False
        then have "bw + ?s = length msg" using True by (auto simp: min_def)
        then have "c' = []" using lc' by simp
        with c show ?thesis by simp
      qed (use c in simp)
      have "slice (pre @ c @ c') (length pre) (length pre + length c) = (Ok c :: (u8 list) res)" by simp
      moreover have "read_noise_message N c 65535 hr = (?hr, Ok ?m)"
        using r by (simp add: read_noise_message_def m_bind_def on_transport_def m_lift_def)
      moreover have "0 < length (c @ c')" using c by simp
      moreover have "drop bw msg = ?m @ drop (bw + ?s) msg"
        by (metis add.commute append_take_drop_id drop_drop)
      ultimately show ?thesis
        using rs [rule_format, of "pre @ c" "acc @ ?m"] sl by (subst read_segments.simps) (simp add: Let_def)
    qed
    ultimately show ?thesis using fin by (intro exI [of _ "c @ c'"]) auto
  qed
qed

subsection \<open>Properties\<close>

lemma from_le_bytes_take_4: "(from_le_bytes (take 4 (to_le_bytes (of_nat n :: u64))) :: u32) = of_nat n"
proof -
  have byte: "(ucast (drop_bit (8 * i) (of_nat n :: u64)) :: u8) = ucast (drop_bit (8 * i) (of_nat n :: u32))" if "i < 4" for i
    using that by (intro bit_eqI) (auto simp: bit_simps)
  have "take 4 (to_le_bytes (of_nat n :: u64)) = map (\<lambda>i. ucast (drop_bit (8 * i) (of_nat n :: u64))) [0..<4]"
    by (simp add: to_le_bytes_def take_map)
  also have "\<dots> = to_le_bytes (of_nat n :: u32)"
    unfolding to_le_bytes_def by (rule map_cong) (auto simp: byte)
  finally show ?thesis by (simp add: from_le_bytes_to_le_bytes)
qed

text \<open>The run in which the writer writes everything before the reader reads.\<close>

lemma stream_message_run:
  assumes "noise_link N L" and "L (segments (length msg) + n) (transport (hs_state hw)) (transport (hs_state hr))"
    and "msg \<noteq> []" and "length msg + 16 * segments (length msg) < 2 ^ 32"
  shows "\<exists>hw' hr'. runs 4 (connect (write_message_to_stream N hw msg) (read_message_from_stream N hr))
       \<lparr>left_proc = Return (Ok (hw', length msg + 16 * segments (length msg))), right_proc = Return (Ok (hr', msg)),
        to_left = [], to_right = []\<rparr> \<and>
     L n (transport (hs_state hw')) (transport (hs_state hr')) \<and> hs_base hw' = hs_base hw \<and> hs_base hr' = hs_base hr"
proof -
  from write_read_segments [OF assms(1), of msg 0 n hw hr 0 "[]"] assms(2) obtain c hw' hr' where
    w: "write_message N msg hw = (hw', Ok (length c, c))" and lc: "length c = length msg + 16 * segments (length msg)" and
    r: "\<And>pre acc. read_segments N (pre @ c) (length pre) (length c) acc hr = (hr', Ok (acc @ msg))" and
    fin: "L n (transport (hs_state hw')) (transport (hs_state hr'))" "hs_base hw' = hs_base hw" "hs_base hr' = hs_base hr"
    by (auto simp: write_message_def)
  define lb where "lb = take 4 (to_le_bytes (of_nat (length c) :: u64))"
  have lb: "length lb = 4" "(from_le_bytes lb :: u32) = of_nat (length c)"
    unfolding lb_def from_le_bytes_take_4 by (simp_all add: length_to_le_bytes)
  have un: "unat (of_nat (length c) :: u32) = length c"
    using assms(4) unfolding lc [symmetric] by (simp add: unat_of_nat)
  have nz: "(of_nat (length c) :: u32) \<noteq> 0" using un lc assms(3) by auto
  have rm: "read_message N c (of_nat (length c)) hr = (hr', Ok msg)"
    using r [of "[]" "[]"] by (simp add: read_message_def un)
  have "runs (Suc (Suc (Suc (Suc 0)))) (connect (write_message_to_stream N hw msg) (read_message_from_stream N hr))
      \<lparr>left_proc = Return (Ok (hw', length c)), right_proc = Return (Ok (hr', msg)), to_left = [], to_right = []\<rparr>"
    unfolding connect_def write_message_to_stream_def p_call_def w read_message_from_stream_def prod.case p_try_simps lb_def [symmetric]
    apply (rule runs_left, simp)
    apply (rule runs_left, simp)
    apply (rule runs_right, simp add: lb nz un Let_def)
    apply (rule runs_right, simp add: lb nz un rm)
    by (simp add: runs_refl)
  then show ?thesis using fin lc by (auto simp: eval_nat_numeral)
qed


lemma sample_noise_link: "noise_link sample_noise (\<lambda>_ _ _. True)"
  by (simp add: noise_link_def sample_noise_def)

definition sample_session :: "unit session" where
  "sample_session =
     \<lparr>hs_base = handshake_base_new (version_init 1 0) [] [], hs_state = HandshakeComplete ()\<rparr>"


text \<open>An empty message cannot be told from the end-of-stream marker: the same bytes are written for both.\<close>

lemma empty_message_is_eos:
  "write_message_to_stream N hs [] = WriteAll [0, 0, 0, 0] (WriteAll [] (Return (Ok (hs, 0))))"
  "write_eos_marker_to_stream hs = WriteAll [0, 0, 0, 0] (Return (Ok hs))"
proof -
  have "write_message N [] hs = (hs, Ok (0, []))" by (simp add: write_message_def write_segments.simps)
  moreover have "take 4 (to_le_bytes (0 :: u64)) = [0, 0, 0, 0]"
    by (simp add: to_le_bytes_def map_replicate_const take_map) (simp add: eval_nat_numeral)
  ultimately show "write_message_to_stream N hs [] = WriteAll [0, 0, 0, 0] (WriteAll [] (Return (Ok (hs, 0))))"
    by (simp add: write_message_to_stream_def p_call_def)
qed (simp add: write_eos_marker_to_stream_def)

end
