(* ===== verification/Handshake_Session.thy ===== *)
theory Handshake_Session
  imports Post_Handshake
begin

text \<open>
  Programs that do several things on one connection, one after the other: the handshake, then messages in both
  directions. \<open>completes P Q a b\<close> says that, with \<open>P\<close> and \<open>Q\<close> at the two ends, every run of any interleaving is finite
  and leads to the results \<open>a\<close> and \<open>b\<close> with no byte left unread. The rules reduce a session to its parts.
\<close>

subsection \<open>Sequences of programs\<close>

primrec p_then :: "'a proc \<Rightarrow> ('a res \<Rightarrow> 'b proc) \<Rightarrow> 'b proc" where
  "p_then (Return r) f = f r"
| "p_then (WriteAll bs p) f = WriteAll bs (p_then p f)"
| "p_then (ReadExact n k) f = ReadExact n (\<lambda>bs. p_then (k bs) f)"

text \<open>\<^verbatim>\<open>let x = program?; ...\<close>\<close>

definition p_bind :: "'a proc \<Rightarrow> ('a \<Rightarrow> 'b proc) \<Rightarrow> 'b proc" where
  "p_bind p f = p_then p (\<lambda>r. p_try r f)"

text \<open>\<^verbatim>\<open>program.unwrap()\<close>\<close>

definition p_unwrap :: "'a proc \<Rightarrow> 'a proc" where
  "p_unwrap p = p_then p (\<lambda>r. Return (unwrap r))"

subsection \<open>Completion\<close>

definition both_done :: "'a \<Rightarrow> 'b \<Rightarrow> ('a, 'b) system" where
  "both_done a b = \<lparr>left_proc = Return (Ok a), right_proc = Return (Ok b), to_left = [], to_right = []\<rparr>"

definition completes :: "'a proc \<Rightarrow> 'b proc \<Rightarrow> 'a \<Rightarrow> 'b \<Rightarrow> bool" where
  "completes P Q a b \<longleftrightarrow>
     (\<exists>n. \<forall>k s. runs k (connect P Q) s \<longrightarrow> k \<le> n \<and> runs (n - k) s (both_done a b))"

lemma completes_iff: "completes P Q a b \<longleftrightarrow> (\<exists>n. runs n (connect P Q) (both_done a b))"
proof
  assume "completes P Q a b"
  then show "\<exists>n. runs n (connect P Q) (both_done a b)"
    unfolding completes_def using runs_refl [of "connect P Q"] by fastforce
next
  assume "\<exists>n. runs n (connect P Q) (both_done a b)"
  then obtain n where "runs n (connect P Q) (both_done a b)" ..
  moreover have "finished (both_done a b)" by (simp add: finished_def both_done_def)
  ultimately show "completes P Q a b" unfolding completes_def using runs_unique by blast
qed

lemma completes_return: "completes (Return (Ok a)) (Return (Ok b)) a b"
  unfolding completes_iff both_done_def connect_def by (rule exI) (rule runs_refl)

text \<open>The two ends can be exchanged.\<close>

definition swap_ends :: "('a, 'b) system \<Rightarrow> ('b, 'a) system" where
  "swap_ends s = \<lparr>left_proc = right_proc s, right_proc = left_proc s, to_left = to_right s, to_right = to_left s\<rparr>"

lemma next_swap: "left_next (swap_ends s) = map_option swap_ends (right_next s)"
  "right_next (swap_ends s) = map_option swap_ends (left_next s)"
  by (simp_all add: left_next_def right_next_def swap_ends_def split: proc.split)

lemma runs_swap: "runs n s t \<Longrightarrow> runs n (swap_ends s) (swap_ends t)"
proof (induction rule: runs.induct)
  case (runs_step s s' n t)
  then have "sys_step (swap_ends s) (swap_ends s')"
    by (auto simp: sys_step_iff next_swap)
  with runs_step.IH show ?case by (rule runs.runs_step [rotated])
qed (rule runs_refl)

lemma completes_swap: "completes P Q a b \<Longrightarrow> completes Q P b a"
  unfolding completes_iff
  using runs_swap [of _ "connect P Q" "both_done a b"] by (auto simp: swap_ends_def connect_def both_done_def)

subsection \<open>Composition\<close>

lemma runs_trans: "runs n s t \<Longrightarrow> runs m t u \<Longrightarrow> runs (n + m) s u"
  by (induction rule: runs.induct) (auto intro: runs_step)

lemma runs_returned:
  "runs n s t \<Longrightarrow> (\<forall>r. left_proc s = Return r \<longrightarrow> left_proc t = Return r) \<and>
     (\<forall>r. right_proc s = Return r \<longrightarrow> right_proc t = Return r)"
proof (induction rule: runs.induct)
  case (runs_step s s' n t)
  from runs_step.hyps(1) have "(\<forall>r. left_proc s = Return r \<longrightarrow> left_proc s' = Return r) \<and>
     (\<forall>r. right_proc s = Return r \<longrightarrow> right_proc s' = Return r)"
    unfolding sys_step_iff
    by (auto simp: left_next_def right_next_def split: proc.splits if_splits)
  with runs_step.IH show ?case by blast
qed simp

definition continue :: "('a res \<Rightarrow> 'c proc) \<Rightarrow> ('b res \<Rightarrow> 'd proc) \<Rightarrow> ('a, 'b) system \<Rightarrow> ('c, 'd) system" where
  "continue k l s =
     \<lparr>left_proc = p_then (left_proc s) k, right_proc = p_then (right_proc s) l, to_left = to_left s, to_right = to_right s\<rparr>"

text \<open>A step of a part is a step of the whole, unless it meets the end of the stream.\<close>

lemma left_next_continue:
  "left_next s = Some s' \<Longrightarrow> left_proc s' \<noteq> Return (Err IoError) \<Longrightarrow> left_next (continue k l s) = Some (continue k l s')"
  by (auto simp: left_next_def continue_def split: proc.splits if_splits)

lemma right_next_continue:
  "right_next s = Some s' \<Longrightarrow> right_proc s' \<noteq> Return (Err IoError) \<Longrightarrow> right_next (continue k l s) = Some (continue k l s')"
  by (auto simp: right_next_def continue_def split: proc.splits if_splits)

lemma runs_continue:
  "runs n s t \<Longrightarrow> left_proc t = Return (Ok a) \<Longrightarrow> right_proc t = Return (Ok b) \<Longrightarrow>
     runs n (continue k l s) (continue k l t)"
proof (induction rule: runs.induct)
  case (runs_step s s' n t)
  have "left_proc s' \<noteq> Return (Err IoError)" "right_proc s' \<noteq> Return (Err IoError)"
    using runs_returned [OF runs_step.hyps(2)] runs_step.prems by auto
  then have "sys_step (continue k l s) (continue k l s')"
    using runs_step.hyps(1) left_next_continue [of s s' k l] right_next_continue [of s s' k l]
    by (auto simp: sys_step_iff)
  with runs_step.IH [OF runs_step.prems] show ?case by (rule runs.runs_step [rotated])
qed (rule runs_refl)

lemma completes_then:
  assumes "completes P Q a b" and "completes (k (Ok a)) (l (Ok b)) c d"
  shows "completes (p_then P k) (p_then Q l) c d"
proof -
  from assms obtain n m where "runs n (connect P Q) (both_done a b)" and m: "runs m (connect (k (Ok a)) (l (Ok b))) (both_done c d)"
    by (auto simp: completes_iff)
  from runs_continue [OF this(1), of a b k l]
  have "runs n (connect (p_then P k) (p_then Q l)) (connect (k (Ok a)) (l (Ok b)))"
    by (simp add: both_done_def connect_def continue_def)
  from runs_trans [OF this m] show ?thesis by (auto simp: completes_iff)
qed

lemma completes_bind: "completes P Q a b \<Longrightarrow> completes (k a) (l b) c d \<Longrightarrow> completes (p_bind P k) (p_bind Q l) c d"
  unfolding p_bind_def by (rule completes_then) simp_all

lemma p_then_Return: "p_then p Return = p"
  by (induction p) auto

lemma completes_unwrap:
  assumes "completes P Q a b"
  shows "completes (p_unwrap P) Q a b" and "completes P (p_unwrap Q) a b"
  using completes_then [OF assms, of "\<lambda>r. Return (unwrap r)" Return a b]
    completes_then [OF assms, of Return "\<lambda>r. Return (unwrap r)" a b] completes_return [of a b]
  by (simp_all add: p_unwrap_def p_then_Return unwrap_def)

subsection \<open>The parts of a session\<close>

text \<open>What is used of the Noise library: \<open>D n m x y\<close> says that \<open>x\<close> and \<open>y\<close> are the transport states of the two ends of one
  session and at least \<open>n\<close> more messages can be sent from \<open>x\<close> to \<open>y\<close> and \<open>m\<close> more from \<open>y\<close> to \<open>x\<close>. Each direction is a
  link, and sending in one does not use up the other.\<close>

definition noise_duplex :: "('h, 't) noise \<Rightarrow> (nat \<Rightarrow> nat \<Rightarrow> 't \<Rightarrow> 't \<Rightarrow> bool) \<Rightarrow> bool" where
  "noise_duplex N D \<longleftrightarrow> (\<forall>n m x y. D n m x y \<longrightarrow> D m n y x) \<and> (\<forall>m. noise_link N (\<lambda>n. D n m))"

definition session_ends :: "(nat \<Rightarrow> nat \<Rightarrow> 't \<Rightarrow> 't \<Rightarrow> bool) \<Rightarrow> nat \<Rightarrow> nat \<Rightarrow> 't session \<Rightarrow> 't session \<Rightarrow> bool" where
  "session_ends D n m x y \<longleftrightarrow> D n m (transport (hs_state x)) (transport (hs_state y))"

lemma session_ends_swap: "noise_duplex N D \<Longrightarrow> session_ends D n m x y \<Longrightarrow> session_ends D m n y x"
  by (auto simp: session_ends_def noise_duplex_def)

text \<open>The size of a message whose encryption fits the length field.\<close>

definition sendable :: "u8 list \<Rightarrow> bool" where
  "sendable msg \<longleftrightarrow> length msg + 16 * segments (length msg) < 2 ^ 32"

lemma write_read_completes:
  assumes "noise_duplex N D" and "session_ends D (segments (length msg) + n) m x y" and "sendable msg"
  shows "\<exists>x' y'. completes (write_message_to_stream N x msg) (read_message_from_stream N y)
       (x', length msg + 16 * segments (length msg)) (y', msg) \<and>
     session_ends D n m x' y' \<and> hs_base x' = hs_base x \<and> hs_base y' = hs_base y"
proof (cases "msg = []")
  case False
  have "noise_link N (\<lambda>n. D n m)" using assms(1) by (simp add: noise_duplex_def)
  from stream_message_run [OF this _ False, of n x y] assms(2,3) show ?thesis
    unfolding session_ends_def sendable_def completes_iff both_done_def by blast
next
  case True
  have "completes (write_message_to_stream N x []) (read_message_from_stream N y) (x, 0) (y, [])"
    unfolding completes_iff connect_def empty_message_is_eos read_message_from_stream_def both_done_def
    apply (intro exI)
    apply (rule runs_left, simp)
    apply (rule runs_left, simp)
    apply (rule runs_right, simp)
    by (simp add: from_le_bytes_def, rule runs_refl)
  then show ?thesis using assms(2) True by auto
qed

lemma eos_completes: "completes (write_eos_marker_to_stream x) (read_message_from_stream N y) x (y, [])"
  unfolding completes_iff connect_def write_eos_marker_to_stream_def read_message_from_stream_def both_done_def
  apply (intro exI)
  apply (rule runs_left, simp)
  apply (rule runs_right, simp)
  by (simp add: from_le_bytes_def, rule runs_refl)

text \<open>One rule for each thing a session does next.\<close>

lemma session_write:
  assumes "noise_duplex N D" and "session_ends D (segments (length msg) + n) m x y" and "sendable msg"
    and "\<And>x' y'. session_ends D n m x' y' \<Longrightarrow> hs_base x' = hs_base x \<Longrightarrow> hs_base y' = hs_base y \<Longrightarrow>
       completes (k (x', length msg + 16 * segments (length msg))) (l (y', msg)) a b"
  shows "completes (p_bind (write_message_to_stream N x msg) k) (p_bind (read_message_from_stream N y) l) a b"
proof -
  from write_read_completes [OF assms(1-3)] obtain x' y' where
    c: "completes (write_message_to_stream N x msg) (read_message_from_stream N y)
       (x', length msg + 16 * segments (length msg)) (y', msg)" and
    s: "session_ends D n m x' y'" "hs_base x' = hs_base x" "hs_base y' = hs_base y"
    by blast
  show ?thesis by (rule completes_bind [OF c], rule assms(4)) (use s in auto)
qed

lemma session_read:
  assumes "noise_duplex N D" and "session_ends D n (segments (length msg) + m) x y" and "sendable msg"
    and "\<And>x' y'. session_ends D n m x' y' \<Longrightarrow> hs_base x' = hs_base x \<Longrightarrow> hs_base y' = hs_base y \<Longrightarrow>
       completes (k (x', msg)) (l (y', length msg + 16 * segments (length msg))) a b"
  shows "completes (p_bind (read_message_from_stream N x) k) (p_bind (write_message_to_stream N y msg) l) a b"
  by (rule completes_swap, rule session_write [OF assms(1) session_ends_swap [OF assms(1,2)] assms(3)])
    (rule completes_swap, rule assms(4), auto intro: session_ends_swap [OF assms(1)])

lemma session_write_eos:
  "completes (k x) (l (y, [])) a b \<Longrightarrow>
     completes (p_bind (write_eos_marker_to_stream x) k) (p_bind (read_message_from_stream N y) l) a b"
  by (rule completes_bind [OF eos_completes])

lemma session_read_eos:
  "completes (k (x, [])) (l y) a b \<Longrightarrow>
     completes (p_bind (read_message_from_stream N x) k) (p_bind (write_eos_marker_to_stream y) l) a b"
  by (rule completes_bind [OF completes_swap [OF eos_completes]])

text \<open>The handshake at the start of a session, and the two ends after it.\<close>

definition after_handshake :: "version \<Rightarrow> u8 list \<Rightarrow> u8 list \<Rightarrow> u8 list \<Rightarrow> 't \<Rightarrow> 't session" where
  "after_handshake v psk private_key remote t =
     \<lparr>hs_base = \<lparr>hb_version = v, hb_psk = psk, hb_private_key = private_key, hb_remote_public_key = Some remote\<rparr>,
      hs_state = HandshakeComplete t\<rparr>"

lemma handshake_run:
  assumes "noise_session N psk kc ks pc ps tc ts" and "major vc = major vs"
  shows "completes (client N vc psk kc) (server N vs psk ks) (after_handshake vc psk kc ps tc) (after_handshake vs psk ks pc ts)"
  using version_exchange [OF key_exchange [OF assms]]
  by (auto simp: completes_iff both_done_def after_handshake_def completed_def)

lemma handshake_ends:
  assumes "noise_session N psk kc ks pc ps tc ts" and "major vc = major vs" and "D n m tc ts"
  shows "\<exists>x y. completes (client N vc psk kc) (server N vs psk ks) x y \<and> session_ends D n m x y \<and>
     get_remote_public_key x = Some ps \<and> get_remote_public_key y = Some pc"
proof -
  have "session_ends D n m (after_handshake vc psk kc ps tc) (after_handshake vs psk ks pc ts)"
    using assms(3) by (simp add: after_handshake_def session_ends_def)
  moreover have "get_remote_public_key (after_handshake v p k r t) = Some r" for v p k r and t :: 't
    by (simp add: after_handshake_def get_remote_public_key_def)
  ultimately show ?thesis using handshake_run [OF assms(1,2)] by metis
qed

lemma session_start:
  assumes "noise_session N psk kc ks pc ps tc ts" and "major vc = major vs" and "D n m tc ts"
    and "\<And>x y. session_ends D n m x y \<Longrightarrow> get_remote_public_key x = Some ps \<Longrightarrow> get_remote_public_key y = Some pc \<Longrightarrow>
       completes (k x) (l y) a b"
  shows "completes (p_bind (client N vc psk kc) k) (p_bind (server N vs psk ks) l) a b"
proof -
  from handshake_ends [OF assms(1,2), where D = D, OF assms(3)] obtain x y where
    c: "completes (client N vc psk kc) (server N vs psk ks) x y" and
    s: "session_ends D n m x y" "get_remote_public_key x = Some ps" "get_remote_public_key y = Some pc"
    by blast
  show ?thesis by (rule completes_bind [OF c], rule assms(4)) (use s in auto)
qed

text \<open>A session that meets the hypotheses, on the sample library.\<close>

lemma sample_noise_duplex: "noise_duplex sample_noise (\<lambda>_ _ _ _. True)"
  by (simp add: noise_duplex_def sample_noise_link)

end
