(* ===== verification/Handshake_Examples.thy ===== *)
theory Handshake_Examples
  imports Handshake_Session Rust_Text
begin

text \<open>
  The programs of \<^verbatim>\<open>handshake/examples\<close>: a handshake and then encrypted messages on one connection.

  A program returns the lines that it prints. The connection, the generated private key, the command line and the
  files are arguments; opening the sockets is left out.
\<close>

subsection \<open>The messages\<close>

definition pangolin :: "u8 list" where
  "pangolin = str ''An impeccably polite pangolin''"

text \<open>\<^verbatim>\<open>println!("Received message: {:?}", msg)\<close>\<close>

definition received_line :: "u8 list \<Rightarrow> rstring" where
  "received_line msg = str ''Received message: '' @ bytes_debug msg"

subsection \<open>\<^verbatim>\<open>tcp.rs\<close>\<close>

definition tcp_help :: "rstring list" where
  "tcp_help =
     [str ''Usage:'', [], str ''tcp'', str ''    Execute the handshake as a client (initiator) over TCP.'',
      str ''tcp {-s|--server}'', str ''    Execute the handshake as a server (responder) over TCP.'']"

definition tcp_setup :: "u8 list \<Rightarrow> version \<times> u8 list \<times> u8 list" where
  "tcp_setup private_key = (version_init 1 0, replicate 32 1, private_key)"

definition tcp_run_client :: "('h, 't) noise \<Rightarrow> u8 list \<Rightarrow> rstring list proc" where
  "tcp_run_client N key =
     (case tcp_setup key of (version, psk, private_key) \<Rightarrow>
        p_bind (client N version psk private_key) (\<lambda>encrypted.
        let key_lines =
          (case get_remote_public_key encrypted of
             Some key \<Rightarrow> [str ''Completed handshake with '' @ bytes_debug key]
           | None \<Rightarrow> [])
        in
        p_bind (write_message_to_stream N encrypted pangolin) (\<lambda>(encrypted, _).
        p_bind (write_message_to_stream N encrypted (replicate 70000 7)) (\<lambda>(encrypted, _).
        p_bind (write_eos_marker_to_stream encrypted) (\<lambda>encrypted.
        p_bind (read_message_from_stream N encrypted) (\<lambda>(encrypted, msg).
        Return (Ok
          ([str ''Connecting to TCP server on 127.0.0.1:9999'', str ''Connected'', str ''Initiating handshake...''] @
           key_lines @ [str ''Sent message'', str ''Sent message'', str ''Sent end-of-stream marker''] @
           (if msg = [] then [str ''Received end-of-stream marker''] else [])))))))))"

definition tcp_run_server :: "('h, 't) noise \<Rightarrow> u8 list \<Rightarrow> rstring list proc" where
  "tcp_run_server N key =
     (case tcp_setup key of (version, psk, private_key) \<Rightarrow>
        p_bind (server N version psk private_key) (\<lambda>encrypted.
        p_bind (read_message_from_stream N encrypted) (\<lambda>(encrypted, msg).
        p_bind (read_message_from_stream N encrypted) (\<lambda>(encrypted, msg').
        p_try (slice msg' 0 9) (\<lambda>first_nine.
        let lines =
          [str ''TCP server listening on 127.0.0.1:9999'', str ''Accepted connection'',
           str ''Responding to handshake...'', received_line msg, received_line first_nine]
        in
        p_bind (read_message_from_stream N encrypted) (\<lambda>(encrypted, eos).
        if eos = [] then
          p_bind (write_eos_marker_to_stream encrypted) (\<lambda>encrypted.
          Return (Ok (lines @ [str ''Received end-of-stream marker'', str ''Sent end-of-stream marker''])))
        else Return (Ok lines)))))))"

definition tcp_main :: "('h, 't) noise \<Rightarrow> u8 list \<Rightarrow> rstring list \<Rightarrow> rstring list proc" where
  "tcp_main N key args =
     (if length args = 1 then p_unwrap (tcp_run_client N key)
      else if length args = 2 then
        if args ! 1 = str ''-s'' \<or> args ! 1 = str ''--server'' then p_unwrap (tcp_run_server N key)
        else Return (Ok tcp_help)
      else Return (Ok tcp_help))"

subsection \<open>\<^verbatim>\<open>unix.rs\<close>\<close>

definition unix_help :: "rstring list" where
  "unix_help =
     [str ''Usage:'', [], str ''unix'', str ''    Execute the handshake as a client (initiator) over a Unix socket.'',
      str ''unix {-s|--server}'', str ''    Execute the handshake as a server (responder) over a Unix socket.'']"

definition SOCKET_PATH :: rstring where
  "SOCKET_PATH = str ''/tmp/handshake.sock''"

definition unix_setup :: "u8 list \<Rightarrow> version \<times> u8 list \<times> u8 list" where
  "unix_setup private_key = (version_init 1 0, replicate 32 1, private_key)"

definition unix_run_client :: "('h, 't) noise \<Rightarrow> u8 list \<Rightarrow> rstring list proc" where
  "unix_run_client N key =
     (case unix_setup key of (version, psk, private_key) \<Rightarrow>
        p_bind (client N version psk private_key) (\<lambda>encrypted.
        p_bind (write_message_to_stream N encrypted pangolin) (\<lambda>(encrypted, _).
        p_bind (write_message_to_stream N encrypted (replicate 70000 7)) (\<lambda>(encrypted, _).
        let lines =
          [str ''Connecting to Unix socket at '' @ SOCKET_PATH, str ''Connected'', str ''Initiating handshake...'',
           str ''Sent message'', str ''Sent message'']
        in
        p_bind (read_message_from_stream N encrypted) (\<lambda>(encrypted, eos).
        if eos = [] then
          p_bind (write_eos_marker_to_stream encrypted) (\<lambda>encrypted.
          Return (Ok (lines @ [str ''Received end-of-stream marker'', str ''Sent end-of-stream marker''])))
        else Return (Ok lines))))))"

definition unix_run_server :: "('h, 't) noise \<Rightarrow> u8 list \<Rightarrow> rstring list proc" where
  "unix_run_server N key =
     (case unix_setup key of (version, psk, private_key) \<Rightarrow>
        p_bind (server N version psk private_key) (\<lambda>encrypted.
        p_bind (read_message_from_stream N encrypted) (\<lambda>(encrypted, msg).
        p_bind (read_message_from_stream N encrypted) (\<lambda>(encrypted, msg').
        p_try (slice msg' 0 9) (\<lambda>first_nine.
        p_bind (write_eos_marker_to_stream encrypted) (\<lambda>encrypted.
        p_bind (read_message_from_stream N encrypted) (\<lambda>(encrypted, eos).
        Return (Ok
          ([str ''Unix socket listening on '' @ SOCKET_PATH, str ''Accepted connection'',
            str ''Responding to handshake...'', received_line msg, received_line first_nine,
            str ''Sent end-of-stream marker''] @
           (if eos = [] then [str ''Received end-of-stream marker''] else []))))))))))"

definition unix_main :: "('h, 't) noise \<Rightarrow> u8 list \<Rightarrow> rstring list \<Rightarrow> rstring list proc" where
  "unix_main N key args =
     (if length args = 1 then p_unwrap (unix_run_client N key)
      else if length args = 2 then
        if args ! 1 = str ''-s'' \<or> args ! 1 = str ''--server'' then p_unwrap (unix_run_server N key)
        else Return (Ok unix_help)
      else Return (Ok unix_help))"

subsection \<open>\<^verbatim>\<open>async_tcp.rs\<close>\<close>

definition async_tcp_help :: "rstring list" where
  "async_tcp_help =
     [str ''Usage:'', [], str ''async_tcp'', str ''    Execute the handshake as a client (initiator) over TCP.'',
      str ''async_tcp {-s|--server}'', str ''    Execute the handshake as a server (responder) over TCP.'']"

definition async_tcp_setup :: "u8 list \<Rightarrow> version \<times> u8 list \<times> u8 list" where
  "async_tcp_setup private_key = (version_init 1 0, replicate 32 1, private_key)"

definition async_tcp_run_client :: "('h, 't) noise \<Rightarrow> u8 list \<Rightarrow> rstring list proc" where
  "async_tcp_run_client N key =
     (case async_tcp_setup key of (version, psk, private_key) \<Rightarrow>
        p_bind (async_client N version psk private_key) (\<lambda>encrypted.
        p_bind (write_message_to_async_stream N encrypted pangolin) (\<lambda>(encrypted, _).
        p_bind (read_message_from_async_stream N encrypted) (\<lambda>(encrypted, long_msg).
        p_try (slice long_msg 0 9) (\<lambda>first_nine.
        p_bind (write_eos_marker_to_async_stream encrypted) (\<lambda>encrypted.
        p_bind (read_message_from_async_stream N encrypted) (\<lambda>(encrypted, eos).
        Return (Ok
          ([str ''Connecting to TCP server on 127.0.0.1:9999'', str ''Connected'', str ''Initiating handshake...'',
            str ''Sent message'', received_line first_nine, str ''Sent end-of-stream marker''] @
           (if eos = [] then [str ''Received end-of-stream marker''] else []))))))))))"

definition async_tcp_run_server :: "('h, 't) noise \<Rightarrow> u8 list \<Rightarrow> rstring list proc" where
  "async_tcp_run_server N key =
     (case async_tcp_setup key of (version, psk, private_key) \<Rightarrow>
        p_bind (p_unwrap (async_server N version psk private_key)) (\<lambda>encrypted.
        p_bind (read_message_from_async_stream N encrypted) (\<lambda>(encrypted, short_msg).
        p_bind (write_message_to_async_stream N encrypted (replicate 77777 7)) (\<lambda>(encrypted, _).
        p_bind (read_message_from_async_stream N encrypted) (\<lambda>(encrypted, eos).
        p_bind (write_eos_marker_to_async_stream encrypted) (\<lambda>encrypted.
        Return (Ok
          ([str ''TCP server listening on 127.0.0.1:9999'', received_line short_msg, str ''Sent message''] @
           (if eos = [] then [str ''Received end-of-stream marker''] else []) @ [str ''Sent end-of-stream marker'']))))))))"

definition async_tcp_main :: "('h, 't) noise \<Rightarrow> u8 list \<Rightarrow> rstring list \<Rightarrow> rstring list proc" where
  "async_tcp_main N key args =
     (if length args = 1 then p_unwrap (async_tcp_run_client N key)
      else if length args = 2 then
        if args ! 1 = str ''-s'' \<or> args ! 1 = str ''--server'' then p_unwrap (async_tcp_run_server N key)
        else Return (Ok async_tcp_help)
      else Return (Ok async_tcp_help))"

subsection \<open>\<^verbatim>\<open>cli.rs\<close>\<close>

definition cli_help :: "rstring list" where
  "cli_help =
     [str ''Usage:'', [], str ''<PSK> <initiator|responder> <MSG>'',
      str ''  Provide a PSK, set mode as initiator or responder and include a message to be sent.'', [],
      str ''<PSK> <initiator|responder> --file <MSG_FILE_PATH>'',
      str ''  Provide a PSK, set mode as initiator or responder and include the path to a file containing a message to be sent.'']"

definition cli_setup :: "u8 list \<Rightarrow> version \<times> u8 list" where
  "cli_setup private_key = (version_init 1 0, private_key)"

text \<open>\<^verbatim>\<open>write_all\<close> into the array copies what fits and fails when something is left over; the array keeps zeros behind a
  shorter argument.\<close>

definition parse_psk_and_mode :: "rstring \<Rightarrow> rstring \<Rightarrow> (u8 list \<times> rstring) res" where
  "parse_psk_and_mode psk_arg mode_arg =
     and_then (unwrap (if length psk_arg \<le> 32 then Ok (psk_arg @ replicate (32 - length psk_arg) 0) else Err IoError))
       (\<lambda>psk. Ok (psk, mode_arg))"

definition cli_run_client :: "('h, 't) noise \<Rightarrow> u8 list \<Rightarrow> u8 list \<Rightarrow> rstring \<Rightarrow> rstring list proc" where
  "cli_run_client N key psk msg =
     (case cli_setup key of (version, private_key) \<Rightarrow>
        p_bind (client N version psk private_key) (\<lambda>encrypted.
        p_bind (write_message_to_stream N encrypted msg) (\<lambda>(encrypted, _).
        p_bind (read_message_from_stream N encrypted) (\<lambda>(encrypted, received_msg).
        p_try (unwrap (string_from_utf8 received_msg)) (\<lambda>txt.
        let lines = [str ''Sent message'', str ''Received message: '' @ txt]
        in
        p_bind (read_message_from_stream N encrypted) (\<lambda>(encrypted, eos).
        if eos = [] then
          p_bind (write_eos_marker_to_stream encrypted) (\<lambda>encrypted.
          Return (Ok (lines @ [str ''Received end-of-stream marker'', str ''Sent end-of-stream marker'', str ''Stream closed''])))
        else Return (Ok (lines @ [str ''Stream closed'']))))))))"

definition cli_run_server :: "('h, 't) noise \<Rightarrow> u8 list \<Rightarrow> u8 list \<Rightarrow> rstring \<Rightarrow> rstring list proc" where
  "cli_run_server N key psk msg =
     (case cli_setup key of (version, private_key) \<Rightarrow>
        p_bind (server N version psk private_key) (\<lambda>encrypted.
        p_bind (read_message_from_stream N encrypted) (\<lambda>(encrypted, received_msg).
        p_try (unwrap (string_from_utf8 received_msg)) (\<lambda>txt.
        p_bind (write_message_to_stream N encrypted msg) (\<lambda>(encrypted, _).
        p_bind (write_eos_marker_to_stream encrypted) (\<lambda>encrypted.
        p_bind (read_message_from_stream N encrypted) (\<lambda>(encrypted, eos).
        Return (Ok
          ([str ''Received message: '' @ txt, str ''Sent message'', str ''Sent end-of-stream marker''] @
           (if eos = [] then [str ''Received end-of-stream marker''] else []) @ [str ''Stream closed''])))))))))"

text \<open>\<open>read_to_string\<close> is the file system: the contents of a file, or the error of reading it.\<close>

definition cli_main :: "('h, 't) noise \<Rightarrow> (rstring \<Rightarrow> rstring res) \<Rightarrow> u8 list \<Rightarrow> rstring list \<Rightarrow> rstring list proc" where
  "cli_main N read_to_string key args =
     (if \<not> (4 \<le> length args \<and> length args \<le> 5) then Return (Ok cli_help)
      else p_try (parse_psk_and_mode (args ! 1) (args ! 2)) (\<lambda>(psk, mode).
        p_try (if length args = 4 then Ok (args ! 3) else read_to_string (args ! 4)) (\<lambda>msg.
        if mode = str ''initiator'' then cli_run_client N key psk (trim msg)
        else if mode = str ''responder'' then cli_run_server N key psk (trim msg)
        else Return (Ok cli_help))))"

subsection \<open>The sessions complete\<close>

lemma segments_examples [simp]: "segments 29 = 1" "segments 70000 = 2" "segments 77777 = 2"
  by (simp_all add: segments_def)

lemma length_pangolin [simp]: "length pangolin = 29" "pangolin \<noteq> []"
  by (simp_all add: pangolin_def str_def)

lemma sendable_examples [simp]: "sendable pangolin" "sendable (replicate 70000 7)" "sendable (replicate 77777 7)"
  by (simp_all add: sendable_def)

lemma slice_long: "9 \<le> n \<Longrightarrow> slice (replicate n x) 0 9 = (Ok (replicate 9 x) :: (u8 list) res)"
  by (simp add: slice_eq_Ok)

text \<open>What the two ends of the example print.\<close>

definition tcp_client_lines :: "u8 list \<Rightarrow> rstring list" where
  "tcp_client_lines server_key =
     [str ''Connecting to TCP server on 127.0.0.1:9999'', str ''Connected'', str ''Initiating handshake...'',
      str ''Completed handshake with '' @ bytes_debug server_key, str ''Sent message'', str ''Sent message'',
      str ''Sent end-of-stream marker'', str ''Received end-of-stream marker'']"

definition tcp_server_lines :: "rstring list" where
  "tcp_server_lines =
     [str ''TCP server listening on 127.0.0.1:9999'', str ''Accepted connection'', str ''Responding to handshake...'',
      received_line pangolin, received_line (replicate 9 7), str ''Received end-of-stream marker'',
      str ''Sent end-of-stream marker'']"

lemma tcp_run_completes:
  assumes "noise_session N (replicate 32 1) kc ks pc ps tc ts" and "noise_duplex N D" and "D 3 0 tc ts"
  shows "completes (tcp_run_client N kc) (tcp_run_server N ks) (tcp_client_lines ps) tcp_server_lines"
  unfolding tcp_run_client_def tcp_run_server_def tcp_setup_def prod.case Let_def
  apply (rule session_start [OF assms(1) refl, where D = D, OF assms(3)])
  apply (rule session_write [OF assms(2), where n = 2 and m = 0], simp del: add_2_eq_Suc', simp)
  unfolding prod.case
  apply (rule session_write [OF assms(2), where n = 0 and m = 0], simp, simp)
  apply (simp add: slice_long)
  apply (rule session_write_eos, simp)
  apply (rule session_read_eos, simp)
  by (simp add: tcp_client_lines_def tcp_server_lines_def completes_return)

lemma tcp_session_completes:
  assumes "noise_session N (replicate 32 1) kc ks pc ps tc ts" and "noise_duplex N D" and "D 3 0 tc ts"
  shows "completes (tcp_main N kc [prog]) (tcp_main N ks [prog, str ''-s'']) (tcp_client_lines ps) tcp_server_lines"
  using completes_unwrap(1) [OF completes_unwrap(2) [OF tcp_run_completes [OF assms]]] by (simp add: tcp_main_def)

lemma unix_run_completes:
  assumes "noise_session N (replicate 32 1) kc ks pc ps tc ts" and "noise_duplex N D" and "D 3 0 tc ts"
  shows "completes (unix_run_client N kc) (unix_run_server N ks)
     [str ''Connecting to Unix socket at '' @ SOCKET_PATH, str ''Connected'', str ''Initiating handshake...'',
      str ''Sent message'', str ''Sent message'', str ''Received end-of-stream marker'', str ''Sent end-of-stream marker'']
     [str ''Unix socket listening on '' @ SOCKET_PATH, str ''Accepted connection'', str ''Responding to handshake...'',
      received_line pangolin, received_line (replicate 9 7), str ''Sent end-of-stream marker'',
      str ''Received end-of-stream marker'']"
  unfolding unix_run_client_def unix_run_server_def unix_setup_def prod.case Let_def
  apply (rule session_start [OF assms(1) refl, where D = D, OF assms(3)])
  apply (rule session_write [OF assms(2), where n = 2 and m = 0], simp del: add_2_eq_Suc', simp)
  unfolding prod.case
  apply (rule session_write [OF assms(2), where n = 0 and m = 0], simp, simp)
  apply (simp add: slice_long)
  apply (rule session_read_eos, simp)
  apply (rule session_write_eos, simp)
  by (rule completes_return)

lemma async_tcp_run_completes:
  assumes "noise_session N (replicate 32 1) kc ks pc ps tc ts" and "noise_duplex N D" and "D 1 2 tc ts"
  shows "completes (async_tcp_run_client N kc) (async_tcp_run_server N ks)
     [str ''Connecting to TCP server on 127.0.0.1:9999'', str ''Connected'', str ''Initiating handshake...'',
      str ''Sent message'', received_line (replicate 9 7), str ''Sent end-of-stream marker'',
      str ''Received end-of-stream marker'']
     [str ''TCP server listening on 127.0.0.1:9999'', received_line pangolin, str ''Sent message'',
      str ''Received end-of-stream marker'', str ''Sent end-of-stream marker'']"
proof -
  from handshake_ends [OF assms(1) refl, where D = D, OF assms(3)] obtain x y where
    c: "completes (client N (version_init 1 0) (replicate 32 1) kc) (server N (version_init 1 0) (replicate 32 1) ks) x y" and
    s: "session_ends D 1 2 x y"
    by blast
  show ?thesis
    unfolding async_tcp_run_client_def async_tcp_run_server_def async_tcp_setup_def prod.case
      async_client_def async_server_def write_message_to_async_stream_def read_message_from_async_stream_def
      write_eos_marker_to_async_stream_def
    apply (rule completes_bind [OF completes_unwrap(2) [OF c]])
    apply (rule session_write [OF assms(2), where n = 0 and m = 2], use s in simp, simp)
    unfolding prod.case
    apply (rule session_read [OF assms(2), where n = 0 and m = 0], simp, simp)
    apply (simp add: slice_long)
    apply (rule session_write_eos, simp)
    apply (rule session_read_eos, simp)
    by (rule completes_return)
qed

text \<open>C22. A session of the command line program. An initiator and a responder with one pre-shared key of at most 32
  bytes complete the handshake, exchange their trimmed messages, empty or of many segments, and close the stream:
  every run of any interleaving of their reads and writes is finite and ends with each side having printed exactly the
  message of the other.\<close>

theorem cli_session_exchanges:
  assumes "noise_session N (psk @ replicate (32 - length psk) 0) kc ks pc ps tc ts" and "length psk \<le> 32"
    and "noise_duplex N D" and "D (segments (length (trim mc))) (segments (length (trim ms))) tc ts"
    and "utf8_valid mc" and "utf8_valid ms" and "sendable (trim mc)" and "sendable (trim ms)"
  shows "completes (cli_main N files kc [prog, psk, str ''initiator'', mc]) (cli_main N files' ks [prog', psk, str ''responder'', ms])
     [str ''Sent message'', str ''Received message: '' @ trim ms, str ''Received end-of-stream marker'',
      str ''Sent end-of-stream marker'', str ''Stream closed'']
     [str ''Received message: '' @ trim mc, str ''Sent message'', str ''Sent end-of-stream marker'',
      str ''Received end-of-stream marker'', str ''Stream closed'']"
proof -
  let ?psk = "psk @ replicate (32 - length psk) 0"
  have u: "unwrap (string_from_utf8 (trim mc)) = Ok (trim mc)" "unwrap (string_from_utf8 (trim ms)) = Ok (trim ms)"
    using trim_valid assms(5,6) by (simp_all add: unwrap_def)
  have "cli_main N files kc [prog, psk, str ''initiator'', mc] = cli_run_client N kc ?psk (trim mc)"
    "cli_main N files' ks [prog', psk, str ''responder'', ms] = cli_run_server N ks ?psk (trim ms)"
    using assms(2) by (simp_all add: cli_main_def parse_psk_and_mode_def unwrap_def str_def)
  then show ?thesis
    unfolding cli_run_client_def cli_run_server_def cli_setup_def prod.case Let_def
    apply (simp only:)
    apply (rule session_start [OF assms(1) refl, where D = D, OF assms(4)])
    apply (rule session_write [OF assms(3), where n = 0 and m = "segments (length (trim ms))"], simp, rule assms(7))
    apply (simp only: prod.case u p_try_simps)
    apply (rule session_read [OF assms(3), where n = 0 and m = 0], simp, rule assms(8))
    apply (simp only: prod.case u p_try_simps)
    apply (rule session_read_eos, simp)
    apply (rule session_write_eos, simp)
    by (rule completes_return)
qed

theorem cli_session_exchanges_witness:
  "completes (cli_main sample_noise (\<lambda>_. Err IoError) (replicate 32 1) [[], str ''secret'', str ''initiator'', str ''  ping ''])
     (cli_main sample_noise (\<lambda>_. Err IoError) (replicate 32 2) [[], str ''secret'', str ''responder'', str ''pong''])
     [str ''Sent message'', str ''Received message: '' @ trim (str ''pong''), str ''Received end-of-stream marker'',
      str ''Sent end-of-stream marker'', str ''Stream closed'']
     [str ''Received message: '' @ trim (str ''  ping ''), str ''Sent message'', str ''Sent end-of-stream marker'',
      str ''Received end-of-stream marker'', str ''Stream closed'']"
proof -
  have small: "sendable (trim s)" if "length s < 100" for s
  proof -
    have "length (trim s) \<le> 100" using that length_trim [of s] by simp
    then have "segments (length (trim s)) \<le> 100" by (simp add: segments_def div_le_dividend)
    with \<open>length (trim s) \<le> 100\<close> show ?thesis by (simp add: sendable_def)
  qed
  show ?thesis
    by (rule cli_session_exchanges [OF sample_noise_session _ sample_noise_duplex])
      (simp_all add: str_def utf8_valid_def small)
qed

end
