(* ===== verification/Handshake_Tests.thy ===== *)
theory Handshake_Tests
  imports Handshake_Examples
begin

text \<open>
  The benchmarks in \<^verbatim>\<open>handshake/benches\<close> and the unit tests in \<^verbatim>\<open>handshake/src/lib.rs\<close>: both benchmarked exchanges, the
  second with 10000 messages in each direction, complete, and the tests pass on every Noise library that meets the
  assumptions of the session lemmas.
\<close>

subsection \<open>Benchmarks\<close>

text \<open>\<^verbatim>\<open>handshake_sync.rs\<close> and \<^verbatim>\<open>message_sync.rs\<close>: the measured function connects to a thread of its own, which is the right end.\<close>

definition bench_setup :: "u8 list \<Rightarrow> u8 list \<Rightarrow> version \<times> version \<times> u8 list \<times> u8 list \<times> u8 list" where
  "bench_setup client_key server_key = (version_init 1 0, version_init 1 0, replicate 32 1, client_key, server_key)"

definition bench_handshake ::
  "('h, 't) noise \<Rightarrow> version \<Rightarrow> version \<Rightarrow> u8 list \<Rightarrow> u8 list \<Rightarrow> u8 list \<Rightarrow> unit proc \<times> unit proc" where
  "bench_handshake N client_version server_version psk client_key server_key =
     (p_bind (client N client_version psk client_key) (\<lambda>_. Return (Ok ())),
      p_bind (p_unwrap (server N server_version psk server_key)) (\<lambda>_. Return (Ok ())))"

primrec bench_client_loop :: "('h, 't) noise \<Rightarrow> nat \<Rightarrow> 't session \<Rightarrow> unit proc" where
  "bench_client_loop N 0 encrypted = Return (Ok ())"
| "bench_client_loop N (Suc n) encrypted =
     p_bind (write_message_to_stream N encrypted pangolin) (\<lambda>(encrypted, _).
     p_bind (read_message_from_stream N encrypted) (\<lambda>(encrypted, _).
     bench_client_loop N n encrypted))"

primrec bench_server_loop :: "('h, 't) noise \<Rightarrow> nat \<Rightarrow> 't session \<Rightarrow> unit proc" where
  "bench_server_loop N 0 encrypted = Return (Ok ())"
| "bench_server_loop N (Suc n) encrypted =
     p_bind (p_unwrap (read_message_from_stream N encrypted)) (\<lambda>(encrypted, _).
     p_bind (p_unwrap (write_message_to_stream N encrypted (replicate 77777 7))) (\<lambda>(encrypted, _).
     bench_server_loop N n encrypted))"

definition bench_message ::
  "('h, 't) noise \<Rightarrow> version \<Rightarrow> version \<Rightarrow> u8 list \<Rightarrow> u8 list \<Rightarrow> u8 list \<Rightarrow> unit proc \<times> unit proc" where
  "bench_message N client_version server_version psk client_key server_key =
     (p_bind (client N client_version psk client_key) (bench_client_loop N 10000),
      p_bind (p_unwrap (server N server_version psk server_key)) (bench_server_loop N 10000))"

lemma bench_loop_completes:
  assumes "noise_duplex N D"
  shows "session_ends D n (2 * n) x y \<Longrightarrow> completes (bench_client_loop N n x) (bench_server_loop N n y) () ()"
proof (induction n arbitrary: x y)
  case (Suc n)
  have "session_ends D (segments (length pangolin) + n) (2 * Suc n) x y" using Suc.prems by simp
  from write_read_completes [OF assms this sendable_examples(1)] obtain x1 y1 a b where
    c1: "completes (write_message_to_stream N x pangolin) (read_message_from_stream N y) (x1, a) (y1, b)" and
    s1: "session_ends D n (2 * Suc n) x1 y1"
    by blast
  from session_ends_swap [OF assms s1]
  have "session_ends D (segments (length (replicate 77777 (7 :: u8))) + 2 * n) n y1 x1" by simp
  from write_read_completes [OF assms this sendable_examples(3)] obtain y2 x2 c d where
    c2: "completes (write_message_to_stream N y1 (replicate 77777 7)) (read_message_from_stream N x1) (y2, c) (x2, d)" and
    s2: "session_ends D (2 * n) n y2 x2"
    by blast
  have "completes (bench_client_loop N n x2) (bench_server_loop N n y2) () ()"
    by (rule Suc.IH [OF session_ends_swap [OF assms s2]])
  then show ?case
    unfolding bench_client_loop.simps bench_server_loop.simps
    apply (intro completes_bind [OF completes_unwrap(2) [OF c1]])
    unfolding prod.case
    apply (intro completes_bind [OF completes_unwrap(2) [OF completes_swap [OF c2]]])
    by (simp only: prod.case)
qed (simp add: completes_return)

lemma bench_message_completes:
  assumes "noise_session N (replicate 32 1) kc ks pc ps tc ts" and "noise_duplex N D" and "D 10000 20000 tc ts"
  shows "case bench_setup kc ks of (vc, vs, psk, kc, ks) \<Rightarrow>
     case bench_message N vc vs psk kc ks of (P, Q) \<Rightarrow> completes P Q () ()"
proof -
  from handshake_ends [OF assms(1) refl, where D = D, OF assms(3)] obtain x y where
    c: "completes (client N (version_init 1 0) (replicate 32 1) kc) (server N (version_init 1 0) (replicate 32 1) ks) x y" and
    s: "session_ends D 10000 20000 x y"
    by blast
  have "session_ends D 10000 (2 * 10000) x y" using s by simp
  from completes_bind [OF completes_unwrap(2) [OF c], where k = "bench_client_loop N 10000" and l = "bench_server_loop N 10000",
      OF bench_loop_completes [OF assms(2) this]]
  show ?thesis by (simp add: bench_setup_def bench_message_def)
qed

lemma bench_handshake_completes:
  assumes "noise_session N (replicate 32 1) kc ks pc ps tc ts"
  shows "case bench_setup kc ks of (vc, vs, psk, kc, ks) \<Rightarrow>
     case bench_handshake N vc vs psk kc ks of (P, Q) \<Rightarrow> completes P Q () ()"
  using completes_bind [OF completes_unwrap(2) [OF handshake_run [OF assms refl]] completes_return]
  by (simp add: bench_setup_def bench_handshake_def)

subsection \<open>The unit tests of the handshake\<close>

text \<open>The tests run both sides over one buffer. \<open>sends n\<close> lets a method write into \<^verbatim>\<open>buf[..n]\<close>, \<open>receives n\<close> lets it read
  from there. A test returns whether its assertions hold.\<close>

definition sends :: "nat \<Rightarrow> u8 list \<Rightarrow> (u8 list \<Rightarrow> (u8 list \<times> 's) res) \<Rightarrow> (u8 list \<Rightarrow> 's \<Rightarrow> 'b res) \<Rightarrow> 'b res" where
  "sends n buf step k =
     and_then (slice buf 0 n) (\<lambda>b. and_then (step b) (\<lambda>(b, hs). k (b @ drop n buf) hs))"

definition receives :: "nat \<Rightarrow> u8 list \<Rightarrow> (u8 list \<Rightarrow> 's res) \<Rightarrow> ('s \<Rightarrow> 'b res) \<Rightarrow> 'b res" where
  "receives n buf step k = and_then (slice buf 0 n) (\<lambda>b. and_then (step b) k)"

definition version_text :: "version \<Rightarrow> rstring" where
  "version_text v = dec_text (unat (major v)) @ str ''.'' @ dec_text (unat (minor v))"

definition init_handshakers ::
  "u8 list \<Rightarrow> u8 list \<Rightarrow> u8 \<times> u8 \<Rightarrow> u8 \<times> u8 \<Rightarrow> client_send_version handshake \<times> server_recv_version handshake" where
  "init_handshakers client_key server_key client_version server_version =
     (new_client (version_init (fst client_version) (snd client_version)) (replicate 32 1) client_key,
      new_server (version_init (fst server_version) (snd server_version)) (replicate 32 1) server_key)"

definition version_to_bytes_test :: "bool res" where
  "version_to_bytes_test =
     (let v = version_init 0 1 in
      and_then (version_to_bytes v) (\<lambda>bs. and_then (version_from_bytes bs) (\<lambda>(_, v'). Ok (v = v'))))"

definition version_exchange_success :: "u8 list \<Rightarrow> u8 list \<Rightarrow> bool res" where
  "version_exchange_success kc ks =
     (case init_handshakers kc ks (1, 0) (1, 0) of (hs_client, hs_server) \<Rightarrow>
        sends VERSION_BYTES_LEN (replicate 8 0) (send_client_version hs_client) (\<lambda>buf hs_client.
        receives VERSION_BYTES_LEN buf (recv_client_version hs_server) (\<lambda>hs_server.
        sends VERSION_BYTES_LEN buf (send_server_version hs_server) (\<lambda>buf _.
        receives VERSION_BYTES_LEN buf (recv_server_version hs_client) (\<lambda>_. Ok True)))))"

definition version_exchange_failure :: "u8 list \<Rightarrow> u8 list \<Rightarrow> bool res" where
  "version_exchange_failure kc ks =
     (case init_handshakers kc ks (3, 7) (1, 0) of (hs_client, hs_server) \<Rightarrow>
        sends VERSION_BYTES_LEN (replicate 8 0) (send_client_version hs_client) (\<lambda>buf hs_client.
        receives VERSION_BYTES_LEN buf (recv_client_version hs_server) (\<lambda>hs_server.
        sends VERSION_BYTES_LEN buf (send_server_version hs_server) (\<lambda>buf _.
        and_then (slice buf 0 VERSION_BYTES_LEN) (\<lambda>client_buf.
        Ok (recv_server_version hs_client client_buf = Err (HandshakeError (IncompatibleServerVersion 1 3))))))))"

definition handshake_test :: "('h, 't) noise \<Rightarrow> u8 list \<Rightarrow> u8 list \<Rightarrow> bool res" where
  "handshake_test N kc ks =
     (case init_handshakers kc ks (1, 0) (1, 0) of (hs_client, hs_server) \<Rightarrow>
        sends VERSION_BYTES_LEN (replicate 1024 0) (send_client_version hs_client) (\<lambda>buf hs_client.
        receives VERSION_BYTES_LEN buf (recv_client_version hs_server) (\<lambda>hs_server.
        sends VERSION_BYTES_LEN buf (send_server_version hs_server) (\<lambda>buf hs_server.
        receives VERSION_BYTES_LEN buf (recv_server_version hs_client) (\<lambda>hs_client.
        and_then (build_client_noise_state_machine N hs_client) (\<lambda>hs_client.
        and_then (build_server_noise_state_machine N hs_server) (\<lambda>hs_server.
        and_then (send_client_ephemeral_key N hs_client buf) (\<lambda>(buf, hs_client).
        receives EPHEMERAL_KEY_BYTES_LEN buf (recv_client_ephemeral_key N hs_server) (\<lambda>hs_server.
        and_then (send_server_ephemeral_and_static_key N hs_server buf) (\<lambda>(buf, hs_server).
        receives EPHEMERAL_AND_STATIC_KEY_BYTES_LEN buf (recv_server_ephemeral_and_static_key N hs_client) (\<lambda>hs_client.
        and_then (send_client_static_key N hs_client buf) (\<lambda>(buf, hs_client).
        receives STATIC_KEY_BYTES_LEN buf (recv_client_static_key N hs_server) (\<lambda>hs_server.
        and_then (init_client_transport_mode N hs_client) (\<lambda>hs_client.
        and_then (init_server_transport_mode N hs_server) (\<lambda>hs_server.
        and_then (snd (write_message N pangolin hs_client)) (\<lambda>(write_len, encrypted_msg).
        and_then (if write_len < 2 ^ 32 then Ok (of_nat write_len :: u32) else Err TryFromIntError) (\<lambda>msg_len.
        and_then (snd (read_message N encrypted_msg msg_len hs_server)) (\<lambda>msg.
        Ok (msg = pangolin)))))))))))))))))))"

lemma version_tests_pass:
  "version_to_bytes_test = Ok True" "version_exchange_success kc ks = Ok True" "version_exchange_failure kc ks = Ok True"
  by (simp_all add: version_to_bytes_test_def version_exchange_success_def version_exchange_failure_def version_to_bytes_eq
      version_from_bytes_eq version_init_def init_handshakers_def sends_def receives_def handshake_steps slice_buf)

lemma concat_into_prefix: "length m \<le> length dst \<Longrightarrow> concat_into dst [m] = Ok (m @ drop (length m) dst)"
  by (simp add: concat_into_def)

lemma handshake_test_passes:
  assumes "noise_session N (replicate 32 1) kc ks pc ps tc ts" and "noise_link N L" and "L 1 tc ts"
  shows "handshake_test N kc ks = Ok True"
proof -
  from assms(1) obtain i0 i1 i2 i3 r0 r1 r2 r3 m1 m2 m3 p1 p2 p3 where
    n: "build_noise_state_machine N Initiator (replicate 32 1) kc = Ok i0"
      "build_noise_state_machine N Responder (replicate 32 1) ks = Ok r0"
      "noise_write N [] 48 i0 = (i1, Ok m1)" "noise_read N m1 1024 r0 = (r1, Ok p1)"
      "noise_write N [] 1024 r1 = (r2, Ok m2)" "noise_read N m2 96 i1 = (i2, Ok p2)"
      "noise_remote_static N i2 = Some ps" "noise_write N [] 64 i2 = (i3, Ok m3)"
      "noise_read N m3 1024 r2 = (r3, Ok p3)" "noise_remote_static N r3 = Some pc"
      "noise_into_transport N i3 = Ok tc" "noise_into_transport N r3 = Ok ts"
    and l: "length pc = 32" "length ps = 32" "length m1 = 48" "length m2 = 96" "length m3 = 64"
    by (auto simp: noise_session_def)
  define hw where "hw = after_handshake (version_init 1 0) (replicate 32 1) kc ps tc"
  define hr where "hr = after_handshake (version_init 1 0) (replicate 32 1) ks pc ts"
  from write_read_segments [OF assms(2), of pangolin 0 0 hw hr 0 "[]"] assms(3) obtain c hw' hr' where
    w: "write_segments N pangolin 0 0 [] hw = (hw', Ok (length c, c))" and lc: "length c = 45" and
    r: "\<And>pre acc. read_segments N (pre @ c) (length pre) (length c) acc hr = (hr', Ok (acc @ pangolin))"
    by (auto simp: hw_def hr_def after_handshake_def)
  have "read_segments N c 0 45 [] hr = (hr', Ok pangolin)" using r [of "[]" "[]"] lc by simp
  then show ?thesis
    using n l w lc
    by (simp add: handshake_test_def init_handshakers_def sends_def receives_def handshake_steps concat_into_prefix slice_buf
        version_init_def hw_def hr_def after_handshake_def write_message_def read_message_def)
qed

subsection \<open>The integration tests\<close>

text \<open>\<^verbatim>\<open>handshake/tests\<close>: a client and a server, the latter in a thread or task of its own. A failed assertion is a panic.\<close>

definition p_assert :: "bool \<Rightarrow> 'a proc \<Rightarrow> 'a proc" where
  "p_assert b p = (if b then p else Return (Panic AssertionFailed))"

definition sync_handshake_works :: "('h, 't) noise \<Rightarrow> u8 list \<Rightarrow> u8 list \<Rightarrow> unit proc \<times> unit proc" where
  "sync_handshake_works N client_key server_key =
     (let client_version = version_init 1 0; server_version = version_init 1 7; psk = replicate 32 1;
          msg_1 = pangolin; msg_2 = replicate 77777 7
      in (p_bind (client N client_version psk client_key) (\<lambda>encrypted.
          p_bind (write_message_to_stream N encrypted msg_1) (\<lambda>(encrypted, _).
          p_bind (read_message_from_stream N encrypted) (\<lambda>(encrypted, msg).
          p_assert (msg = msg_2)
         (p_bind (read_message_from_stream N encrypted) (\<lambda>(encrypted, eos_msg).
          p_assert (eos_msg = [])
         (p_bind (write_eos_marker_to_stream encrypted) (\<lambda>encrypted.
          Return (Ok ())))))))),
          p_bind (p_unwrap (server N server_version psk server_key)) (\<lambda>encrypted.
          p_bind (p_unwrap (read_message_from_stream N encrypted)) (\<lambda>(encrypted, msg).
          p_assert (msg = msg_1)
         (p_bind (p_unwrap (write_message_to_stream N encrypted msg_2)) (\<lambda>(encrypted, _).
          p_bind (p_unwrap (write_eos_marker_to_stream encrypted)) (\<lambda>encrypted.
          p_bind (p_unwrap (read_message_from_stream N encrypted)) (\<lambda>(encrypted, eos_msg).
          p_assert (eos_msg = []) (Return (Ok ()))))))))))"

definition async_test_setup :: "u8 list \<Rightarrow> version \<times> u8 list \<times> u8 list" where
  "async_test_setup private_key = (version_init 1 0, replicate 32 1, private_key)"

definition client_handshake :: "('h, 't) noise \<Rightarrow> u8 list \<Rightarrow> unit proc" where
  "client_handshake N key =
     (case async_test_setup key of (version, psk, private_key) \<Rightarrow>
        p_bind (async_client N version psk private_key) (\<lambda>encrypted.
        p_bind (write_message_to_async_stream N encrypted pangolin) (\<lambda>(encrypted, _).
        p_bind (read_message_from_async_stream N encrypted) (\<lambda>(encrypted, msg).
        p_assert (msg = replicate 77777 7)
       (p_bind (write_eos_marker_to_async_stream encrypted) (\<lambda>encrypted.
        p_bind (read_message_from_async_stream N encrypted) (\<lambda>(encrypted, eos_msg).
        p_assert (eos_msg = []) (Return (Ok ())))))))))"

definition server_handshake :: "('h, 't) noise \<Rightarrow> u8 list \<Rightarrow> unit proc" where
  "server_handshake N key =
     (case async_test_setup key of (version, psk, private_key) \<Rightarrow>
        p_bind (async_server N version psk private_key) (\<lambda>encrypted.
        p_bind (read_message_from_async_stream N encrypted) (\<lambda>(encrypted, msg).
        p_assert (msg = pangolin)
       (p_bind (write_message_to_async_stream N encrypted (replicate 77777 7)) (\<lambda>(encrypted, _).
        p_bind (read_message_from_async_stream N encrypted) (\<lambda>(encrypted, eos_msg).
        p_assert (eos_msg = [])
       (p_bind (write_eos_marker_to_async_stream encrypted) (\<lambda>encrypted.
        Return (Ok ())))))))))"

definition async_handshake_works :: "('h, 't) noise \<Rightarrow> u8 list \<Rightarrow> u8 list \<Rightarrow> unit proc \<times> unit proc" where
  "async_handshake_works N client_key server_key =
     (p_bind (p_unwrap (client_handshake N client_key)) (\<lambda>_. Return (Ok ())), p_unwrap (server_handshake N server_key))"

text \<open>Steps of a session whose right end unwraps its results.\<close>

lemma session_unwrap:
  assumes "noise_duplex N D" and "session_ends D (segments (length msg) + n) m x y" and "sendable msg"
    and "\<And>x' y'. session_ends D n m x' y' \<Longrightarrow>
       completes (k (x', length msg + 16 * segments (length msg))) (l (y', msg)) a b"
  shows "completes (p_bind (write_message_to_stream N x msg) k) (p_bind (p_unwrap (read_message_from_stream N y)) l) a b"
proof -
  from write_read_completes [OF assms(1-3)] obtain x' y' where
    "completes (write_message_to_stream N x msg) (read_message_from_stream N y)
       (x', length msg + 16 * segments (length msg)) (y', msg)" and "session_ends D n m x' y'"
    by blast
  from completes_bind [OF completes_unwrap(2) [OF this(1)], of k l, OF assms(4) [OF this(2)]] show ?thesis .
qed

lemma session_unwrap_read:
  assumes "noise_duplex N D" and "session_ends D n (segments (length msg) + m) x y" and "sendable msg"
    and "\<And>x' y'. session_ends D n m x' y' \<Longrightarrow>
       completes (k (x', msg)) (l (y', length msg + 16 * segments (length msg))) a b"
  shows "completes (p_bind (read_message_from_stream N x) k) (p_bind (p_unwrap (write_message_to_stream N y msg)) l) a b"
proof -
  from write_read_completes [OF assms(1) session_ends_swap [OF assms(1,2)] assms(3)] obtain y' x' where
    "completes (write_message_to_stream N y msg) (read_message_from_stream N x)
       (y', length msg + 16 * segments (length msg)) (x', msg)" and s: "session_ends D m n y' x'"
    by blast
  from completes_bind [OF completes_unwrap(2) [OF completes_swap [OF this(1)]], of k l]
    assms(4) [OF session_ends_swap [OF assms(1) s]]
  show ?thesis .
qed

lemma sync_handshake_completes:
  assumes "noise_session N (replicate 32 1) kc ks pc ps tc ts" and "noise_duplex N D" and "D 1 2 tc ts"
  shows "case sync_handshake_works N kc ks of (P, Q) \<Rightarrow> completes P Q () ()"
proof -
  from handshake_ends [OF assms(1), of "version_init 1 0" "version_init 1 7" D, OF _ assms(3)] obtain x y where
    c: "completes (client N (version_init 1 0) (replicate 32 1) kc) (server N (version_init 1 7) (replicate 32 1) ks) x y" and
    s: "session_ends D 1 2 x y"
    by (auto simp: version_init_def)
  show ?thesis
    unfolding sync_handshake_works_def Let_def prod.case
    apply (rule completes_bind [OF completes_unwrap(2) [OF c]])
    apply (rule session_unwrap [OF assms(2), where n = 0 and m = 2], use s in simp, simp)
    apply (simp only: prod.case p_assert_def simp_thms if_True)
    apply (rule session_unwrap_read [OF assms(2), where n = 0 and m = 0], simp, simp)
    apply (simp only: prod.case simp_thms if_True)
    apply (rule completes_bind [OF completes_unwrap(2) [OF completes_swap [OF eos_completes]]])
    apply (simp only: prod.case simp_thms if_True)
    apply (rule completes_bind [OF completes_unwrap(2) [OF eos_completes]])
    by (simp add: completes_return)
qed

lemma async_handshake_completes:
  assumes "noise_session N (replicate 32 1) kc ks pc ps tc ts" and "noise_duplex N D" and "D 1 2 tc ts"
  shows "case async_handshake_works N kc ks of (P, Q) \<Rightarrow> completes P Q () ()"
proof -
  from handshake_ends [OF assms(1) refl, where D = D, OF assms(3)] obtain x y where
    c: "completes (client N (version_init 1 0) (replicate 32 1) kc) (server N (version_init 1 0) (replicate 32 1) ks) x y" and
    s: "session_ends D 1 2 x y"
    by blast
  have "completes (client_handshake N kc) (server_handshake N ks) () ()"
    unfolding client_handshake_def server_handshake_def async_test_setup_def prod.case async_client_def async_server_def
      write_message_to_async_stream_def read_message_from_async_stream_def write_eos_marker_to_async_stream_def
    apply (rule completes_bind [OF c])
    apply (rule session_write [OF assms(2), where n = 0 and m = 2], use s in simp, simp)
    apply (simp only: prod.case p_assert_def simp_thms if_True)
    apply (rule session_read [OF assms(2), where n = 0 and m = 0], simp, simp)
    apply (simp only: prod.case simp_thms if_True)
    apply (rule session_write_eos)
    apply (simp only: prod.case simp_thms if_True)
    apply (rule session_read_eos)
    by (simp add: completes_return)
  from completes_unwrap(1) [OF completes_unwrap(2) [OF this]]
  have "completes (p_unwrap (client_handshake N kc)) (p_unwrap (server_handshake N ks)) () ()" .
  from completes_then [OF this, of "\<lambda>r. p_try r (\<lambda>_. Return (Ok ()))" Return "()" "()"]
  show ?thesis by (simp add: async_handshake_works_def p_bind_def p_then_Return completes_return)
qed

end
