(* ===== verification/Length_Prefixed_Example.thy ===== *)
theory Length_Prefixed_Example
  imports Length_Prefixed_Props Rust_Text
begin

text \<open>
  \<^verbatim>\<open>length_prefixed_stream/examples/decode.rs\<close>: two messages in four reads. The program prints every message that
  the stream delivers and stops at the first error.
\<close>

definition decode_example_input :: "piece list" where
  "decode_example_input = [Data [6, 97, 98, 99], Data [100, 101], Data [102, 4, 65, 66], Data [67, 68]]"

primrec print_chunks :: "(u8 list) res list \<Rightarrow> rstring list res" where
  "print_chunks [] = Ok []"
| "print_chunks (x # xs) = and_then x (\<lambda>chunk. and_then (print_chunks xs) (\<lambda>ls. Ok (bytes_debug chunk # ls)))"

text \<open>\<open>k\<close> bounds the number of polls.\<close>

definition decode_example_main :: "nat \<Rightarrow> bool \<Rightarrow> rstring list res" where
  "decode_example_main k checks = print_chunks (poll_items k checks (decode decode_example_input))"

lemma decode_example_prints:
  "decode_example_main 3 checks = Ok [str ''[97, 98, 99, 100, 101, 102]'', str ''[65, 66, 67, 68]'']"
proof -
  let ?bs = "[[97, 98, 99, 100, 101, 102], [65, 66, 67, 68]] :: u8 list list"
  let ?ps = "[[6, 97, 98, 99], [100, 101], [102, 4, 65, 66], [67, 68]] :: u8 list list"
  have l: "len_bytes [97, 98, 99, 100, 101, 102] = [6]" "len_bytes [65, 66, 67, 68] = [4]"
    by (simp_all add: len_bytes_def varint_bytes.simps)
  have "poll_items (Suc (length ?bs)) checks (decode_with_options (map Data ?ps) default_options) =
      map (\<lambda>b. Ok (item_of default_options b)) ?bs"
  proof (rule decode_frames)
    show "\<forall>i < length ?ps. cut_ok ?bs (length (concat (take (Suc i) ?ps)))"
      by (intro allI impI cut_ok_small) simp
  qed (use l in \<open>simp_all add: framed_def frame_fits_def default_options_def\<close>)
  then have "poll_items 3 checks (decode decode_example_input) = map Ok ?bs"
    by (simp add: decode_def decode_example_input_def item_of_def default_options_def numeral_3_eq_3 del: poll_items.simps)
  moreover have "bytes_debug [97, 98, 99, 100, 101, 102] = str ''[97, 98, 99, 100, 101, 102]''"
    "bytes_debug [65, 66, 67, 68] = str ''[65, 66, 67, 68]''"
    by code_simp+
  ultimately show ?thesis by (simp add: decode_example_main_def)
qed

end
