(* ===== verification/Length_Prefixed_Tests.thy ===== *)
theory Length_Prefixed_Tests
  imports Length_Prefixed_Example
begin

text \<open>
  \<^verbatim>\<open>length_prefixed_stream/tests\<close>. A test is a bool: whether polling the stream to its end yields the expected messages. In
  the test \<open>multibyte_msg_len\<close> a read ends between the two bytes of a length; it ends in the read that also brings the
  message before, so the length is complete when it is decoded.
\<close>

subsection \<open>The tests\<close>

text \<open>\<^verbatim>\<open>while let Some(chunk) = decoder.next().await { observed.push(chunk?); }\<close>\<close>

primrec observe :: "(u8 list) res list \<Rightarrow> u8 list list res" where
  "observe [] = Ok []"
| "observe (x # xs) = and_then x (\<lambda>chunk. and_then (observe xs) (\<lambda>observed. Ok (chunk # observed)))"

definition yields :: "bool \<Rightarrow> piece list \<Rightarrow> decode_options \<Rightarrow> u8 list list \<Rightarrow> bool" where
  "yields checks input options chunks \<longleftrightarrow>
     observe (poll_items (Suc (length chunks)) checks (decode_with_options input options)) = Ok chunks"

definition simple_0 :: "bool \<Rightarrow> bool" where
  "simple_0 checks \<longleftrightarrow>
     yields checks [Data [6, 97, 98, 99], Data [100, 101], Data [102, 4, 65, 66], Data [67, 68]] default_options
       [[97, 98, 99, 100, 101, 102], [65, 66, 67, 68]]"

definition simple_1 :: "bool \<Rightarrow> bool" where
  "simple_1 checks \<longleftrightarrow>
     yields checks [Data [3, 10, 20, 30, 5], Data [11, 12, 13, 14, 15], Data [1, 6, 3, 103], Data [102, 101]] default_options
       [[10, 20, 30], [11, 12, 13, 14, 15], [6], [103, 102, 101]]"

definition counting :: "nat \<Rightarrow> nat \<Rightarrow> u8 list" where
  "counting a b = map (\<lambda>c. of_nat (c mod 256)) [a..<b]"

definition multibyte_msg_len :: "bool \<Rightarrow> bool" where
  "multibyte_msg_len checks \<longleftrightarrow>
     yields checks
       [Data [4, 200, 201, 202, 203, 144], Data ([3] @ counting 0 200), Data (counting 200 395),
        Data (counting 395 400 @ [5, 99]), Data [98, 97, 96], Data [95, 4, 150, 150, 150, 150, 1], Data [55]]
       default_options
       [[200, 201, 202, 203], counting 0 400, [99, 98, 97, 96, 95], [150, 150, 150, 150], [55]]"

definition options_include_len :: "bool \<Rightarrow> bool" where
  "options_include_len checks \<longleftrightarrow>
     yields checks [Data [6, 97, 98, 99], Data [100, 101], Data [102, 4, 65, 66], Data [67, 68]]
       (default_options\<lparr>include_len := True\<rparr>)
       [[6, 97, 98, 99, 100, 101, 102], [4, 65, 66, 67, 68]]"

subsection \<open>They pass\<close>

lemma observe_Ok: "observe (map (\<lambda>b. Ok (f b)) bs) = Ok (map f bs)"
  by (induction bs) simp_all

lemma len_bytes_small:
  assumes "length b < 128"
  shows "len_bytes b = [of_nat (length b)]"
proof -
  let ?v = "of_nat (length b) :: u64"
  have v: "unat ?v = length b" using assms by (intro unat_of_nat_u64) simp
  then have "?v \<le> 127" using assms by (simp add: word_le_nat_alt)
  moreover have "(ucast ?v :: u8) = of_nat (length b)"
    by (rule word_unat_eq_iff [THEN iffD2]) (simp only: unat_ucast_u8 v, simp add: unat_of_nat)
  ultimately show ?thesis by (simp add: len_bytes_def varint_bytes_small)
qed

lemma yields_frames:
  assumes "input = map Data ps" and "concat ps = concat (map framed bs)" and "[] \<notin> set ps"
    and "\<forall>b \<in> set bs. b \<noteq> [] \<and> length b < 128 \<and> length b + 1 \<le> max_size options" and "chunks = map (item_of options) bs"
  shows "yields checks input options chunks"
proof -
  have "\<forall>b \<in> set bs. frame_fits (max_size options) b"
    using assms(4) by (auto simp: frame_fits_def framed_def len_bytes_small)
  moreover have "\<forall>i < length ps. cut_ok bs (length (concat (take (Suc i) ps)))"
    using assms(4) by (blast intro: cut_ok_small)
  ultimately show ?thesis
    using decode_frames [OF assms(2,3)] by (simp add: yields_def assms(1,5) observe_Ok del: poll_items.simps)
qed

lemma simple_0_passes: "simple_0 checks"
  unfolding simple_0_def
  by (rule yields_frames [where ps = "[[6, 97, 98, 99], [100, 101], [102, 4, 65, 66], [67, 68]]" and
        bs = "[[97, 98, 99, 100, 101, 102], [65, 66, 67, 68]]"])
    (simp_all add: framed_def len_bytes_small default_options_def item_of_def)

lemma simple_1_passes: "simple_1 checks"
  unfolding simple_1_def
  by (rule yields_frames [where ps = "[[3, 10, 20, 30, 5], [11, 12, 13, 14, 15], [1, 6, 3, 103], [102, 101]]" and
        bs = "[[10, 20, 30], [11, 12, 13, 14, 15], [6], [103, 102, 101]]"])
    (simp_all add: framed_def len_bytes_small default_options_def item_of_def)

lemma options_include_len_passes: "options_include_len checks"
  unfolding options_include_len_def
  by (rule yields_frames [where ps = "[[6, 97, 98, 99], [100, 101], [102, 4, 65, 66], [67, 68]]" and
        bs = "[[97, 98, 99, 100, 101, 102], [65, 66, 67, 68]]"])
    (simp_all add: framed_def len_bytes_small default_options_def item_of_def)

text \<open>The first call of \<^verbatim>\<open>next\<close> in \<open>multibyte_msg_len\<close>. It reads once, returns the first message and leaves the first byte of
  the second length at the start of the buffer; the length that it tries to decode there reaches behind the received bytes.\<close>

lemma length_counting: "length (counting a b) = b - a"
  by (simp add: counting_def)

lemma counting_eq_Nil: "counting a b = [] \<longleftrightarrow> b \<le> a" "[] = counting a b \<longleftrightarrow> b \<le> a"
  by (auto simp: counting_def)

lemma counting_append: "a \<le> b \<Longrightarrow> b \<le> c \<Longrightarrow> counting a b @ counting b c = counting a c"
  using upt_add_eq_append [of a b "c - b"] by (simp add: counting_def flip: map_append)

lemma len_bytes_400: "length b = 400 \<Longrightarrow> len_bytes b = [144, 3]"
  by (simp add: len_bytes_def varint_bytes.simps)

lemma multibyte_first:
  assumes "input = Data [4, 200, 201, 202, 203, 144] # rest"
  obtains d where "decoder_next checks (decoder_new input default_options) = (d, Ok (Some [200, 201, 202, 203]))"
    and "dc_input d = rest" and "dc_queue d = []" and "dc_write_offset d = 1" and "dc_options d = default_options"
    and "take 1 (dc_buffer d) = [144]" and "length (dc_buffer d) = 50000"
proof -
  let ?d = "decoder_new input default_options"
  let ?z = "replicate 49992 0 :: u8 list"
  let ?d1 = "?d\<lparr>dc_input := rest, dc_buffer := [4, 200, 201, 202, 203, 144, 0, 0] @ ?z, dc_write_offset := 6\<rparr>"
  have z: "replicate 49994 (0 :: u8) = 0 # 0 # ?z"
    using replicate_add [of 2 49992 "0 :: u8"] by (simp add: numeral_2_eq_2)
  have r: "decoder_read ?d = (?d1, Ok 6)"
    by (simp add: decoder_read_def decoder_new_def default_options_def assms z)
  have "varint_decode (len_bytes [200, 201, 202, 203] @ [200, 201, 202, 203, 144, 0, 0] @ ?z) = Ok (1, 4)"
    by (subst varint_decode_framed) (simp_all add: len_bytes_small)
  then have "varint_decode (dc_buffer ?d1) = Ok (1, 4)" by (simp add: len_bytes_small)
  then have p: "prefix_loop ?d = (?d1, Ok (Some (1, 4)))"
    using r by (subst prefix_loop.simps) simp
  have b: "body_loop 4 1 ?d1 = (?d1, Ok ())" by (subst body_loop.simps) simp
  have c: "cut_message ?d1 0 1 4 = Ok [200, 201, 202, 203]"
    by (simp add: cut_message_def decoder_new_def default_options_def slice_eq_Ok)
  have "varint_decode (144 # 0 # 0 # ?z) = Ok (2, 16)"
    using varint_decode_stale [of 16] by simp
  then have q: "queue_loop 5 ?d1 = (?d1, Ok 5)"
    by (intro queue_loop_stop) auto
  obtain d where sh: "shift_buffer checks 5 ?d1 = (d, Ok ())" and d: "dc_input d = rest" "dc_queue d = []" "dc_write_offset d = 1"
    "dc_options d = default_options" "take 1 (dc_buffer d) = [144]" "length (dc_buffer d) = 50000"
    by (simp add: shift_buffer_def decoder_new_def)
  have "decoder_next checks ?d = (d, Ok (Some [200, 201, 202, 203]))"
    using p b c q sh by (simp add: decoder_next_def m_bind_def m_then_def m_return_def decoder_new_def)
  then show thesis using d by (rule that)
qed

lemma multibyte_msg_len_passes: "multibyte_msg_len checks"
proof -
  let ?ps = "[[3] @ counting 0 200, counting 200 395, counting 395 400 @ [5, 99], [98, 97, 96],
    [95, 4, 150, 150, 150, 150, 1], [55]]"
  let ?bs = "[counting 0 400, [99, 98, 97, 96, 95], [150, 150, 150, 150], [55]]"
  obtain d where n: "decoder_next checks (decoder_new (map Data ([4, 200, 201, 202, 203, 144] # ?ps)) default_options) =
      (d, Ok (Some [200, 201, 202, 203]))"
    and d: "dc_input d = map Data ?ps" "dc_queue d = []" "dc_write_offset d = 1" "dc_options d = default_options"
    "take 1 (dc_buffer d) = [144]" "length (dc_buffer d) = 50000"
    by (rule multibyte_first) simp_all
  have "counting 0 200 @ counting 200 395 @ counting 395 400 = counting 0 400"
    using counting_append [of 200 395 400] counting_append [of 0 200 400] by simp
  then have all: "counting 0 200 @ counting 200 395 @ counting 395 400 @ xs = counting 0 400 @ xs" for xs
    by (metis append.assoc)
  have bytes: "concat (map framed ?bs) = 144 # concat ?ps"
    by (simp add: framed_def len_bytes_400 len_bytes_small length_counting all)
  have cuts: "cut_ok ?bs (1 + length (concat (take (Suc i) ?ps)))" if "i < length ?ps" for i
  proof -
    from that have "i = 0 \<or> i = 1 \<or> i = 2 \<or> i = 3 \<or> i = 4 \<or> i = 5" by auto
    then show ?thesis
      by (elim disjE; simp only:) (simp_all add: length_counting len_bytes_400 len_bytes_small framed_def)
  qed
  have "carries d ?bs"
    unfolding carries_def
  proof (intro conjI exI [of _ ?ps])
    show "decoder_ok d" using d by (simp add: decoder_ok_def)
    show "pending d = concat (map framed ?bs)" unfolding bytes using d by (simp add: pending_def)
    show "\<forall>b \<in> set ?bs. frame_fits (length (dc_buffer d)) b"
      using d(6) by (simp add: frame_fits_def framed_def len_bytes_400 len_bytes_small length_counting counting_eq_Nil)
    show "\<forall>i < length ?ps. cut_ok ?bs (dc_write_offset d + length (concat (take (Suc i) ?ps)))"
      unfolding d(3) using cuts by blast
  qed (use d in \<open>simp_all add: counting_eq_Nil\<close>)
  from poll_items_carries [OF this d(2)] poll_items_Some [OF n] show ?thesis
    using observe_Ok [of "\<lambda>b. b"]
    by (simp add: multibyte_msg_len_def yields_def decode_with_options_def d framed_def len_bytes_400 length_counting
        item_of_def default_options_def del: poll_items.simps)
qed

end
