(* ===== verification/Workspace_Display.thy ===== *)
theory Workspace_Display
  imports Rust_Text Cable_Post Cable_Message
begin

text \<open>
  The \<^verbatim>\<open>Display\<close> and \<^verbatim>\<open>Debug\<close> implementations of the workspace: the texts of its errors
  (\<^verbatim>\<open>cable/src/error.rs\<close>, \<^verbatim>\<open>desert/src/error.rs\<close>, \<^verbatim>\<open>length_prefixed_stream/src/error.rs\<close>,
  \<^verbatim>\<open>handshake/src/error.rs\<close>), and the printed forms of query options, user information, posts and messages
  (\<^verbatim>\<open>cable/src/lib.rs\<close>, \<^verbatim>\<open>cable/src/post.rs\<close>, \<^verbatim>\<open>cable/src/message.rs\<close>).
\<close>

subsection \<open>Errors\<close>

fun cable_error_text :: "cable_error_kind \<Rightarrow> rstring" where
  "cable_error_text MessageEmpty = str ''empty message''"
| "cable_error_text (MessageWriteUnrecognizedType t) =
     str ''cannot write unrecognized msg_type='' @ dec_text (unat t)"
| "cable_error_text (DstTooSmall provided required) =
     str ''destination buffer too small; '' @ dec_text required @ str '' bytes required, '' @
     dec_text provided @ str '' provided''"
| "cable_error_text MessageHashResponseEnd = str ''unexpected end of HashResponse''"
| "cable_error_text MessageDataResponseEnd = str ''unexpected end of DataResponse''"
| "cable_error_text MessageHashRequestEnd = str ''unexpected end of HashRequest''"
| "cable_error_text MessageCancelRequestEnd = str ''unexpected end of CancelRequest''"
| "cable_error_text MessageChannelTimeRangeRequestEnd = str ''unexpected end of ChannelTimeRangeRequest''"
| "cable_error_text MessageChannelStateRequestEnd = str ''unexpected end of ChannelStateRequest''"
| "cable_error_text MessageChannelListRequestEnd = str ''unexpected end of ChannelListRequest''"
| "cable_error_text (NoneError context) = str ''expected data but got none: '' @ context"
| "cable_error_text PostHashingFailed = str ''failed to compute hash for post''"
| "cable_error_text (PostWriteUnrecognizedType t) =
     str ''cannot write unrecognized post_type='' @ dec_text (unat t)"
| "cable_error_text (ChannelLengthIncorrect channel len) =
     str ''expected channel between 1 and 64 codepoints; channel `'' @ channel @ str ''` is '' @ dec_text len @
     str '' codepoints''"
| "cable_error_text (TextLengthIncorrect txt len) =
     str ''expected text of 4096 bytes or less; text `'' @ txt @ str ''` is '' @ dec_text len @ str '' bytes''"
| "cable_error_text (TopicLengthIncorrect topic len) =
     str ''expected topic between 0 and 512 codepoints; topic `'' @ topic @ str ''` is '' @ dec_text len @
     str '' codepoints''"
| "cable_error_text (UsernameLengthIncorrect name len) =
     str ''expected username between 1 and 32 codepoints; name `'' @ name @ str ''` is '' @ dec_text len @
     str '' codepoints''"

fun desert_error_text :: "desert_error_kind \<Rightarrow> rstring" where
  "desert_error_text (DstInsufficient required provided) =
     str ''dst buffer too small. required '' @ dec_text required @ str '' bytes, provided '' @ dec_text provided @
     str '' bytes''"
| "desert_error_text (SrcInsufficient required provided) =
     str ''src buffer too small. required '' @ dec_text required @ str '' bytes, provided '' @ dec_text provided @
     str '' bytes''"
| "desert_error_text VarintSrcInsufficient = str ''end of buffer reached while decoding varint''"
| "desert_error_text VarintDstInsufficient = str ''dst buffer too small to encode varint''"

fun decode_error_text :: "decode_error_kind \<Rightarrow> rstring" where
  "decode_error_text UnexpectedEndVarint = str ''unexpected end of input stream while decoding varint''"
| "decode_error_text UnexpectedEndMessage = str ''unexpected end of input stream while decoding message''"

fun handshake_error_text :: "handshake_error \<Rightarrow> rstring" where
  "handshake_error_text (IncompatibleServerVersion r e) =
     str ''Received server major version `'' @ dec_text (unat r) @ str ''` does not match client major version `'' @
     dec_text (unat e) @ str ''`''"

fun error_text :: "text_lib \<Rightarrow> error \<Rightarrow> rstring" where
  "error_text L (CableError k) = cable_error_text k"
| "error_text L (DesertError k) = desert_error_text k"
| "error_text L (DecodeError k) = decode_error_text k"
| "error_text L (HandshakeError k) = handshake_error_text k"
| "error_text L e = foreign_text L e"

subsection \<open>Options and user information\<close>

definition channel_options_text :: "text_lib \<Rightarrow> channel_options \<Rightarrow> rstring" where
  "channel_options_text L opts =
     str ''channel: '' @ quoted L (opt_channel opts) @ str '', start: '' @ dec_text (unat (opt_time_start opts)) @
     str '', end: '' @ dec_text (unat (opt_time_end opts)) @ str '', limit: '' @ dec_text (unat (opt_limit opts))"

definition user_info_debug :: "text_lib \<Rightarrow> user_info \<Rightarrow> rstring" where
  "user_info_debug L u = str ''key: '' @ quoted L (ui_key u) @ str '', val: '' @ quoted L (ui_val u)"

definition user_info_text :: "user_info \<Rightarrow> rstring" where
  "user_info_text u = str ''key: '' @ ui_key u @ str '', val: '' @ ui_val u"

subsection \<open>Posts\<close>

definition hex_quoted :: "text_lib \<Rightarrow> u8 list \<Rightarrow> rstring" where
  "hex_quoted L bs = quoted L (hex_encode L bs)"

definition post_header_text :: "text_lib \<Rightarrow> post_header \<Rightarrow> rstring" where
  "post_header_text L h =
     str ''public_key: '' @ hex_quoted L (ph_public_key h) @ str '', signature: '' @ hex_quoted L (ph_signature h) @
     str '', links: '' @ vec_debug (map (hex_quoted L) (ph_links h)) @ str '', post_type: '' @
     dec_text (unat (ph_post_type h)) @ str '', timestamp: '' @ dec_text (unat (ph_timestamp h))"

fun post_body_text :: "text_lib \<Rightarrow> post_body \<Rightarrow> rstring" where
  "post_body_text L (Text ch txt) = str ''channel: '' @ quoted L ch @ str '', text: '' @ quoted L txt"
| "post_body_text L (Delete hashes) = str ''hashes: '' @ vec_debug (map (hex_quoted L) hashes)"
| "post_body_text L (Info info) = str ''info: '' @ vec_debug (map (user_info_debug L) info)"
| "post_body_text L (Topic ch tp) = str ''channel: '' @ quoted L ch @ str '', topic: '' @ quoted L tp"
| "post_body_text L (Join ch) = str ''channel: '' @ quoted L ch"
| "post_body_text L (Leave ch) = str ''channel: '' @ quoted L ch"
| "post_body_text L (UnrecognizedPost _) = str ''post_type: unrecognized''"

definition post_kind_text :: "u64 \<Rightarrow> rstring" where
  "post_kind_text t =
     (if t = 0 then str ''post/text'' else if t = 1 then str ''post/delete'' else if t = 2 then str ''post/info''
      else if t = 3 then str ''post/topic'' else if t = 4 then str ''post/join'' else if t = 5 then str ''post/leave''
      else str ''post/unknown'')"

definition post_display :: "text_lib \<Rightarrow> post \<Rightarrow> rstring" where
  "post_display L p =
     post_kind_text (ph_post_type (p_header p)) @ str '' { '' @ post_header_text L (p_header p) @ str '', '' @
     post_body_text L (p_body p) @ str '' }''"

subsection \<open>Messages\<close>

definition message_header_text :: "text_lib \<Rightarrow> message_header \<Rightarrow> rstring" where
  "message_header_text L h =
     str ''msg_type: '' @ dec_text (unat (mh_msg_type h)) @ str '', circuit_id: '' @ hex_quoted L (mh_circuit_id h) @
     str '', req_id: '' @ hex_quoted L (mh_req_id h)"

fun request_body_text :: "text_lib \<Rightarrow> request_body \<Rightarrow> rstring" where
  "request_body_text L (PostRequest hashes) = str ''hashes: '' @ vec_debug (map (hex_quoted L) hashes)"
| "request_body_text L (CancelRequest cancel_id) = str ''cancel_id: '' @ hex_quoted L cancel_id"
| "request_body_text L (ChannelTimeRangeRequest ch time_start time_end limit) =
     str ''channel: '' @ quoted L ch @ str '', time_start: '' @ dec_text (unat time_start) @ str '', time_end: '' @
     dec_text (unat time_end) @ str '', limit: '' @ dec_text (unat limit)"
| "request_body_text L (ChannelStateRequest ch future) =
     str ''channel: '' @ quoted L ch @ str '', future: '' @ dec_text (unat future)"
| "request_body_text L (ChannelListRequest skip limit) =
     str ''offset: '' @ dec_text (unat skip) @ str '', limit: '' @ dec_text (unat limit)"

fun response_body_text :: "text_lib \<Rightarrow> response_body \<Rightarrow> rstring" where
  "response_body_text L (HashResponse hashes) = str ''hashes: '' @ vec_debug (map (hex_quoted L) hashes)"
| "response_body_text L (PostResponse posts) = str ''posts: '' @ vec_debug (map (hex_quoted L) posts)"
| "response_body_text L (ChannelListResponse channels) = str ''channels: '' @ vec_debug (map (quoted L) channels)"

fun message_body_text :: "text_lib \<Rightarrow> message_body \<Rightarrow> rstring" where
  "message_body_text L (Request ttl body) = str ''ttl: '' @ dec_text (unat ttl) @ str '', '' @ request_body_text L body"
| "message_body_text L (Response body) = response_body_text L body"
| "message_body_text L (UnrecognizedMsg _) = str ''msg_type: unrecognized''"

definition message_kind_text :: "u64 \<Rightarrow> rstring" where
  "message_kind_text t =
     (if t = 0 then str ''HashResponse'' else if t = 1 then str ''PostResponse'' else if t = 2 then str ''PostRequest''
      else if t = 3 then str ''CancelRequest'' else if t = 4 then str ''ChannelTimeRangeRequest''
      else if t = 5 then str ''ChannelStateRequest'' else if t = 6 then str ''ChannelListRequest''
      else if t = 7 then str ''ChannelListResponse'' else str ''Unknown'')"

definition message_display :: "text_lib \<Rightarrow> message \<Rightarrow> rstring" where
  "message_display L m =
     message_kind_text (mh_msg_type (m_header m)) @ str '' { '' @ message_header_text L (m_header m) @ str '', '' @
     message_body_text L (m_body m) @ str '' }''"

end
