(* ===== verification/Cable_Vectors.thy ===== *)
theory Cable_Vectors
  imports Workspace_Display Workspace_Execution
begin

text \<open>
  The unit tests of the crate \<^verbatim>\<open>cable\<close> (the \<^verbatim>\<open>test\<close> modules of \<^verbatim>\<open>message.rs\<close>, \<^verbatim>\<open>post.rs\<close> and
  \<^verbatim>\<open>validation.rs\<close>), run on the model: each test is a bool, true when all its assertions hold. The vectors
  are those of the reference implementation of the protocol, so they tie the model to the wire format.
  The test \<^verbatim>\<open>verify_post\<close> is a statement about the signature scheme, a parameter of the model: it is reduced to the one
  signature check that it makes.
\<close>

subsection \<open>Literals\<close>

definition REQ_ID :: "u8 list" where
  "REQ_ID = hex ''04baaffb''"

definition CANCEL_ID :: "u8 list" where
  "CANCEL_ID = hex ''31b5c9e1''"

definition HASH_1 :: "u8 list" where
  "HASH_1 = hex ''15ed54965515babf6f16be3f96b04b29ecca813a343311dae483691c07ccf4e5''"

definition HASH_2 :: "u8 list" where
  "HASH_2 = hex ''97fc63631c41384226b9b68d9f73ffaaf6eac54b71838687f48f112e30d6db68''"

definition HASH_3 :: "u8 list" where
  "HASH_3 = hex ''9c2939fec6d47b00bafe6967aeff697cf4b5abca01b04ba1b31a7e3752454bfa''"

definition ENCODED_POST :: "u8 list" where
  "ENCODED_POST = hex ''25b272a71555322d40efe449a7f99af8fd364b92d350f1664481b2da340a02d0abb083ecdca569f064564942ddf1944fbf550dc27ea36a7074be798d753cb029703de77b1a9532b6ca2ec5706e297dce073d6e508eeb425c32df8431e4677805015049d089a650aa896cb25ec35258653be4df196b4a5e5b6db7ed024aaa89e1b305500764656661756c74''"

definition CANCEL_REQUEST_HEX_BINARY :: "u8 list" where
  "CANCEL_REQUEST_HEX_BINARY = hex ''0e030000000004baaffb0131b5c9e1''"

definition CHANNEL_LIST_REQUEST_HEX_BINARY :: "u8 list" where
  "CHANNEL_LIST_REQUEST_HEX_BINARY = hex ''0c060000000004baaffb010014''"

definition CHANNEL_LIST_RESPONSE_HEX_BINARY :: "u8 list" where
  "CHANNEL_LIST_RESPONSE_HEX_BINARY = hex ''23070000000004baaffb0764656661756c74036465760c696e74726f64756374696f6e00''"

definition CHANNEL_STATE_REQUEST_HEX_BINARY :: "u8 list" where
  "CHANNEL_STATE_REQUEST_HEX_BINARY = hex ''13050000000004baaffb010764656661756c7400''"

definition CHANNEL_TIME_RANGE_REQUEST_HEX_BINARY :: "u8 list" where
  "CHANNEL_TIME_RANGE_REQUEST_HEX_BINARY = hex ''15040000000004baaffb010764656661756c74006414''"

definition HASH_RESPONSE_HEX_BINARY :: "u8 list" where
  "HASH_RESPONSE_HEX_BINARY = hex ''6a000000000004baaffb0315ed54965515babf6f16be3f96b04b29ecca813a343311dae483691c07ccf4e597fc63631c41384226b9b68d9f73ffaaf6eac54b71838687f48f112e30d6db689c2939fec6d47b00bafe6967aeff697cf4b5abca01b04ba1b31a7e3752454bfa''"

definition POST_REQUEST_HEX_BINARY :: "u8 list" where
  "POST_REQUEST_HEX_BINARY = hex ''6b020000000004baaffb010315ed54965515babf6f16be3f96b04b29ecca813a343311dae483691c07ccf4e597fc63631c41384226b9b68d9f73ffaaf6eac54b71838687f48f112e30d6db689c2939fec6d47b00bafe6967aeff697cf4b5abca01b04ba1b31a7e3752454bfa''"

definition POST_RESPONSE_HEX_BINARY :: "u8 list" where
  "POST_RESPONSE_HEX_BINARY = hex ''9701010000000004baaffb8b0125b272a71555322d40efe449a7f99af8fd364b92d350f1664481b2da340a02d0abb083ecdca569f064564942ddf1944fbf550dc27ea36a7074be798d753cb029703de77b1a9532b6ca2ec5706e297dce073d6e508eeb425c32df8431e4677805015049d089a650aa896cb25ec35258653be4df196b4a5e5b6db7ed024aaa89e1b305500764656661756c7400''"

definition VECTOR_TTL :: u8 where
  "VECTOR_TTL = 1"

definition vector_hashes :: "hash list" where
  "vector_hashes = [HASH_1, HASH_2, HASH_3]"

definition vector_channels :: "channel list" where
  "vector_channels = [str ''default'', str ''dev'', str ''introduction'']"

definition vector_options :: channel_options where
  "vector_options = \<lparr>opt_channel = str ''default'', opt_time_start = 0, opt_time_end = 100, opt_limit = 20\<rparr>"

text \<open>\<^verbatim>\<open>let bytes = x.to_bytes()?;\<close> followed by the two assertions.\<close>

definition bytes_are :: "(u8 list) res \<Rightarrow> u8 list \<Rightarrow> bool" where
  "bytes_are r expected_bytes =
     (case r of Ok bytes \<Rightarrow> length bytes = length expected_bytes \<and> bytes = expected_bytes | _ \<Rightarrow> False)"

text \<open>The assertions on a decoded message: the header fields, then the body.\<close>

definition message_is :: "(nat \<times> message) res \<Rightarrow> u64 \<Rightarrow> message_body \<Rightarrow> bool" where
  "message_is r expected_msg_type expected_body =
     (case r of
        Ok (_, msg) \<Rightarrow>
          mh_msg_type (m_header msg) = expected_msg_type \<and> mh_circuit_id (m_header msg) = NO_CIRCUIT \<and>
          mh_req_id (m_header msg) = REQ_ID \<and> m_body msg = expected_body
      | _ \<Rightarrow> False)"

subsection \<open>Messages\<close>

definition post_request_to_bytes :: bool where
  "post_request_to_bytes =
     bytes_are (message_to_bytes (post_request NO_CIRCUIT REQ_ID VECTOR_TTL vector_hashes)) POST_REQUEST_HEX_BINARY"

definition cancel_request_to_bytes :: bool where
  "cancel_request_to_bytes =
     bytes_are (message_to_bytes (cancel_request NO_CIRCUIT REQ_ID VECTOR_TTL CANCEL_ID)) CANCEL_REQUEST_HEX_BINARY"

definition channel_time_range_request_to_bytes :: bool where
  "channel_time_range_request_to_bytes =
     bytes_are (message_to_bytes (channel_time_range_request NO_CIRCUIT REQ_ID VECTOR_TTL vector_options)) CHANNEL_TIME_RANGE_REQUEST_HEX_BINARY"

definition channel_state_request_to_bytes :: bool where
  "channel_state_request_to_bytes =
     bytes_are (message_to_bytes (channel_state_request NO_CIRCUIT REQ_ID VECTOR_TTL (str ''default'') 0)) CHANNEL_STATE_REQUEST_HEX_BINARY"

definition channel_list_request_to_bytes :: bool where
  "channel_list_request_to_bytes =
     bytes_are (message_to_bytes (channel_list_request NO_CIRCUIT REQ_ID VECTOR_TTL 0 20)) CHANNEL_LIST_REQUEST_HEX_BINARY"

definition hash_response_to_bytes :: bool where
  "hash_response_to_bytes =
     bytes_are (message_to_bytes (hash_response NO_CIRCUIT REQ_ID vector_hashes)) HASH_RESPONSE_HEX_BINARY"

definition post_response_to_bytes :: bool where
  "post_response_to_bytes =
     bytes_are (message_to_bytes (post_response NO_CIRCUIT REQ_ID [ENCODED_POST])) POST_RESPONSE_HEX_BINARY"

definition channel_list_response_to_bytes :: bool where
  "channel_list_response_to_bytes =
     bytes_are (message_to_bytes (channel_list_response NO_CIRCUIT REQ_ID vector_channels)) CHANNEL_LIST_RESPONSE_HEX_BINARY"

definition bytes_to_post_request :: bool where
  "bytes_to_post_request =
     message_is (message_from_bytes POST_REQUEST_HEX_BINARY) POST_REQUEST
       (Request VECTOR_TTL (PostRequest vector_hashes))"

definition bytes_to_cancel_request :: bool where
  "bytes_to_cancel_request =
     message_is (message_from_bytes CANCEL_REQUEST_HEX_BINARY) CANCEL_REQUEST
       (Request VECTOR_TTL (CancelRequest CANCEL_ID))"

definition bytes_to_channel_time_range_request :: bool where
  "bytes_to_channel_time_range_request =
     message_is (message_from_bytes CHANNEL_TIME_RANGE_REQUEST_HEX_BINARY) CHANNEL_TIME_RANGE_REQUEST
       (Request VECTOR_TTL (ChannelTimeRangeRequest (str ''default'') 0 100 20))"

definition bytes_to_channel_state_request :: bool where
  "bytes_to_channel_state_request =
     message_is (message_from_bytes CHANNEL_STATE_REQUEST_HEX_BINARY) CHANNEL_STATE_REQUEST
       (Request VECTOR_TTL (ChannelStateRequest (str ''default'') 0))"

definition bytes_to_channel_list_request :: bool where
  "bytes_to_channel_list_request =
     message_is (message_from_bytes CHANNEL_LIST_REQUEST_HEX_BINARY) CHANNEL_LIST_REQUEST
       (Request VECTOR_TTL (ChannelListRequest 0 20))"

definition bytes_to_hash_response :: bool where
  "bytes_to_hash_response =
     message_is (message_from_bytes HASH_RESPONSE_HEX_BINARY) HASH_RESPONSE
       (Response (HashResponse vector_hashes))"

definition bytes_to_post_response :: bool where
  "bytes_to_post_response =
     message_is (message_from_bytes POST_RESPONSE_HEX_BINARY) POST_RESPONSE
       (Response (PostResponse [ENCODED_POST]))"

definition bytes_to_channel_list_response :: bool where
  "bytes_to_channel_list_response =
     message_is (message_from_bytes CHANNEL_LIST_RESPONSE_HEX_BINARY) CHANNEL_LIST_RESPONSE
       (Response (ChannelListResponse vector_channels))"

subsection \<open>Posts\<close>

definition PUBLIC_KEY :: "u8 list" where
  "PUBLIC_KEY = hex ''25b272a71555322d40efe449a7f99af8fd364b92d350f1664481b2da340a02d0''"

definition POST_HASH :: "u8 list" where
  "POST_HASH = hex ''5049d089a650aa896cb25ec35258653be4df196b4a5e5b6db7ed024aaa89e1b3''"

definition TEXT_POST_HEX_BINARY :: "u8 list" where
  "TEXT_POST_HEX_BINARY = hex ''25b272a71555322d40efe449a7f99af8fd364b92d350f1664481b2da340a02d06725733046b35fa3a7e8dc0099a2b3dff10d3fd8b0f6da70d094352e3f5d27a8bc3f5586cf0bf71befc22536c3c50ec7b1d64398d43c3f4cde778e579e88af05015049d089a650aa896cb25ec35258653be4df196b4a5e5b6db7ed024aaa89e1b300500764656661756c740d68e282ac6c6c6f20776f726c64''"

definition DELETE_POST_HEX_BINARY :: "u8 list" where
  "DELETE_POST_HEX_BINARY = hex ''25b272a71555322d40efe449a7f99af8fd364b92d350f1664481b2da340a02d0affe77e3b3156cda7feea042269bb7e93f5031662c70610d37baa69132b4150c18d67cb2ac24fb0f9be0a6516e53ba2f3bbc5bd8e7a1bff64d9c78ce0c2e4205015049d089a650aa896cb25ec35258653be4df196b4a5e5b6db7ed024aaa89e1b301500315ed54965515babf6f16be3f96b04b29ecca813a343311dae483691c07ccf4e597fc63631c41384226b9b68d9f73ffaaf6eac54b71838687f48f112e30d6db689c2939fec6d47b00bafe6967aeff697cf4b5abca01b04ba1b31a7e3752454bfa''"

definition INFO_POST_HEX_BINARY :: "u8 list" where
  "INFO_POST_HEX_BINARY = hex ''25b272a71555322d40efe449a7f99af8fd364b92d350f1664481b2da340a02d04ccb1c0063ef09a200e031ee89d874bcc99f3e6fd8fd667f5e28f4dbcf4b7de6bb1ce37d5f01cc055a7b70cef175d30feeb34531db98c91fa8b3fa4d7c5fd307015049d089a650aa896cb25ec35258653be4df196b4a5e5b6db7ed024aaa89e1b30250046e616d65066361626c657200''"

definition TOPIC_POST_HEX_BINARY :: "u8 list" where
  "TOPIC_POST_HEX_BINARY = hex ''25b272a71555322d40efe449a7f99af8fd364b92d350f1664481b2da340a02d0bf7578e781caee4ca708281645b291a2100c4f2138f0e0ac98bc2b4a414b4ba8dca08285751114b05f131421a1745b648c43b17b05392593237dfacc8dff5208015049d089a650aa896cb25ec35258653be4df196b4a5e5b6db7ed024aaa89e1b303500764656661756c743b696e74726f6475636520796f757273656c6620746f2074686520667269656e646c792063726f7764206f66206c696b656d696e64656420666f6c78''"

definition JOIN_POST_HEX_BINARY :: "u8 list" where
  "JOIN_POST_HEX_BINARY = hex ''25b272a71555322d40efe449a7f99af8fd364b92d350f1664481b2da340a02d064425f10fa34c1e14b6101491772d3c5f15f720a952dd56c27d5ad52f61f695130ce286de73e332612b36242339b61c9e12397f5dcc94c79055c7e1cb1dbfb08015049d089a650aa896cb25ec35258653be4df196b4a5e5b6db7ed024aaa89e1b304500764656661756c74''"

definition LEAVE_POST_HEX_BINARY :: "u8 list" where
  "LEAVE_POST_HEX_BINARY = hex ''25b272a71555322d40efe449a7f99af8fd364b92d350f1664481b2da340a02d0abb083ecdca569f064564942ddf1944fbf550dc27ea36a7074be798d753cb029703de77b1a9532b6ca2ec5706e297dce073d6e508eeb425c32df8431e4677805015049d089a650aa896cb25ec35258653be4df196b4a5e5b6db7ed024aaa89e1b305500764656661756c74''"

text \<open>The signatures of the vectors, given in each test.\<close>

definition TEXT_SIGNATURE :: "u8 list" where
  "TEXT_SIGNATURE = hex ''6725733046b35fa3a7e8dc0099a2b3dff10d3fd8b0f6da70d094352e3f5d27a8bc3f5586cf0bf71befc22536c3c50ec7b1d64398d43c3f4cde778e579e88af05''"

definition DELETE_SIGNATURE :: "u8 list" where
  "DELETE_SIGNATURE = hex ''affe77e3b3156cda7feea042269bb7e93f5031662c70610d37baa69132b4150c18d67cb2ac24fb0f9be0a6516e53ba2f3bbc5bd8e7a1bff64d9c78ce0c2e4205''"

definition INFO_SIGNATURE :: "u8 list" where
  "INFO_SIGNATURE = hex ''4ccb1c0063ef09a200e031ee89d874bcc99f3e6fd8fd667f5e28f4dbcf4b7de6bb1ce37d5f01cc055a7b70cef175d30feeb34531db98c91fa8b3fa4d7c5fd307''"

definition TOPIC_SIGNATURE :: "u8 list" where
  "TOPIC_SIGNATURE = hex ''bf7578e781caee4ca708281645b291a2100c4f2138f0e0ac98bc2b4a414b4ba8dca08285751114b05f131421a1745b648c43b17b05392593237dfacc8dff5208''"

definition JOIN_SIGNATURE :: "u8 list" where
  "JOIN_SIGNATURE = hex ''64425f10fa34c1e14b6101491772d3c5f15f720a952dd56c27d5ad52f61f695130ce286de73e332612b36242339b61c9e12397f5dcc94c79055c7e1cb1dbfb08''"

definition LEAVE_SIGNATURE :: "u8 list" where
  "LEAVE_SIGNATURE = hex ''abb083ecdca569f064564942ddf1944fbf550dc27ea36a7074be798d753cb029703de77b1a9532b6ca2ec5706e297dce073d6e508eeb425c32df8431e4677805''"

text \<open>The literal \<^verbatim>\<open>"h\<euro>llo world"\<close>.\<close>

definition hello_world :: rstring where
  "hello_world = str ''h'' @ [226, 130, 172] @ str ''llo world''"

definition vector_header :: "u8 list \<Rightarrow> u64 \<Rightarrow> post_header" where
  "vector_header signature ptype = post_header_new PUBLIC_KEY signature [POST_HASH] ptype 80"

text \<open>The assertions on a decoded post.\<close>

definition post_is :: "(nat \<times> post) res \<Rightarrow> u8 list \<Rightarrow> u64 \<Rightarrow> post_body \<Rightarrow> bool" where
  "post_is r expected_signature expected_post_type expected_body =
     (case r of
        Ok (_, p) \<Rightarrow>
          ph_public_key (p_header p) = PUBLIC_KEY \<and> ph_signature (p_header p) = expected_signature \<and>
          ph_links (p_header p) = [POST_HASH] \<and> ph_post_type (p_header p) = expected_post_type \<and>
          ph_timestamp (p_header p) = 80 \<and> p_body p = expected_body
      | _ \<Rightarrow> False)"

definition get_channel_from_join_post :: bool where
  "get_channel_from_join_post =
     (get_channel (post_new (vector_header JOIN_SIGNATURE JOIN_POST) (Join (str ''default''))) = Some (str ''default''))"

definition get_timestamp_from_leave_post :: bool where
  "get_timestamp_from_leave_post =
     (get_timestamp (post_new (vector_header LEAVE_SIGNATURE LEAVE_POST) (Leave (str ''default''))) = 80)"

definition verify_post :: "crypto \<Rightarrow> bool" where
  "verify_post cr = post_verify cr TEXT_POST_HEX_BINARY"

definition is_signed_text_post :: bool where
  "is_signed_text_post =
     is_signed (post_new (vector_header TEXT_SIGNATURE TEXT_POST) (Text (str ''default'') hello_world))"

definition text_post_to_bytes :: bool where
  "text_post_to_bytes =
     bytes_are (post_to_bytes (post_new (vector_header TEXT_SIGNATURE TEXT_POST)
       (Text (str ''default'') hello_world))) TEXT_POST_HEX_BINARY"

definition delete_post_to_bytes :: bool where
  "delete_post_to_bytes =
     bytes_are (post_to_bytes (post_new (vector_header DELETE_SIGNATURE DELETE_POST)
       (Delete vector_hashes))) DELETE_POST_HEX_BINARY"

definition info_post_to_bytes :: bool where
  "info_post_to_bytes =
     bytes_are (post_to_bytes (post_new (vector_header INFO_SIGNATURE INFO_POST)
       (Info [user_info_new (str ''name'') (str ''cabler'')]))) INFO_POST_HEX_BINARY"

definition topic_post_to_bytes :: bool where
  "topic_post_to_bytes =
     bytes_are (post_to_bytes (post_new (vector_header TOPIC_SIGNATURE TOPIC_POST)
       (Topic (str ''default'') (str ''introduce yourself to the friendly crowd of likeminded folx'')))) TOPIC_POST_HEX_BINARY"

definition join_post_to_bytes :: bool where
  "join_post_to_bytes =
     bytes_are (post_to_bytes (post_new (vector_header JOIN_SIGNATURE JOIN_POST)
       (Join (str ''default'')))) JOIN_POST_HEX_BINARY"

definition leave_post_to_bytes :: bool where
  "leave_post_to_bytes =
     bytes_are (post_to_bytes (post_new (vector_header LEAVE_SIGNATURE LEAVE_POST)
       (Leave (str ''default'')))) LEAVE_POST_HEX_BINARY"

definition bytes_to_text_post :: bool where
  "bytes_to_text_post =
     post_is (post_from_bytes TEXT_POST_HEX_BINARY) TEXT_SIGNATURE TEXT_POST
       (Text (str ''default'') hello_world)"

definition bytes_to_delete_post :: bool where
  "bytes_to_delete_post =
     post_is (post_from_bytes DELETE_POST_HEX_BINARY) DELETE_SIGNATURE DELETE_POST
       (Delete vector_hashes)"

definition bytes_to_info_post :: bool where
  "bytes_to_info_post =
     post_is (post_from_bytes INFO_POST_HEX_BINARY) INFO_SIGNATURE INFO_POST
       (Info [user_info_new (str ''name'') (str ''cabler'')])"

definition bytes_to_topic_post :: bool where
  "bytes_to_topic_post =
     post_is (post_from_bytes TOPIC_POST_HEX_BINARY) TOPIC_SIGNATURE TOPIC_POST
       (Topic (str ''default'') (str ''introduce yourself to the friendly crowd of likeminded folx''))"

definition bytes_to_join_post :: bool where
  "bytes_to_join_post =
     post_is (post_from_bytes JOIN_POST_HEX_BINARY) JOIN_SIGNATURE JOIN_POST
       (Join (str ''default''))"

definition bytes_to_leave_post :: bool where
  "bytes_to_leave_post =
     post_is (post_from_bytes LEAVE_POST_HEX_BINARY) LEAVE_SIGNATURE LEAVE_POST
       (Leave (str ''default''))"

subsection \<open>Validation\<close>

definition japanese_name :: rstring where
  "japanese_name =
     [228, 186, 148, 229, 141, 129, 229, 181, 144, 229, 164, 167, 228, 187, 139]"

definition long_name :: rstring where
  "long_name =
     str ''Kimmeridgebrachypteraeschnidium etchesi''"

definition japanese_channel :: rstring where
  "japanese_channel =
     [227, 129, 151, 227, 130, 141, 227, 129, 143, 227, 129, 190, 227, 130, 171, 227, 131, 149, 227, 130, 167]"

definition long_channel :: rstring where
  "long_channel =
     str ''The Tao can'' @
     [39] @
     str ''t be perceived. Smaller than an electron, it contains uncountable galaxies.''"

definition tao_topic :: rstring where
  "tao_topic =
     str ''The great Tao flows everywhere. All things are born from it, yet it doesn'' @
     [39] @
     str ''t create them. It pours itself into its work, yet it makes no claim. It nourishes '' @
     str ''infinite worlds, yet it doesn'' @
     [39] @
     str ''t hold on to them. Since it is merged with all things and hidden in their hearts, it can '' @
     str ''be called humble.''"

definition bees_topic :: rstring where
  "bees_topic =
     str ''Bees are winged insects closely related to wasps and ants, known for their roles in '' @
     str ''pollination and, in the case of the best-known bee species, the western honey bee, for '' @
     str ''producing honey. Bees are a monophyletic lineage within the superfamily Apoidea. They are '' @
     str ''presently considered a clade, called Anthophila. There are over 16,000 known species of '' @
     str ''bees in seven recognized biological families. Some species '' @
     [226, 128, 147] @
     str '' including honey bees, bumblebees, and stingless bees '' @
     [226, 128, 147] @
     str '' live socially in colonies while most species (>90%) '' @
     [226, 128, 147] @
     str '' including mason bees, carpenter bees, leafcutter bees, and sweat bees '' @
     [226, 128, 147] @
     str '' are solitary.''"

text \<open>\<^verbatim>\<open>match r { Err(e) => assert_eq!(e.to_string(), ...), _ => panic!() }\<close>\<close>

definition fails_with :: "'a res \<Rightarrow> rstring \<Rightarrow> bool" where
  "fails_with r txt = (case r of Err (CableError k) \<Rightarrow> cable_error_text k = txt | _ \<Rightarrow> False)"

definition succeeds :: "'a res \<Rightarrow> bool" where
  "succeeds r = (case r of Ok _ \<Rightarrow> True | _ \<Rightarrow> False)"

definition validate_username_len :: bool where
  "validate_username_len =
     (succeeds (user_info_name (str ''glyph'')) \<and> succeeds (user_info_name japanese_name) \<and>
      fails_with (user_info_name []) (str ''expected username between 1 and 32 codepoints; name `` is 0 codepoints'') \<and>
      fails_with (user_info_name long_name)
        (str ''expected username between 1 and 32 codepoints; name `Kimmeridgebrachypteraeschnidium etchesi` is 39 codepoints''))"

definition validate_channel_len :: bool where
  "validate_channel_len =
     (succeeds (validate_channel (str ''home'')) \<and> succeeds (validate_channel japanese_channel) \<and>
      fails_with (validate_channel []) (str ''expected channel between 1 and 64 codepoints; channel `` is 0 codepoints'') \<and>
      fails_with (validate_channel long_channel)
        (str ''expected channel between 1 and 64 codepoints; channel `'' @ long_channel @ str ''` is 87 codepoints''))"

definition validate_topic_len :: bool where
  "validate_topic_len =
     (succeeds (validate_topic []) \<and> succeeds (validate_topic tao_topic) \<and>
      fails_with (validate_topic bees_topic)
        (str ''expected topic between 0 and 512 codepoints; topic `'' @ bees_topic @ str ''` is 604 codepoints''))"

subsection \<open>All tests pass\<close>

lemma post_request_to_bytes_passes: "post_request_to_bytes"
  by code_simp

lemma cancel_request_to_bytes_passes: "cancel_request_to_bytes"
  by code_simp

lemma channel_time_range_request_to_bytes_passes: "channel_time_range_request_to_bytes"
  by code_simp

lemma channel_state_request_to_bytes_passes: "channel_state_request_to_bytes"
  by code_simp

lemma channel_list_request_to_bytes_passes: "channel_list_request_to_bytes"
  by code_simp

lemma hash_response_to_bytes_passes: "hash_response_to_bytes"
  by code_simp

lemma post_response_to_bytes_passes: "post_response_to_bytes"
  by code_simp

lemma channel_list_response_to_bytes_passes: "channel_list_response_to_bytes"
  by code_simp

lemma bytes_to_post_request_passes: "bytes_to_post_request"
  by code_simp

lemma bytes_to_cancel_request_passes: "bytes_to_cancel_request"
  by code_simp

lemma bytes_to_channel_time_range_request_passes: "bytes_to_channel_time_range_request"
  by code_simp

lemma bytes_to_channel_state_request_passes: "bytes_to_channel_state_request"
  by code_simp

lemma bytes_to_channel_list_request_passes: "bytes_to_channel_list_request"
  by code_simp

lemma bytes_to_hash_response_passes: "bytes_to_hash_response"
  by code_simp

lemma bytes_to_post_response_passes: "bytes_to_post_response"
  by code_simp

lemma bytes_to_channel_list_response_passes: "bytes_to_channel_list_response"
  by code_simp

lemma get_channel_from_join_post_passes: "get_channel_from_join_post"
  by code_simp

lemma get_timestamp_from_leave_post_passes: "get_timestamp_from_leave_post"
  by code_simp

lemma text_post_parts:
  "\<not> length TEXT_POST_HEX_BINARY < 32 + 64" "take 32 TEXT_POST_HEX_BINARY = PUBLIC_KEY" "take 64 (drop 32 TEXT_POST_HEX_BINARY) = TEXT_SIGNATURE"
  by code_simp+

lemma verify_post_iff:
  "verify_post cr \<longleftrightarrow>
     (\<exists>pk sig. public_key_from_slice cr PUBLIC_KEY = Some pk \<and> signature_from_bytes cr TEXT_SIGNATURE = Some sig \<and>
        verify_detached cr sig (drop 96 TEXT_POST_HEX_BINARY) pk)"
  unfolding verify_post_def post_verify_def text_post_parts(2,3) if_not_P [OF text_post_parts(1)]
  by (simp split: option.splits)

lemma is_signed_text_post_passes: "is_signed_text_post"
  by code_simp

lemma text_post_to_bytes_passes: "text_post_to_bytes"
  by code_simp

lemma delete_post_to_bytes_passes: "delete_post_to_bytes"
  by code_simp

lemma info_post_to_bytes_passes: "info_post_to_bytes"
  by code_simp

lemma topic_post_to_bytes_passes: "topic_post_to_bytes"
  by code_simp

lemma join_post_to_bytes_passes: "join_post_to_bytes"
  by code_simp

lemma leave_post_to_bytes_passes: "leave_post_to_bytes"
  by code_simp

lemma bytes_to_text_post_passes: "bytes_to_text_post"
  by code_simp

lemma bytes_to_delete_post_passes: "bytes_to_delete_post"
  by code_simp

lemma bytes_to_info_post_passes: "bytes_to_info_post"
  by code_simp

lemma bytes_to_topic_post_passes: "bytes_to_topic_post"
  by code_simp

lemma bytes_to_join_post_passes: "bytes_to_join_post"
  by code_simp

lemma bytes_to_leave_post_passes: "bytes_to_leave_post"
  by code_simp

lemma validate_username_len_passes: "validate_username_len"
  by code_simp

lemma validate_channel_len_passes: "validate_channel_len"
  by code_simp

lemma validate_topic_len_passes: "validate_topic_len"
  by code_simp

definition message_tests :: "bool list" where
  "message_tests =
     [post_request_to_bytes, cancel_request_to_bytes, channel_time_range_request_to_bytes,
      channel_state_request_to_bytes, channel_list_request_to_bytes, hash_response_to_bytes,
      post_response_to_bytes, channel_list_response_to_bytes, bytes_to_post_request,
      bytes_to_cancel_request, bytes_to_channel_time_range_request, bytes_to_channel_state_request,
      bytes_to_channel_list_request, bytes_to_hash_response, bytes_to_post_response,
      bytes_to_channel_list_response]"

definition post_tests :: "bool list" where
  "post_tests =
     [get_channel_from_join_post, get_timestamp_from_leave_post, is_signed_text_post, text_post_to_bytes,
      delete_post_to_bytes, info_post_to_bytes, topic_post_to_bytes, join_post_to_bytes,
      leave_post_to_bytes, bytes_to_text_post, bytes_to_delete_post, bytes_to_info_post,
      bytes_to_topic_post, bytes_to_join_post, bytes_to_leave_post]"

definition validation_tests :: "bool list" where
  "validation_tests =
     [validate_username_len, validate_channel_len, validate_topic_len]"


end
