(* ===== verification/Cable_Example.thy ===== *)
theory Cable_Example
  imports Workspace_Display Workspace_Execution
begin

text \<open>
  \<^verbatim>\<open>cable/examples/types.rs\<close>: a program that makes one post and one message of every type, signs the posts, encodes
  them and prints each as text and as the hexadecimal form of its bytes. It returns the lines that it
  prints. The signature scheme and the formatting parameters are arguments.
\<close>

subsection \<open>Constants\<close>

definition EXAMPLE_PUBLIC_KEY :: "u8 list" where
  "EXAMPLE_PUBLIC_KEY = hex ''aead820c67703da78dba364338d8b0d65d65c03a7e9310de87b2b36818ca1e5d''"

definition EXAMPLE_SECRET_KEY :: "u8 list" where
  "EXAMPLE_SECRET_KEY = hex ''5ff6fabec79407bde6402701d55be2b43a57adf3d4d454c8ad56c1397950f4a6aead820c67703da78dba364338d8b0d65d65c03a7e9310de87b2b36818ca1e5d''"

definition EXAMPLE_HASH_1 :: "u8 list" where
  "EXAMPLE_HASH_1 = hex ''fcd7c41883c3564c5a6abec78e214159efe62d50f124b4afafc184ea3b764cd4''"

definition EXAMPLE_HASH_2 :: "u8 list" where
  "EXAMPLE_HASH_2 = hex ''46b321c236880cd861dafae3040cf8cc52990516d1a69ab2c170b1e615a7ebd5''"

definition EXAMPLE_HASH_3 :: "u8 list" where
  "EXAMPLE_HASH_3 = hex ''ffe809405a3e1eaf77938bde2138832b177a51e47df02935edc12aacf8279f61''"

definition EXAMPLE_LINK :: "u8 list" where
  "EXAMPLE_LINK = hex ''fea16c09f8aa581500fcf6ee2f6aabc59ccaa271d2a3568843930b7ff929ad86''"

definition EXAMPLE_TTL :: u8 where
  "EXAMPLE_TTL = 7"

definition EXAMPLE_LIMIT :: u64 where
  "EXAMPLE_LIMIT = 21"

definition EXAMPLE_TIMESTAMP :: u64 where
  "EXAMPLE_TIMESTAMP = 9876543210"

definition EXAMPLE_TIME_START :: u64 where
  "EXAMPLE_TIME_START = 0"

definition EXAMPLE_TIME_END :: u64 where
  "EXAMPLE_TIME_END = 2033"

definition EXAMPLE_FUTURE :: u64 where
  "EXAMPLE_FUTURE = 0"

definition EXAMPLE_CHANNEL_1 :: rstring where
  "EXAMPLE_CHANNEL_1 = str ''myco''"

definition EXAMPLE_CHANNEL_2 :: rstring where
  "EXAMPLE_CHANNEL_2 = str ''bike_life''"

definition EXAMPLE_CHANNEL_3 :: rstring where
  "EXAMPLE_CHANNEL_3 = str ''qigong''"

definition EXAMPLE_USERNAME :: rstring where
  "EXAMPLE_USERNAME = str ''ripple''"

definition EXAMPLE_SKIP :: u64 where
  "EXAMPLE_SKIP = 0"

definition EXAMPLE_TEXT :: rstring where
  "EXAMPLE_TEXT = [227, 130, 130, 227, 129, 151, 227, 130, 130, 227, 129, 151]"

definition EXAMPLE_TOPIC :: rstring where
  "EXAMPLE_TOPIC = str ''tracklocross''"

definition EXAMPLE_REQ_ID :: "u8 list" where
  "EXAMPLE_REQ_ID = hex ''04baaffb''"

definition EXAMPLE_CANCEL_ID :: "u8 list" where
  "EXAMPLE_CANCEL_ID = hex ''31b5c9e1''"

definition EXAMPLE_CIRCUIT_ID :: "u8 list" where
  "EXAMPLE_CIRCUIT_ID = NO_CIRCUIT"

subsection \<open>The program\<close>

text \<open>\<^verbatim>\<open>post.sign(&secret_key)?; let bytes = post.to_bytes()?;\<close>\<close>

definition sign_and_encode :: "crypto \<Rightarrow> u8 list \<Rightarrow> post \<Rightarrow> (post \<times> u8 list) res" where
  "sign_and_encode cr secret_key p =
     and_then (post_sign cr p secret_key) (\<lambda>p. and_then (post_to_bytes p) (\<lambda>bytes. Ok (p, bytes)))"

text \<open>\<^verbatim>\<open>println!("<title>: {}", x); println!("<title> binary: {:?}", hex::encode(bytes));\<close>\<close>

definition print_item :: "text_lib \<Rightarrow> string \<Rightarrow> rstring \<Rightarrow> u8 list \<Rightarrow> rstring list" where
  "print_item L title shown bytes = [str title @ str '': '' @ shown, str title @ str '' binary: '' @ hex_quoted L bytes]"

definition types_main :: "crypto \<Rightarrow> text_lib \<Rightarrow> rstring list res" where
  "types_main cr L =
     (let public_key = EXAMPLE_PUBLIC_KEY; secret_key = EXAMPLE_SECRET_KEY;
          hashes = [EXAMPLE_HASH_1, EXAMPLE_HASH_2, EXAMPLE_HASH_3]; links = [EXAMPLE_LINK];
          req_id = EXAMPLE_REQ_ID; cancel_id = EXAMPLE_CANCEL_ID;
          channels = [EXAMPLE_CHANNEL_1, EXAMPLE_CHANNEL_2, EXAMPLE_CHANNEL_3];
          channel_opts = channel_options_new EXAMPLE_CHANNEL_3 EXAMPLE_TIME_START EXAMPLE_TIME_END EXAMPLE_LIMIT;
          info = [user_info_new (str ''name'') EXAMPLE_USERNAME]
      in
      and_then (sign_and_encode cr secret_key
        (Cable_Post.post_text public_key links EXAMPLE_TIMESTAMP EXAMPLE_CHANNEL_2 EXAMPLE_TEXT)) (\<lambda>(text_post, text_post_bytes).
      and_then (sign_and_encode cr secret_key
        (Cable_Post.post_delete public_key links EXAMPLE_TIMESTAMP hashes)) (\<lambda>(delete_post, delete_post_bytes).
      and_then (sign_and_encode cr secret_key
        (Cable_Post.post_info public_key links EXAMPLE_TIMESTAMP info)) (\<lambda>(info_post, info_post_bytes).
      and_then (sign_and_encode cr secret_key
        (Cable_Post.post_topic public_key links EXAMPLE_TIMESTAMP EXAMPLE_CHANNEL_2 EXAMPLE_TOPIC)) (\<lambda>(topic_post, topic_post_bytes).
      and_then (sign_and_encode cr secret_key
        (Cable_Post.post_join public_key links EXAMPLE_TIMESTAMP EXAMPLE_CHANNEL_3)) (\<lambda>(join_post, join_post_bytes).
      and_then (sign_and_encode cr secret_key
        (Cable_Post.post_leave public_key links EXAMPLE_TIMESTAMP EXAMPLE_CHANNEL_3)) (\<lambda>(leave_post, leave_post_bytes).
      let posts =
        print_item L ''text post'' (post_display L text_post) text_post_bytes @ [[]] @
        print_item L ''delete post'' (post_display L delete_post) delete_post_bytes @ [[]] @
        print_item L ''info post'' (post_display L info_post) info_post_bytes @ [[]] @
        print_item L ''topic post'' (post_display L topic_post) topic_post_bytes @ [[]] @
        print_item L ''join post'' (post_display L join_post) join_post_bytes @ [[]] @
        print_item L ''leave post'' (post_display L leave_post) leave_post_bytes @ [[]];
        m1 = post_request EXAMPLE_CIRCUIT_ID req_id EXAMPLE_TTL hashes;
        m2 = cancel_request EXAMPLE_CIRCUIT_ID req_id EXAMPLE_TTL cancel_id;
        m3 = channel_time_range_request EXAMPLE_CIRCUIT_ID req_id EXAMPLE_TTL channel_opts;
        m4 = channel_state_request EXAMPLE_CIRCUIT_ID req_id EXAMPLE_TTL EXAMPLE_CHANNEL_2 EXAMPLE_FUTURE;
        m5 = channel_list_request EXAMPLE_CIRCUIT_ID req_id EXAMPLE_TTL EXAMPLE_SKIP EXAMPLE_LIMIT;
        m6 = hash_response EXAMPLE_CIRCUIT_ID req_id hashes;
        m7 = post_response EXAMPLE_CIRCUIT_ID req_id [text_post_bytes];
        m8 = channel_list_response EXAMPLE_CIRCUIT_ID req_id channels
      in
      and_then (message_to_bytes m1) (\<lambda>b1.
      and_then (message_to_bytes m2) (\<lambda>b2.
      and_then (message_to_bytes m3) (\<lambda>b3.
      and_then (message_to_bytes m4) (\<lambda>b4.
      and_then (message_to_bytes m5) (\<lambda>b5.
      and_then (message_to_bytes m6) (\<lambda>b6.
      and_then (message_to_bytes m7) (\<lambda>b7.
      and_then (message_to_bytes m8) (\<lambda>b8.
      Ok (posts @
        print_item L ''post request'' (message_display L m1) b1 @ [[]] @
        print_item L ''cancel request'' (message_display L m2) b2 @ [[]] @
        print_item L ''channel time range request'' (message_display L m3) b3 @ [[]] @
        print_item L ''channel state request'' (message_display L m4) b4 @ [[]] @
        print_item L ''channel list request'' (message_display L m5) b5 @ [[]] @
        print_item L ''hash response'' (message_display L m6) b6 @ [[]] @
        print_item L ''post response'' (message_display L m7) b7 @ [[]] @
        print_item L ''channel list response'' (message_display L m8) b8))))))))))))))))"


subsection \<open>The program succeeds\<close>

lemma sign_and_encode_Ok:
  assumes "post_typed p" and "recognized (p_body p)" and "key_pair cr (ph_public_key (p_header p)) sk"
  obtains q where "sign_and_encode cr sk p = Ok (q, post_bytes q)" and "length (post_bytes q) = post_count_bytes p"
proof -
  from post_sign_key_pair [OF assms] obtain sig where
    s: "post_sign cr p sk = Ok (set_signature p sig)" "length sig = 64" by blast
  have t: "post_typed (set_signature p sig)" by (rule post_typed_set_signature [OF assms(1) s(2)])
  have "length (post_bytes (set_signature p sig)) = post_count_bytes p"
    using length_post_bytes [OF t] by (simp add: post_count_bytes_def post_type_def set_signature_def Let_def)
  moreover have "sign_and_encode cr sk p = Ok (set_signature p sig, post_bytes (set_signature p sig))"
    using s post_to_bytes_eq [OF t] assms(2) by (simp add: sign_and_encode_def)
  ultimately show thesis by (rule that [rotated])
qed

lemma message_to_bytes_short:
  "message_typed m \<and> known_message (m_body m) \<and> drop 600 (message_content m) = [] \<Longrightarrow> \<exists>b. message_to_bytes m = Ok b"
  using message_to_bytes_eq by force

lemma length_print_item [simp]: "length (print_item L title shown bytes) = 2"
  by (simp add: print_item_def)

text \<open>With a key pair of the signature scheme, the posts can be signed and encoded.\<close>

lemma example_posts_signed:
  fixes cr :: crypto
  defines "done \<equiv> \<lambda>p. \<exists>q. sign_and_encode cr EXAMPLE_SECRET_KEY p = Ok (q, post_bytes q) \<and> length (post_bytes q) = post_count_bytes p"
  assumes "key_pair cr EXAMPLE_PUBLIC_KEY EXAMPLE_SECRET_KEY"
  shows "done (Cable_Post.post_text EXAMPLE_PUBLIC_KEY [EXAMPLE_LINK] EXAMPLE_TIMESTAMP EXAMPLE_CHANNEL_2 EXAMPLE_TEXT)"
    and "done (Cable_Post.post_delete EXAMPLE_PUBLIC_KEY [EXAMPLE_LINK] EXAMPLE_TIMESTAMP
           [EXAMPLE_HASH_1, EXAMPLE_HASH_2, EXAMPLE_HASH_3])"
    and "done (Cable_Post.post_info EXAMPLE_PUBLIC_KEY [EXAMPLE_LINK] EXAMPLE_TIMESTAMP
           [user_info_new (str ''name'') EXAMPLE_USERNAME])"
    and "done (Cable_Post.post_topic EXAMPLE_PUBLIC_KEY [EXAMPLE_LINK] EXAMPLE_TIMESTAMP EXAMPLE_CHANNEL_2 EXAMPLE_TOPIC)"
    and "done (Cable_Post.post_join EXAMPLE_PUBLIC_KEY [EXAMPLE_LINK] EXAMPLE_TIMESTAMP EXAMPLE_CHANNEL_3)"
    and "done (Cable_Post.post_leave EXAMPLE_PUBLIC_KEY [EXAMPLE_LINK] EXAMPLE_TIMESTAMP EXAMPLE_CHANNEL_3)"
proof -
  have sign: "done p" if "post_typed p \<and> recognized (p_body p) \<and> ph_public_key (p_header p) = EXAMPLE_PUBLIC_KEY" for p
    unfolding done_def by (rule sign_and_encode_Ok [of p cr EXAMPLE_SECRET_KEY]) (use that assms(2) in auto)
  show "done (Cable_Post.post_text EXAMPLE_PUBLIC_KEY [EXAMPLE_LINK] EXAMPLE_TIMESTAMP EXAMPLE_CHANNEL_2 EXAMPLE_TEXT)"
    by (rule sign, code_simp)
  show "done (Cable_Post.post_delete EXAMPLE_PUBLIC_KEY [EXAMPLE_LINK] EXAMPLE_TIMESTAMP
       [EXAMPLE_HASH_1, EXAMPLE_HASH_2, EXAMPLE_HASH_3])"
    by (rule sign, code_simp)
  show "done (Cable_Post.post_info EXAMPLE_PUBLIC_KEY [EXAMPLE_LINK] EXAMPLE_TIMESTAMP
       [user_info_new (str ''name'') EXAMPLE_USERNAME])"
    by (rule sign, code_simp)
  show "done (Cable_Post.post_topic EXAMPLE_PUBLIC_KEY [EXAMPLE_LINK] EXAMPLE_TIMESTAMP EXAMPLE_CHANNEL_2 EXAMPLE_TOPIC)"
    by (rule sign, code_simp)
  show "done (Cable_Post.post_join EXAMPLE_PUBLIC_KEY [EXAMPLE_LINK] EXAMPLE_TIMESTAMP EXAMPLE_CHANNEL_3)"
    by (rule sign, code_simp)
  show "done (Cable_Post.post_leave EXAMPLE_PUBLIC_KEY [EXAMPLE_LINK] EXAMPLE_TIMESTAMP EXAMPLE_CHANNEL_3)"
    by (rule sign, code_simp)
qed

lemma example_messages_encoded:
  defines "c \<equiv> EXAMPLE_CIRCUIT_ID" and "r \<equiv> EXAMPLE_REQ_ID" and "ttl \<equiv> EXAMPLE_TTL"
  shows "\<exists>b. message_to_bytes (post_request c r ttl [EXAMPLE_HASH_1, EXAMPLE_HASH_2, EXAMPLE_HASH_3]) = Ok b"
    and "\<exists>b. message_to_bytes (cancel_request c r ttl EXAMPLE_CANCEL_ID) = Ok b"
    and "\<exists>b. message_to_bytes (channel_time_range_request c r ttl
           (channel_options_new EXAMPLE_CHANNEL_3 EXAMPLE_TIME_START EXAMPLE_TIME_END EXAMPLE_LIMIT)) = Ok b"
    and "\<exists>b. message_to_bytes (channel_state_request c r ttl EXAMPLE_CHANNEL_2 EXAMPLE_FUTURE) = Ok b"
    and "\<exists>b. message_to_bytes (channel_list_request c r ttl EXAMPLE_SKIP EXAMPLE_LIMIT) = Ok b"
    and "\<exists>b. message_to_bytes (hash_response c r [EXAMPLE_HASH_1, EXAMPLE_HASH_2, EXAMPLE_HASH_3]) = Ok b"
    and "\<exists>b. message_to_bytes (channel_list_response c r [EXAMPLE_CHANNEL_1, EXAMPLE_CHANNEL_2, EXAMPLE_CHANNEL_3]) = Ok b"
  unfolding c_def r_def ttl_def by (rule message_to_bytes_short, code_simp)+

lemma example_response_encoded:
  assumes "length bs = 158"
  shows "\<exists>b. message_to_bytes (post_response EXAMPLE_CIRCUIT_ID EXAMPLE_REQ_ID [bs]) = Ok b"
proof (rule message_to_bytes_short)
  have c: "length EXAMPLE_CIRCUIT_ID = 4" "length EXAMPLE_REQ_ID = 4" by code_simp+
  have v: "length (varint_bytes v) \<le> 10" for v :: u64
  proof (rule length_varint_bytes_le)
    have "unat v < 2 ^ 64" using unsigned_less [of v, where ?'a = nat] by simp
    then show "unat v < 2 ^ (7 * 10)" by simp
  qed simp
  let ?m = "post_response EXAMPLE_CIRCUIT_ID EXAMPLE_REQ_ID [bs]"
  show "message_typed ?m \<and> known_message (m_body ?m) \<and> drop 600 (message_content ?m) = []"
    using c assms v [of POST_RESPONSE] v [of 0] v [of "of_nat 158"]
    by (auto simp: message_typed_def message_content_def post_response_def message_new_def message_header_new_def
        message_type_def blobs_bytes_def string_bytes_def)
qed

text \<open>So the program prints its 41 lines.\<close>

lemma types_main_prints:
  assumes "key_pair cr EXAMPLE_PUBLIC_KEY EXAMPLE_SECRET_KEY"
  shows "\<exists>lines. types_main cr L = Ok lines \<and> length lines = 41"
proof -
  have n: "post_count_bytes (Cable_Post.post_text EXAMPLE_PUBLIC_KEY [EXAMPLE_LINK] EXAMPLE_TIMESTAMP EXAMPLE_CHANNEL_2 EXAMPLE_TEXT) = 158"
    by code_simp
  note posts = example_posts_signed [OF assms]
  from posts(1) obtain q where q: "sign_and_encode cr EXAMPLE_SECRET_KEY
      (Cable_Post.post_text EXAMPLE_PUBLIC_KEY [EXAMPLE_LINK] EXAMPLE_TIMESTAMP EXAMPLE_CHANNEL_2 EXAMPLE_TEXT) = Ok (q, post_bytes q)"
    and "length (post_bytes q) = 158"
    using n by auto
  from example_response_encoded [OF this(2)] q posts(2-) example_messages_encoded show ?thesis
    by (auto simp: types_main_def Let_def)
qed

end
