(* ===== verification/Core_Chat.thy ===== *)
theory Core_Chat
  imports Core_Manager_Inv Workspace_Display
begin

text \<open>
  \<^verbatim>\<open>cable_core/examples/chat.rs\<close>: the two tasks of the chat program that use the manager. One opens the channel and
  prints the posts of its stream, the other posts every line of the terminal. The terminal is the list of the
  results of \<^verbatim>\<open>read_line\<close>, each with the clock at that time. The third task passes sockets to \<^verbatim>\<open>listen\<close>.
\<close>

definition chat_channel :: channel where
  "chat_channel = str ''default''"

definition chat_options :: "u64 res \<Rightarrow> channel_options res" where
  "chat_options now =
     and_then now (\<lambda>t. Ok \<lparr>opt_channel = chat_channel, opt_time_start = t, opt_time_end = 0, opt_limit = 20\<rparr>)"

definition chat_open :: "channel_options \<Rightarrow> (manager, post list \<times> nat) action" where
  "chat_open opts = m_unwrap (open_channel opts)"

text \<open>\<^verbatim>\<open>while let Some(Ok(post)) = post_stream.next().await\<close>\<close>

primrec chat_print :: "text_lib \<Rightarrow> post res list \<Rightarrow> rstring list" where
  "chat_print L [] = []"
| "chat_print L (r # rs) = (case r of Ok p \<Rightarrow> post_display L p # chat_print L rs | Err e \<Rightarrow> [] | Panic p \<Rightarrow> [])"

text \<open>A line read keeps its newline; an empty one is the end of the input.\<close>

primrec chat_stdin :: "crypto \<Rightarrow> (rstring res \<times> u64 res) list \<Rightarrow> (manager, unit) action" where
  "chat_stdin cr [] = m_return ()"
| "chat_stdin cr (input # inputs) =
     (case input of (line, now) \<Rightarrow>
        m_bind (m_lift (unwrap line)) (\<lambda>line.
          if line = [] then m_return ()
          else m_then (m_unwrap (manager_post_text cr now chat_channel (trim_end line))) (chat_stdin cr inputs)))"

subsection \<open>The chat keeps the invariant of the manager\<close>

lemma chat_stdin_keeps: "keeps (manager_inv cr) (chat_stdin cr inputs)"
proof (induction inputs)
  case Nil
  show ?case by (simp add: keeps_return)
next
  case (Cons input inputs)
  show ?case
    unfolding chat_stdin.simps
    by (cases input) (simp, intro keeps_intros keeps_inv_posts Cons.IH)
qed

text \<open>A post of the chat is one that every peer accepts, as far as its length limits go.\<close>

lemma chat_channel_valid: "validate_channel chat_channel = Ok ()"
  by (simp add: chat_channel_def str_def chars_count_def)

lemma chat_print_all: "chat_print L (map Ok ps) = map (post_display L) ps"
  by (induction ps) simp_all

end
