(* ===== verification/Desert_Tuple.thy ===== *)
theory Desert_Tuple
  imports Desert_Codec
begin

text \<open>
  The macro \<^verbatim>\<open>define_tuple\<close> of \<^verbatim>\<open>desert/src/lib.rs\<close> for any number of components. Its body repeats one piece of code
  per component, so the model takes the list of the components' codecs; the components have one type \<open>'a\<close>, which for a
  tuple of different types is their sum. The macro is invoked for the arities in \<open>tuple_arities\<close>; \<open>pair_codec\<close>, with
  components of two types, is the first of them.
\<close>

definition tuple_arities :: "nat set" where
  "tuple_arities = {2, 3, 4, 5, 6, 7, 8, 9, 10, 11, 12}"

definition tuple_count_bytes :: "'a codec list \<Rightarrow> 'a list \<Rightarrow> nat" where
  "tuple_count_bytes Cs xs = foldr (\<lambda>(C, x) n. count_bytes C x + n) (zip Cs xs) 0"

definition tuple_write_bytes :: "'a codec list \<Rightarrow> 'a list \<Rightarrow> u8 list \<Rightarrow> (u8 list \<times> nat) res" where
  "tuple_write_bytes Cs xs dst =
     (let len = tuple_count_bytes Cs xs
      in if length dst < len then raise_desert (DstInsufficient len (length dst))
         else wr_each (\<lambda>(C, x). put_item C x) (zip Cs xs) (dst, 0))"

primrec tuple_read :: "'a codec list \<Rightarrow> ('a list, error) reader" where
  "tuple_read [] = rd_return []"
| "tuple_read (C # Cs) = rd_bind (read_item C) (\<lambda>x. rd_bind (tuple_read Cs) (\<lambda>xs. rd_return (x # xs)))"

primrec tuple_count :: "'a codec list \<Rightarrow> (unit, error) reader" where
  "tuple_count [] = rd_return ()"
| "tuple_count (C # Cs) = rd_bind (count_item C) (\<lambda>_. tuple_count Cs)"

definition tuple_codec :: "'a codec list \<Rightarrow> 'a list codec" where
  "tuple_codec Cs =
     \<lparr>count_bytes = tuple_count_bytes Cs,
      to_bytes = (\<lambda>xs. and_then (tuple_write_bytes Cs xs (replicate (tuple_count_bytes Cs xs) 0)) (\<lambda>(buf, _). Ok buf)),
      write_bytes = tuple_write_bytes Cs,
      from_bytes = (\<lambda>src. and_then (tuple_read Cs src 0) (\<lambda>(xs, off). Ok (off, xs))),
      count_from_bytes = (\<lambda>buf. and_then (tuple_count Cs buf 0) (\<lambda>(_, off). Ok off))\<rparr>"

subsection \<open>Tuples keep the contract\<close>

text \<open>A component is described by its codec, its valid values and their encoding.\<close>

type_synonym 'a component = "'a codec \<times> ('a \<Rightarrow> bool) \<times> ('a \<Rightarrow> u8 list)"

definition lawful :: "'a component \<Rightarrow> bool" where
  "lawful p \<longleftrightarrow> (case p of (C, v, e) \<Rightarrow> Desert_Codec.codec C v e)"

definition tuple_valid :: "'a component list \<Rightarrow> 'a list \<Rightarrow> bool" where
  "tuple_valid ps xs \<longleftrightarrow> list_all2 (\<lambda>(C, v, e) x. v x) ps xs"

definition tuple_enc :: "'a component list \<Rightarrow> 'a list \<Rightarrow> u8 list" where
  "tuple_enc ps xs = concat (map2 (\<lambda>(C, v, e) x. e x) ps xs)"

lemma tuple_valid_simps [simp]:
  "tuple_valid [] xs \<longleftrightarrow> xs = []"
  "tuple_valid ((C, v, e) # ps) xs \<longleftrightarrow> (\<exists>y ys. xs = y # ys \<and> v y \<and> tuple_valid ps ys)"
  by (auto simp: tuple_valid_def list_all2_Cons1)

lemma tuple_enc_simps [simp]:
  "tuple_enc [] xs = []"
  "tuple_enc ((C, v, e) # ps) (x # xs) = e x @ tuple_enc ps xs"
  by (simp_all add: tuple_enc_def)

lemma tuple_laws:
  assumes "\<forall>p \<in> set ps. lawful p" and "tuple_valid ps xs"
  shows "tuple_count_bytes (map fst ps) xs = length (tuple_enc ps xs)"
    and "writes (wr_each (\<lambda>(C, x). put_item C x) (zip (map fst ps) xs)) (tuple_enc ps xs)"
    and "reads (tuple_read (map fst ps)) (tuple_enc ps xs) xs"
  using assms
proof (induction ps arbitrary: xs)
  case Nil
  case 1 show ?case by (simp add: tuple_count_bytes_def)
  case 2 then show ?case using writes_each [of "[]" _ "\<lambda>_. []"] by simp
  case 3 then show ?case by (simp add: reads_return)
next
  case (Cons p ps)
  obtain C v e where p: "p = (C, v, e)" by (metis prod_cases3)
  case 1
  then obtain y ys where "xs = y # ys" "v y" "tuple_valid ps ys" by (auto simp: p)
  moreover have "codec C v e" using 1 by (auto simp: p lawful_def)
  ultimately show ?case
    using Cons.IH(1) [of ys] 1 by (simp add: p tuple_count_bytes_def codec.count_bytes)
next
  case (Cons p ps)
  obtain C v e where p: "p = (C, v, e)" by (metis prod_cases3)
  case 2
  then obtain y ys where ys: "xs = y # ys" "v y" "tuple_valid ps ys" by (auto simp: p)
  moreover have C: "codec C v e" using 2 by (auto simp: p lawful_def)
  ultimately show ?case
    using Cons.IH(2) [of ys] 2 writes_run_Cons [OF codec.writes_item [OF C ys(2)]]
    by (simp add: p wr_each_def del: wr_run.simps)
next
  case (Cons p ps)
  obtain C v e where p: "p = (C, v, e)" by (metis prod_cases3)
  case 3
  then obtain y ys where ys: "xs = y # ys" "v y" "tuple_valid ps ys" by (auto simp: p)
  moreover have C: "codec C v e" using 3 by (auto simp: p lawful_def)
  ultimately show ?case
    using 3 reads_bind [OF codec.reads_item [OF C ys(2)] reads_bind_last [OF Cons.IH(3) [of ys] reads_return]]
    by (simp add: p)
qed

text \<open>A tuple of lawful components is lawful, for every arity.\<close>

lemma tuple_codec_codec:
  assumes "\<forall>p \<in> set ps. lawful p"
  shows "Desert_Codec.codec (tuple_codec (map fst ps)) (tuple_valid ps) (tuple_enc ps)"
proof -
  have wr: "tuple_write_bytes (map fst ps) xs dst =
      Ok (tuple_enc ps xs @ drop (length (tuple_enc ps xs)) dst, length (tuple_enc ps xs))"
    if "tuple_valid ps xs" "length (tuple_enc ps xs) \<le> length dst" for xs dst
    using that tuple_laws(1) [OF assms that(1)] writesD [OF tuple_laws(2) [OF assms that(1)], of 0 dst]
    by (simp add: tuple_write_bytes_def Let_def)
  show ?thesis
    by (unfold_locales, simp_all add: tuple_codec_def tuple_laws(1) [OF assms] wr)
      (use reads_whole [OF tuple_laws(3) [OF assms]] in auto)
qed

text \<open>For two components of one type the macro is \<open>pair_codec\<close>.\<close>

lemma tuple_codec_pair:
  "from_bytes (tuple_codec [A, B]) src = and_then (from_bytes (pair_codec A B) src) (\<lambda>(n, a, b). Ok (n, [a, b]))"
  "write_bytes (tuple_codec [A, B]) [a, b] dst = write_bytes (pair_codec A B) (a, b) dst"
  "count_bytes (tuple_codec [A, B]) [a, b] = count_bytes (pair_codec A B) (a, b)"
proof -
  show "from_bytes (tuple_codec [A, B]) src = and_then (from_bytes (pair_codec A B) src) (\<lambda>(n, a, b). Ok (n, [a, b]))"
  proof (cases "read_item A src 0")
    case (Ok r)
    then show ?thesis
      by (cases r; cases "read_item B src (snd r)") (auto simp: tuple_codec_def pair_codec_def rd_bind_def rd_return_def)
  qed (simp_all add: tuple_codec_def pair_codec_def rd_bind_def)
qed (simp_all add: tuple_codec_def pair_codec_def tuple_write_bytes_def pair_write_bytes_def tuple_count_bytes_def
      wr_each_def Let_def)

text \<open>The contract for tuples of three 64-bit integers.\<close>

interpretation u64_triple: codec "tuple_codec [be_codec, be_codec, be_codec :: u64 codec]"
  "tuple_valid (replicate 3 (be_codec, \<lambda>_. True, to_be_bytes))" "tuple_enc (replicate 3 (be_codec, \<lambda>_. True, to_be_bytes))"
  using tuple_codec_codec [of "replicate 3 (be_codec :: u64 codec, \<lambda>_. True, to_be_bytes)"] u64.codec_axioms
  by (simp add: lawful_def eval_nat_numeral)

end
