(* ===== verification/Desert_Tests.thy ===== *)
theory Desert_Tests
  imports Desert_Tuple Workspace_Execution
begin

text \<open>
  \<^verbatim>\<open>desert/tests\<close>: the tests of the built-in types, and a type whose traits are written by hand. A test is a bool, true when
  all its assertions hold. A number of type \<^verbatim>\<open>f32\<close> is the word of its bits; the tests compare no zero and no NaN, so
  equality of the bits is equality of the numbers.
\<close>

type_synonym u16 = "16 word"
type_synonym f32 = u32

subsection \<open>Vectors as elements\<close>

context sized_codec begin

lemma vec_count_loop_items:
  assumes "list_all valid xs" and "list_all (\<lambda>x. enc x \<noteq> []) xs"
  shows "vec_count_loop C (pre @ concat (map enc xs) @ rest)
           (length pre + length (concat (map enc xs))) (length pre) =
         Some (Ok (length pre + length (concat (map enc xs))))"
  using assms
proof (induction xs arbitrary: pre)
  case Nil
  then show ?case by (simp add: vec_count_loop.simps)
next
  case (Cons x xs)
  have 1: "Desert_Codec.count_item C (pre @ enc x @ (concat (map enc xs) @ rest)) (length pre) =
      Ok ((), length pre + length (enc x))"
    using Cons.prems by (intro readsD count_item) simp
  show ?case
    using Cons.IH [of "pre @ enc x"] Cons.prems 1
    by (subst vec_count_loop.simps) (simp add: add.assoc)
qed

lemma vec_count_from:
  assumes "list_all valid xs" and "list_all (\<lambda>x. enc x \<noteq> []) xs" and "length (concat (map enc xs)) < 2 ^ 56"
  shows "vec_count_from_bytes C (vec_enc enc xs @ rest) = Some (Ok (length (vec_enc enc xs)))"
proof -
  let ?b = "concat (map enc xs)"
  have "unat (of_nat (length ?b) :: u64) = length ?b" using assms(3) by (intro unat_of_nat_u64) simp
  then show ?thesis
    using assms vec_count_loop_items [OF assms(1,2), of "varint_bytes (of_nat (length ?b))" rest]
      varint_decode_bytes_56 [of "of_nat (length ?b)" "?b @ rest"]
    by (simp add: vec_count_from_bytes_def vec_enc_def)
qed

end

interpretation u16: sized_codec "be_codec :: u16 codec" "\<lambda>_. True" to_be_bytes
  by (rule be_codec_sized) simp

text \<open>The traits of \<^verbatim>\<open>Vec<T>\<close> as one record, for vectors inside tuples.\<close>

definition vec_codec :: "'a codec \<Rightarrow> 'a list codec" where
  "vec_codec C =
     \<lparr>count_bytes = vec_count_bytes C, to_bytes = vec_to_bytes C, write_bytes = vec_write_bytes C,
      from_bytes = (\<lambda>src. the (vec_from_bytes C src)), count_from_bytes = (\<lambda>buf. the (vec_count_from_bytes C buf))\<rparr>"

definition vec_ok :: "('a \<Rightarrow> bool) \<Rightarrow> ('a \<Rightarrow> u8 list) \<Rightarrow> 'a list \<Rightarrow> bool" where
  "vec_ok valid enc xs \<longleftrightarrow>
     list_all valid xs \<and> list_all (\<lambda>x. enc x \<noteq> []) xs \<and> length (concat (map enc xs)) < 2 ^ 56"

context codec begin

lemma vec_lawful: "Desert_Codec.codec (vec_codec C) (vec_ok valid enc) (vec_enc enc)"
  by unfold_locales (simp_all add: vec_codec_def vec_ok_def vec_count vec_to vec_write vec_roundtrip)

end

text \<open>A component of a tuple of different types.\<close>

definition as_field :: "('a \<Rightarrow> 'f) \<Rightarrow> ('f \<Rightarrow> 'a) \<Rightarrow> 'a codec \<Rightarrow> 'f codec" where
  "as_field into out C =
     \<lparr>count_bytes = (\<lambda>f. count_bytes C (out f)), to_bytes = (\<lambda>f. to_bytes C (out f)),
      write_bytes = (\<lambda>f. write_bytes C (out f)),
      from_bytes = (\<lambda>src. and_then (from_bytes C src) (\<lambda>(n, x). Ok (n, into x))),
      count_from_bytes = count_from_bytes C\<rparr>"

lemma as_field_lawful:
  assumes "codec C v e" and "\<And>x. out (into x) = x"
  shows "codec (as_field into out C) (\<lambda>f. \<exists>x. f = into x \<and> v x) (\<lambda>f. e (out f))"
  by unfold_locales
    (auto simp: as_field_def assms(2) codec.count_bytes [OF assms(1)] codec.to_bytes [OF assms(1)] codec.write_bytes [OF assms(1)]
      codec.from_bytes [OF assms(1)])

lemma as_field_total:
  "codec C (\<lambda>_. True) e \<Longrightarrow> (\<And>x. out (into x) = x) \<Longrightarrow> codec (as_field into out C) (\<lambda>f. \<exists>x. f = into x) (\<lambda>f. e (out f))"
  by (drule as_field_lawful [where v = "\<lambda>_. True"]) simp_all

subsection \<open>builtins.rs\<close>

definition large_ints :: "u16 list" where
  "large_ints = map (\<lambda>i. of_nat (i mod 5 + i mod 3 * 500)) [0..<500]"

definition extra_bytes :: "u8 list" where
  "extra_bytes = map (\<lambda>i. of_nat ((i mod 6 + i mod 9 * 300) mod 256)) [0..<100]"

definition builtins_small :: bool where
  "builtins_small \<longleftrightarrow>
     from_bytes be_codec [5] = Ok (1, 5 :: u8) \<and>
     from_bytes be_codec [13, 12] = Ok (2, 3340 :: u16) \<and>
     from_bytes be_codec [5, 6, 7, 8] = Ok (4, 84281096 :: u32) \<and>
     to_bytes be_codec (5 :: u8) = Ok [5] \<and>
     to_bytes be_codec (3340 :: u16) = Ok [13, 12] \<and>
     to_bytes be_codec (84281096 :: u32) = Ok [5, 6, 7, 8] \<and>
     count_from_bytes (be_codec :: u8 codec) [5] = Ok 1 \<and>
     count_from_bytes (be_codec :: u16 codec) [13, 12] = Ok 2 \<and>
     count_from_bytes (be_codec :: u32 codec) [5, 6, 7, 8] = Ok 4 \<and>
     vec_to_bytes be_codec [7, 8, 9 :: u8] = Ok [3, 7, 8, 9] \<and>
     vec_to_bytes be_codec [7, 8, 9 :: u32] = Ok [12, 0, 0, 0, 7, 0, 0, 0, 8, 0, 0, 0, 9] \<and>
     vec_count_from_bytes (be_codec :: u8 codec) [3, 7, 8, 9] = Some (Ok 4) \<and>
     vec_from_bytes be_codec [3, 7, 8, 9] = Some (Ok (4, [7, 8, 9 :: u8])) \<and>
     vec_from_bytes be_codec [12, 0, 0, 0, 7, 0, 0, 0, 8, 0, 0, 0, 9] = Some (Ok (13, [7, 8, 9 :: u32])) \<and>
     vec_count_bytes be_codec [7, 8, 9 :: u32] = 13"

definition builtins_large :: bool where
  "builtins_large \<longleftrightarrow>
     (case vec_to_bytes be_codec large_ints of
        Ok bytes \<Rightarrow>
          let with_extra = bytes @ extra_bytes
          in length bytes = 1002 \<and>
             vec_from_bytes be_codec bytes = Some (Ok (length bytes, large_ints)) \<and>
             vec_count_from_bytes (be_codec :: u16 codec) bytes = Some (Ok (length bytes)) \<and>
             vec_from_bytes be_codec with_extra = Some (Ok (length bytes, large_ints)) \<and>
             vec_count_from_bytes (be_codec :: u16 codec) with_extra = Some (Ok (length bytes))
      | _ \<Rightarrow> False)"

definition booleans :: bool where
  "booleans \<longleftrightarrow> count_bytes bool_codec True = 1 \<and> vec_count_bytes bool_codec [True, False] = 3"

text \<open>The tuples of different types.\<close>

datatype field = U8 u8 | U16 u16 | U32 u32 | F32 f32 | F32s "f32 \<times> f32" | Bytes "u8 list"

definition u8_field :: "field codec" where
  "u8_field = as_field U8 (\<lambda>f. case f of U8 x \<Rightarrow> x | _ \<Rightarrow> 0) be_codec"

definition u16_field :: "field codec" where
  "u16_field = as_field U16 (\<lambda>f. case f of U16 x \<Rightarrow> x | _ \<Rightarrow> 0) be_codec"

definition u32_field :: "field codec" where
  "u32_field = as_field U32 (\<lambda>f. case f of U32 x \<Rightarrow> x | _ \<Rightarrow> 0) be_codec"

definition f32_field :: "field codec" where
  "f32_field = as_field F32 (\<lambda>f. case f of F32 x \<Rightarrow> x | _ \<Rightarrow> 0) be_codec"

definition f32s_field :: "field codec" where
  "f32s_field = as_field F32s (\<lambda>f. case f of F32s x \<Rightarrow> x | _ \<Rightarrow> (0, 0)) (pair_codec be_codec be_codec)"

definition bytes_field :: "field codec" where
  "bytes_field = as_field Bytes (\<lambda>f. case f of Bytes x \<Rightarrow> x | _ \<Rightarrow> []) (vec_codec be_codec)"

definition tuples :: bool where
  "tuples \<longleftrightarrow>
     (let u8_pair = pair_codec (be_codec :: u8 codec) (be_codec :: u8 codec);
          u16_triple = tuple_codec [be_codec, be_codec, be_codec :: u16 codec];
          mixed = tuple_codec [u16_field, u8_field, u16_field]
      in count_bytes u8_pair (3, 4) = 2 \<and>
         count_bytes u16_triple [6, 7, 8] = 6 \<and>
         to_bytes u8_pair (3, 4) = Ok [3, 4] \<and>
         to_bytes u16_triple [6, 7, 8] = Ok [0, 6, 0, 7, 0, 8] \<and>
         count_from_bytes u16_triple [0, 6, 0, 7, 0, 8, 200, 201, 202, 203, 204] = Ok 6 \<and>
         to_bytes mixed [U16 6, U8 7, U16 8] = Ok [0, 6, 7, 0, 8] \<and>
         count_from_bytes mixed [0, 6, 7, 0, 8, 200, 201, 202, 203, 204] = Ok 5)"

definition arrays :: bool where
  "arrays \<longleftrightarrow>
     (let u8s = array_codec (be_codec :: u8 codec) 2; u16s = array_codec (be_codec :: u16 codec) 3
      in count_bytes u8s [3, 4] = 2 \<and>
         count_bytes u16s [6, 7, 8] = 6 \<and>
         to_bytes u8s [3, 4] = Ok [3, 4] \<and>
         to_bytes u16s [6, 7, 8] = Ok [0, 6, 0, 7, 0, 8] \<and>
         vec_count_from_bytes (be_codec :: u16 codec) [6, 0, 6, 0, 7, 0, 8, 200, 201, 202, 203, 204] = Some (Ok 7) \<and>
         count_from_bytes u16s [0, 6, 0, 7, 0, 8, 200, 201, 202, 203, 204] = Ok 6)"

text \<open>The numbers \<^verbatim>\<open>x * 137 + 24\<close> are below \<open>2 ^ 16\<close>, so the cast to \<^verbatim>\<open>u16\<close> keeps them.\<close>

definition many_bytes :: "u8 list" where
  "many_bytes = map (\<lambda>x. of_nat ((x * 137 + 24) mod 256)) [0..<200]"

definition vectors_small :: bool where
  "vectors_small \<longleftrightarrow>
     (let xs = [0, 1, 2, 3, 4, 5, 6, 7, 8, 9, 10, 11, 12, 13] :: u8 list; bytes = 14 # xs
      in vec_to_bytes be_codec xs = Ok bytes \<and>
         (case vec_to_bytes be_codec xs of Ok bs \<Rightarrow> vec_from_bytes be_codec bs = Some (Ok (15, xs)) | _ \<Rightarrow> False))"

definition vectors_large :: bool where
  "vectors_large \<longleftrightarrow>
     (case vec_to_bytes be_codec many_bytes of
        Ok bs \<Rightarrow> vec_from_bytes be_codec bs = Some (Ok (length many_bytes + 2, many_bytes))
      | _ \<Rightarrow> False)"

definition nested_bytes :: "u8 list" where
  "nested_bytes =
     [211, 245, 162, 214, 25, 238, 66, 38, 34, 37, 155, 210, 230, 76, 17, 182, 128, 200, 112,
      118, 77, 62, 24, 32, 201, 100, 198, 21, 244, 182, 52, 81, 158, 55, 43, 0, 61, 115, 92,
      4, 6, 80, 197, 51, 241, 19, 131, 140, 238, 147, 19, 43, 149, 21, 93, 56, 190, 249, 106,
      15, 20, 166, 69, 201, 121, 36, 111, 180]"

definition nested_tuple :: bool where
  "nested_tuple \<longleftrightarrow>
     (let T = tuple_codec [u8_field, u32_field, u16_field, bytes_field];
          obj = [U8 4, U32 5, U16 6, Bytes many_bytes]
      in case to_bytes T obj of
           Ok bs \<Rightarrow> from_bytes T bs = Ok (length many_bytes + 2 + 7, obj)
         | _ \<Rightarrow> False)"

definition nested_floats :: bool where
  "nested_floats \<longleftrightarrow>
     (let T = pair_codec (tuple_codec [f32s_field, f32s_field, f32_field]) (vec_codec be_codec);
          obj = ([F32s (0xBF4A3D71, 0xBF2E147B), F32s (0x3EEB851F, 0x3EEB851F), F32 0x4222EB85], nested_bytes)
      in (case vec_to_bytes be_codec nested_bytes of
            Ok bs \<Rightarrow> vec_from_bytes be_codec bs = Some (Ok (69, nested_bytes))
          | _ \<Rightarrow> False) \<and>
         (case to_bytes T obj of Ok bs \<Rightarrow> from_bytes T bs = Ok (89, obj) | _ \<Rightarrow> False))"

subsection \<open>They pass\<close>

declare vec_from_loop.simps [code] vec_count_loop.simps [code]

lemma builtins_small_passes: builtins_small
  by code_simp

lemma booleans_passes: booleans
  by code_simp

lemma tuples_passes: tuples
  by code_simp

lemma arrays_passes: arrays
  by code_simp

lemma vectors_small_passes: vectors_small
  by code_simp

lemma nested_floats_passes: nested_floats
  by code_simp

lemma length_to_be_bytes: "length (to_be_bytes (v :: 'a :: len word)) = LENGTH('a) div 8"
  by (simp add: to_be_bytes_def length_to_le_bytes)

lemma length_many_bytes: "length many_bytes = 200" and length_large_ints: "length large_ints = 500"
  by (simp_all add: many_bytes_def large_ints_def)

lemma varint_two: "127 < v \<Longrightarrow> v < 16384 \<Longrightarrow> length (varint_bytes v) = 2"
  by (simp add: varint_bytes_big varint_bytes_small word_less_nat_alt unat_drop_bit_7 word_le_nat_alt)

lemma many_vec: "vec_ok (\<lambda>_. True) to_be_bytes many_bytes" "length (vec_enc to_be_bytes many_bytes) = 202"
  by (simp_all add: vec_ok_def list_all_iff concat_to_be_bytes_u8 to_be_bytes_u8 length_many_bytes vec_enc_def varint_two)

interpretation u8_vec: codec "vec_codec (be_codec :: u8 codec)" "vec_ok (\<lambda>_. True) to_be_bytes" "vec_enc to_be_bytes"
  by (rule u8.vec_lawful)

lemma vectors_large_passes: vectors_large
  using u8_vec.to_bytes [OF many_vec(1)] u8_vec.from_bytes [OF many_vec(1), of "[]"] many_vec(2)
  by (simp add: vectors_large_def u8.vec_to u8.vec_roundtrip [of many_bytes "[]", simplified] list_all_iff to_be_bytes_u8
     concat_to_be_bytes_u8 length_many_bytes)

lemma large_vec:
  "length (concat (map to_be_bytes large_ints)) = 1000" "to_be_bytes (v :: u16) \<noteq> []"
  "length (vec_enc to_be_bytes large_ints) = 1002"
proof -
  show l: "length (concat (map to_be_bytes large_ints)) = 1000"
    using length_concat_const [of large_ints to_be_bytes 2] by (simp add: length_to_be_bytes length_large_ints)
  show "to_be_bytes (v :: u16) \<noteq> []" using length_to_be_bytes [of v] by auto
  show "length (vec_enc to_be_bytes large_ints) = 1002" unfolding vec_enc_def using l by (simp add: varint_two)
qed

lemma builtins_large_passes: builtins_large
  using u16.vec_roundtrip [of large_ints] u16.vec_roundtrip [of large_ints "[]"]
    u16.vec_count_from [of large_ints] u16.vec_count_from [of large_ints "[]"]
  by (simp add: builtins_large_def u16.vec_to list_all_iff large_vec Let_def)

text \<open>The fields of the nested tuple keep the contract, so the tuple does.\<close>

definition nested_parts :: "field component list" where
  "nested_parts =
     [(u8_field, \<lambda>f. \<exists>x. f = U8 x, \<lambda>f. to_be_bytes (case f of U8 x \<Rightarrow> x | _ \<Rightarrow> 0)),
      (u32_field, \<lambda>f. \<exists>x. f = U32 x, \<lambda>f. to_be_bytes (case f of U32 x \<Rightarrow> x | _ \<Rightarrow> 0)),
      (u16_field, \<lambda>f. \<exists>x. f = U16 x, \<lambda>f. to_be_bytes (case f of U16 x \<Rightarrow> x | _ \<Rightarrow> 0)),
      (bytes_field, \<lambda>f. \<exists>x. f = Bytes x \<and> vec_ok (\<lambda>_. True) to_be_bytes x,
         \<lambda>f. vec_enc to_be_bytes (case f of Bytes x \<Rightarrow> x | _ \<Rightarrow> []))]"

lemma nested_parts_lawful: "\<forall>p \<in> set nested_parts. lawful p"
  unfolding nested_parts_def lawful_def u8_field_def u32_field_def u16_field_def bytes_field_def
  by (auto intro!: as_field_total as_field_lawful u8.codec_axioms u32.codec_axioms u16.codec_axioms u8_vec.codec_axioms)

interpretation nested: codec "tuple_codec (map fst nested_parts)" "tuple_valid nested_parts" "tuple_enc nested_parts"
  by (rule tuple_codec_codec [OF nested_parts_lawful])

lemma nested_tuple_passes: nested_tuple
proof -
  let ?obj = "[U8 4, U32 5, U16 6, Bytes many_bytes]"
  have "tuple_valid nested_parts ?obj" "length (tuple_enc nested_parts ?obj) = 209"
    using many_vec by (simp_all add: nested_parts_def length_to_be_bytes)
  from nested.to_bytes [OF this(1)] nested.from_bytes [OF this(1), of "[]"] this(2) show ?thesis
    by (simp add: nested_tuple_def nested_parts_def length_many_bytes)
qed

subsection \<open>custom.rs\<close>

datatype item = ItemA "f32 \<times> f32" | ItemB u32

record custom =
  foo :: u64
  items :: "item list"

abbreviation f32_pair :: "(f32 \<times> f32) codec" where
  "f32_pair \<equiv> pair_codec be_codec be_codec"

text \<open>\<^verbatim>\<open>bitfield[i / 8] |= flag << (i % 8)\<close> for the items from \<open>i\<close> on. The bitfield is long enough for all items.\<close>

primrec set_flags :: "nat \<Rightarrow> item list \<Rightarrow> u8 list \<Rightarrow> u8 list" where
  "set_flags i [] bitfield = bitfield"
| "set_flags i (x # xs) bitfield =
     set_flags (i + 1) xs
       (bitfield[i div 8 := bitfield ! (i div 8) OR push_bit (i mod 8) (case x of ItemA _ \<Rightarrow> 0 | ItemB _ \<Rightarrow> 1)])"

primrec item_to_bytes :: "item \<Rightarrow> (u8 list) res" where
  "item_to_bytes (ItemA x) = to_bytes f32_pair x"
| "item_to_bytes (ItemB x) = to_bytes be_codec x"

primrec items_to_bytes :: "item list \<Rightarrow> (u8 list) res" where
  "items_to_bytes [] = Ok []"
| "items_to_bytes (x # xs) = and_then (item_to_bytes x) (\<lambda>bs. and_then (items_to_bytes xs) (\<lambda>bs'. Ok (bs @ bs')))"

definition custom_to_bytes :: "custom \<Rightarrow> (u8 list) res" where
  "custom_to_bytes c =
     and_then (to_bytes be_codec (foo c)) (\<lambda>foo_bytes.
     and_then (to_bytes be_codec (of_nat (length (items c)) :: u16)) (\<lambda>len_bytes.
     and_then (items_to_bytes (items c)) (\<lambda>item_bytes.
     Ok (foo_bytes @ len_bytes @ set_flags 0 (items c) (replicate ((length (items c) + 7) div 8) 0) @ item_bytes))))"

text \<open>The loop over \<open>i\<close>; the index into the bitfield is checked.\<close>

primrec read_custom_items :: "u8 list \<Rightarrow> nat list \<Rightarrow> (item list, error) reader" where
  "read_custom_items bitfield [] = rd_return []"
| "read_custom_items bitfield (i # is) =
     rd_bind (rd_check (if i div 8 < length bitfield then Ok () else Panic SliceIndexOutOfRange)) (\<lambda>_.
     rd_bind
       (if drop_bit (i mod 8) (bitfield ! (i div 8)) AND 1 = 0
        then rd_bind (read_item f32_pair) (\<lambda>x. rd_return (ItemA x))
        else rd_bind (read_item be_codec) (\<lambda>x. rd_return (ItemB x))) (\<lambda>x.
     rd_bind (read_custom_items bitfield is) (\<lambda>xs. rd_return (x # xs))))"

text \<open>The sum \<^verbatim>\<open>item_len + 7\<close> is on \<^verbatim>\<open>u16\<close>; it overflows when it is smaller than \<^verbatim>\<open>item_len\<close>.\<close>

definition read_custom :: "bool \<Rightarrow> (custom, error) reader" where
  "read_custom checks =
     rd_bind (read_item be_codec) (\<lambda>foo.
     rd_bind (read_item be_codec) (\<lambda>item_len :: u16.
     rd_bind (rd_check (if checks \<and> item_len + 7 < item_len then Panic ArithmeticOverflow else Ok ())) (\<lambda>_.
     rd_bind (read_slice (unat ((item_len + 7) div 8))) (\<lambda>bitfield.
     rd_bind (read_custom_items bitfield [0..<unat item_len]) (\<lambda>items.
     rd_return \<lparr>foo = foo, items = items\<rparr>)))))"

definition custom_from_bytes :: "bool \<Rightarrow> u8 list \<Rightarrow> (nat \<times> custom) res" where
  "custom_from_bytes checks src = and_then (read_custom checks src 0) (\<lambda>(c, off). Ok (off, c))"

definition custom_test :: bool where
  "custom_test \<longleftrightarrow>
     (let c = \<lparr>foo = 1234567890123456789,
               items = [ItemA (0x40400000, 0x40866666), ItemB 1337, ItemA (0x40B00000, 0x40D33333)]\<rparr>
      in case custom_to_bytes c of
           Ok bytes \<Rightarrow>
             bytes =
               [17, 34, 16, 244, 125, 233, 129, 21, 0, 3, 2, 64, 64, 0, 0, 64, 134, 102, 102, 0, 0, 5, 57, 64, 176, 0, 0, 64,
                211, 51, 51] \<and>
             custom_from_bytes True bytes = Ok (length bytes, c)
         | _ \<Rightarrow> False)"

lemma custom_test_passes: custom_test
  by code_simp

end
