(* ===== verification/Spec2Isabelle.thy ===== *)
theory Spec2Isabelle
  imports Core_Tests Core_Announce Core_Store_Props Handshake_Tests Length_Prefixed_Tests Cable_Vectors Cable_Example Core_Chat Desert_Tests
begin

text \<open>
  Verification of the cable.rs workspace, an implementation of the peer-to-peer group chat protocol Cable.

  \<^bold>\<open>The program.\<close> Five crates. \<^verbatim>\<open>desert\<close> holds the traits for binary encoding and the varint format. \<^verbatim>\<open>cable\<close> holds
  posts and messages with their wire formats, signatures and length checks. \<^verbatim>\<open>length_prefixed_stream\<close> cuts the bytes of
  a connection into messages. \<^verbatim>\<open>cable_core\<close> holds the store of posts, the live streams that a store feeds, and the
  manager, which speaks the protocol with its peers. \<^verbatim>\<open>handshake\<close> sets up an encrypted connection and sends messages on it.
  A manager reads a connection through \<^verbatim>\<open>length_prefixed_stream\<close>, decodes a message with \<^verbatim>\<open>cable\<close>, handles it on its store
  and sends its answers through one bounded channel for each peer. The handshake is independent of the other crates.

  \<^bold>\<open>Theories.\<close> Each definition has the name of the source where Isabelle allows it.

  \<^item> \<open>Rust_Prelude\<close>, \<open>Rust_State\<close>, \<open>Rust_Utf8\<close>, \<open>Rust_Collections\<close>, \<open>Rust_Text\<close>: the language and the standard library, as
    far as the source uses them. A result has a third constructor for a panic; \<open>writer\<close> and \<open>reader\<close> are code that
    moves an offset over a buffer; an \<open>action\<close> is a method on a mutable state; a string is its UTF-8 bytes.
  \<^item> \<open>Workspace_Execution\<close>: equations by which tests are evaluated on concrete bytes, proved equal to the definitions.
  \<^item> \<open>Workspace_Errors\<close>: the four \<^verbatim>\<open>error.rs\<close>. \<open>Workspace_Display\<close>: every \<^verbatim>\<open>Display\<close> implementation of \<^verbatim>\<open>cable\<close> and of the errors.
  \<^item> \<open>Desert_Varint\<close>: \<^verbatim>\<open>desert/src/varint.rs\<close>. \<open>Desert_Codec\<close> and \<open>Desert_Tuple\<close>: \<^verbatim>\<open>desert/src/lib.rs\<close>; the methods of the
    traits for one type are a record \<open>'a codec\<close>, and the contract of its users is the locale \<open>codec\<close>. \<open>Desert_Tests\<close>: \<^verbatim>\<open>desert/tests\<close>.
  \<^item> \<open>Cable_Types\<close>, \<open>Cable_Post\<close>, \<open>Cable_Message\<close>: \<^verbatim>\<open>cable/src\<close>. The encoders and decoders are the source's runs over a
    buffer; \<open>post_bytes\<close> and \<open>message_bytes\<close> are the formats that they are proved to implement, and both types are
    interpretations of \<open>codec\<close>. \<open>Cable_Vectors\<close>: the unit tests of the crate with their test vectors.
    \<open>Cable_Example\<close>: \<^verbatim>\<open>cable/examples/types.rs\<close>.
  \<^item> \<open>Length_Prefixed\<close>, \<open>Length_Prefixed_Props\<close>, \<open>Length_Prefixed_Example\<close>, \<open>Length_Prefixed_Tests\<close>: \<^verbatim>\<open>length_prefixed_stream\<close>; the
    decoder with its three loops, the stream made of it, a connection as the list of the pieces that its reads return, the
    example and \<^verbatim>\<open>tests\<close>.
  \<^item> \<open>Core_Stream\<close>, \<open>Core_Store\<close>, \<open>Core_Store_Inv\<close>, \<open>Core_Store_Props\<close>: \<^verbatim>\<open>cable_core/src/stream.rs\<close> and \<^verbatim>\<open>store.rs\<close>; the record
    \<open>store\<close> has one field for each locked map of \<^verbatim>\<open>MemoryStore\<close>. The maps with one contract share the locales \<open>key_log\<close>,
    \<open>removable_log\<close> and \<open>latest_register\<close>, interpreted on the methods of the store.
  \<^item> \<open>Core_Manager\<close>, \<open>Core_Manager_Inv\<close>, \<open>Core_Manager_Props\<close>, \<open>Core_Requests\<close>, \<open>Core_Publish\<close>, \<open>Core_Announce\<close>, \<open>Core_Network\<close>, \<open>Core_Chat\<close>, \<open>Core_Tests\<close>:
    \<^verbatim>\<open>cable_core/src/manager.rs\<close>; the record \<open>manager\<close>, one definition for each method and for each arm of \<^verbatim>\<open>handle\<close>, the
    steps of \<^verbatim>\<open>listen\<close>, two managers joined by encoding, framing and decoding, the tasks of the chat example, and \<^verbatim>\<open>cable_core/tests\<close>
    with the connection as the bytes that are written and not yet read.
  \<^item> \<open>Handshake\<close>, \<open>Handshake_Props\<close>, \<open>Post_Handshake\<close>, \<open>Handshake_Session\<close>, \<open>Handshake_Examples\<close>, \<open>Handshake_Tests\<close>: \<^verbatim>\<open>handshake\<close>;
    the typestates and their methods, the drivers as programs on a stream, the step relation of two programs on one
    connection, encrypted messages, whole sessions, and the example programs, benchmarks, unit tests and \<^verbatim>\<open>handshake/tests\<close>.

  \<^bold>\<open>What the theorems show.\<close> Encoding and decoding: round trips, well-formedness of everything decoded, exact bounds
  of the varint and of the length prefix, and agreement with the test vectors. The tests of all crates pass on the model: \<open>unit_tests_pass\<close>,
  \<open>integration_tests_pass\<close>, and for the handshake lemmas on every Noise library that meets the assumptions. Framing: conservation of the bytes,
  exact delivery, and the one way of cutting a connection that is misread. Store: an invariant of all reachable
  states, insertion as a refinement of an abstract replica (deletion by the author only), the effect of every kind of
  post, exact queries, live delivery. Manager: an invariant of all reachable states, storage of requested and verified
  posts only, the answer to each request, the messages that publishing sends to live requests, forwarding, cancellation and the cases that panic or never return. Replication: an exchange between two managers
  refines one step of an abstract replica that only knows which payload belongs to which hash. Handshake: every
  interleaving ends, successfully for equal major versions and with the stated errors otherwise; messages of every
  size survive the encrypted stream, and so does a whole session.

  \<^bold>\<open>Termination, bounds and fuel.\<close> Loops over data are structural or have a measure. The decoding of a vector, which
  does not end on elements of no bytes, is a \<open>partial_function\<close> with value \<open>None\<close> for not returning. The consumer of a
  stream polls a given number of items (\<open>poll_items k\<close>, \<open>listen_reads k\<close>): the theorems use one more than the number of
  messages, which includes the end of the stream. \<open>runs n\<close> is a run of exactly \<open>n\<close> steps; a completion theorem bounds the
  length of every run and gives its end. A varint is decoded from at most eight bytes, hence the bounds \<open>2 ^ 56\<close>. The
  argument \<open>checks\<close> is true for a build with overflow checks.

  \<^bold>\<open>Parameters.\<close> Code that is not in the repository is an argument: hashing and signatures (record \<open>crypto\<close>), the Noise
  library (record \<open>noise\<close>), the clock, random identifiers and keys, the bytes of the connection, and for printing the
  hexadecimal encoder and the escaping of characters (record \<open>text_lib\<close>). Assumptions on them are named and met by sample
  instances: \<open>key_pair\<close> (signatures of a key pair verify), \<open>genuine\<close> (a payload that its hash identifies and whose
  signature verifies), \<open>noise_session\<close>, \<open>noise_link\<close> and \<open>noise_duplex\<close> (two ends with one pre-shared key understand each
  other). The iteration order of a hash map is the order of its association list; no theorem rests on a certain order.

  \<^bold>\<open>Not modelled.\<close> Wakers and pending polls, since a step of the model happens when it can; contention for locks between
  tasks, each method being one step, but a task that waits for a lock it holds is a deadlock of the model; waiting on a
  full peer channel; backtraces of errors; logging. The implementations of \<^verbatim>\<open>Debug\<close> other than those that \<^verbatim>\<open>Display\<close>
  uses; the opening of sockets in the examples, benchmarks and tests, and the measuring of the benchmarks. The signatures of the trait
  \<^verbatim>\<open>Store\<close> appear through their implementation by \<^verbatim>\<open>MemoryStore\<close>.
\<close>

section \<open>Two managers on a connection\<close>

text \<open>C2. Replication. Manager \<open>a\<close> has queued a hash response for its peer \<open>b\<close>. Encoded, cut out of the byte stream,
  decoded and handled on both sides, it leads to a post request and a post response, after which \<open>b\<close> knows
  what the abstract replica knows that has learnt the offered posts it lacks: exactly the posts of \<open>a\<close> among the
  offered ones are added, byte for byte, and nothing else changes. The store of \<open>a\<close> is unchanged and both
  queues are empty. The posts of \<open>a\<close> are signed, none of them is a delete post, the messages have one of the
  sizes whose length prefix is exact, and the request identifiers are new.\<close>

theorem sync_round_refines:
  assumes "peer_open a p" and "queued a p = [hash_response c r hs]" and "peer_open b q" and "queued b q = []"
    and "want (mg_store b) hs \<noteq> []"
    and "\<not> is_stale b q r" and "\<not> is_stale a p (next_req_id b)" and "next_req_id b \<notin> insert r (set (mg_handled_requests b))"
    and "wire_ok (hash_response c r hs)" and "wire_ok (post_request c (next_req_id b) TTL (want (mg_store b) hs))"
    and "wire_ok (post_response c (next_req_id b) (get_post_payloads (mg_store a) (want (mg_store b) hs)))"
    and "\<forall>h \<in> set hs. h \<notin> set (mg_deleted_posts b)"
    and "\<forall>h \<in> set hs. \<forall>bs. get_post_payload (mg_store a) h = Some bs \<longrightarrow> genuine cr h bs"
  shows "\<exists>a' b'. sync_round cr checks p q a b = (a', b') \<and> known b' = learn (known a) hs (known b) \<and>
     mg_store a' = mg_store a \<and> queued a' p = [] \<and> queued b' q = []"
proof -
  let ?ws = "want (mg_store b) hs" and ?n = "next_req_id b"
  let ?req = "post_request c ?n TTL ?ws" and ?res = "post_response c ?n (get_post_payloads (mg_store a) ?ws)"
  obtain a1 where t1: "transmit cr checks p q a b = (a1, fst (handle cr checks q (hash_response c r hs) b))"
    and a1: "queued a1 p = []" "peer_open a1 p" "a1 = a\<lparr>mg_peers := mg_peers a1\<rparr>"
    by (rule transmit_one [OF assms(2,9,1)]) blast
  obtain b1 where b1: "handle cr checks q (hash_response c r hs) b = (b1, Ok ())" "mg_store b1 = mg_store b"
    "peer_open b1 q" "mg_deleted_posts b1 = mg_deleted_posts b" "mg_handled_requests b1 = hs_insert r (mg_handled_requests b)"
    "queued b1 q = [?req]" "set (mg_requested_posts b1) = set (mg_requested_posts b) \<union> set ?ws"
    using handle_hash_response_want [of "hash_response c r hs" hs b q cr checks] assms(3-6)
    by (auto simp: hash_response_def message_new_def message_header_new_def)
  obtain b2 where t2: "transmit cr checks q p b1 a1 = (b2, fst (handle cr checks p ?req a1))"
    and b2: "queued b2 q = []" "peer_open b2 q" "b2 = b1\<lparr>mg_peers := mg_peers b2\<rparr>"
    by (rule transmit_one [OF b1(6) assms(10) b1(3)]) blast
  have "mg_store a1 = mg_store a" "\<not> is_stale a1 p ?n"
    by (subst a1(3), use assms(7) in \<open>simp add: is_stale_def is_live_request_def\<close>)+
  then obtain a2 where a2: "handle cr checks p ?req a1 = (a2, Ok ())" "mg_store a2 = mg_store a" "peer_open a2 p"
    "queued a2 p = [?res]"
    using handle_post_request_answer [of ?req TTL ?ws a1 p cr checks] a1(1,2)
    by (auto simp: post_request_def message_new_def message_header_new_def)
  obtain a3 where t3: "transmit cr checks p q a2 b2 = (a3, fst (handle cr checks q ?res b2))"
    and a3: "queued a3 p = []" "a3 = a2\<lparr>mg_peers := mg_peers a3\<rparr>"
    by (rule transmit_one [OF a2(4) assms(11) a2(3)]) blast
  let ?b3 = "fst (handle cr checks q ?res b2)"
  have b2s: "mg_store b2 = mg_store b" "mg_deleted_posts b2 = mg_deleted_posts b" "mg_requested_posts b2 = mg_requested_posts b1"
    "?n \<notin> set (mg_handled_requests b2)"
    by (subst b2(3), use b1 assms(8) in simp)+
  have "known ?b3 = learn (get_post_payload (mg_store a)) hs (known b) \<and> mg_peers ?b3 = mg_peers b2"
    by (rule handle_post_response_learns)
      (use b2s b1(7) assms(12,13) in \<open>simp_all add: post_response_def message_new_def message_header_new_def is_stale_def\<close>)
  moreover from this have "queued ?b3 q = []" using queued_peers [of ?b3 b2] b2(1) by simp
  moreover have "mg_store a3 = mg_store a" by (subst a3(2)) (simp add: a2(2))
  ultimately show ?thesis
    using t1 t2 t3 b1(1) a2(1) a3(1) by (simp add: sync_round_def known_def)
qed

text \<open>A manager that has a post and offers it to its peer.\<close>

definition sample_serving :: manager where
  "sample_serving = sample_manager
     \<lparr>mg_store := (mg_store sample_manager)\<lparr>st_post_payloads := [(replicate 32 1, post_bytes sample_signed)]\<rparr>,
      mg_peers := [(1, \<lparr>pc_queue = [hash_response NO_CIRCUIT [1, 2, 3, 4] [replicate 32 1]], pc_closed = False\<rparr>)]\<rparr>"

lemma sample_post_length: "length (post_bytes sample_signed) = 138"
  by (simp add: post_bytes_def post_signed_bytes_def sample_signed_def sample_post_def Cable_Post.post_text_def
      post_new_def post_header_new_def set_signature_def hashes_bytes_def post_type_def post_type_defs
      string_bytes_def varint_bytes.simps)

lemma sample_sizes:
  "length (message_content (hash_response NO_CIRCUIT [1, 2, 3, 4] [replicate 32 1])) = 42"
  "length (message_content (post_request NO_CIRCUIT [0, 0, 0, 42] TTL [replicate 32 1])) = 43"
  "length (message_content (post_response NO_CIRCUIT [0, 0, 0, 42] [post_bytes sample_signed])) = 150"
  by (simp_all add: hash_response_def post_request_def post_response_def message_content_def message_type_def
      message_new_def message_header_new_def msg_type_defs hashes_bytes_def blobs_bytes_def string_bytes_def
      varint_bytes.simps NO_CIRCUIT_def TTL_def sample_post_length)

lemma known_bodies:
  "known_message (m_body (hash_response c r hs))" "known_message (m_body (post_request c r ttl hs))"
  "known_message (m_body (post_response c r posts))"
  by (simp_all add: hash_response_def post_request_def post_response_def message_new_def)

theorem sync_round_refines_witness:
  "\<exists>a' b'. sync_round sample_crypto True 1 1 sample_serving sample_manager = (a', b') \<and>
     known sample_manager (replicate 32 1) = None \<and> known b' (replicate 32 1) = Some (post_bytes sample_signed)"
proof -
  let ?h = "replicate 32 1 :: hash" and ?c = "sample_crypto"
  have a: "peer_open sample_serving 1" "queued sample_serving 1 = [hash_response NO_CIRCUIT [1, 2, 3, 4] [?h]]"
    "\<not> is_stale sample_serving 1 [0, 0, 0, 42]" "get_post_payload (mg_store sample_serving) ?h = Some (post_bytes sample_signed)"
    by (simp_all add: sample_serving_def sample_manager_def manager_new_def peer_open_def queued_def is_stale_def
        get_post_payload_def)
  have b: "get_post_payload (mg_store sample_manager) ?h = None" "mg_handled_requests sample_manager = []"
    "mg_deleted_posts sample_manager = []"
    by (simp_all add: sample_manager_def manager_new_def sample_store_def store_default_def get_post_payload_def)
  have n: "next_req_id sample_manager = [0, 0, 0, 42]"
    by (simp add: next_req_id_def sample_manager_def manager_new_def to_be_bytes_def to_le_bytes_def upt_rec)
  have w: "want (mg_store sample_manager) [?h] = [?h]" "get_post_payloads (mg_store sample_serving) [?h] = [post_bytes sample_signed]"
    using a(4) b(1) by (simp_all add: want_eq get_post_payloads_eq)
  have "post_bytes sample_signed \<noteq> []" using sample_post_length by auto
  then have "message_ok (hash_response NO_CIRCUIT [1, 2, 3, 4] [?h])"
    "message_ok (post_request NO_CIRCUIT [0, 0, 0, 42] TTL [?h])"
    "message_ok (post_response NO_CIRCUIT [0, 0, 0, 42] [post_bytes sample_signed])"
    by (simp_all add: hash_response_def post_request_def post_response_def message_new_def message_header_new_def
        message_ok_def message_type_def NO_CIRCUIT_def hashes_ok_def sample_post_length)
  then have wire: "wire_ok (hash_response NO_CIRCUIT [1, 2, 3, 4] [?h])"
    "wire_ok (post_request NO_CIRCUIT [0, 0, 0, 42] TTL [?h])"
    "wire_ok (post_response NO_CIRCUIT [0, 0, 0, 42] [post_bytes sample_signed])"
    using sample_sizes known_bodies by (auto intro!: wire_okI)
  have "genuine ?c ?h (post_bytes sample_signed)"
    using sample_signed_bytes by (auto simp: genuine_def sample_signed_def sample_post_def Cable_Post.post_text_def post_new_def)
  then obtain a' b' where "sync_round ?c True 1 1 sample_serving sample_manager = (a', b')"
    "known b' = learn (known sample_serving) [?h] (known sample_manager)"
    using sync_round_refines [of sample_serving 1 NO_CIRCUIT "[1, 2, 3, 4]" "[?h]" sample_manager 1 ?c True]
      sample_manager_open sample_manager_fresh a b n w wire by auto
  then show ?thesis using a(4) b(1) by (auto simp: known_def learn_def)
qed

section \<open>The integration tests\<close>


end
